(* ===== verification/Prelude.thy ===== *)
theory Prelude
  imports
    "HOL-Library.Word"
    "HOL-Library.List_Lexorder"
    "HOL-Library.Finite_Map"
    "HOL-Library.Monad_Syntax"
    "HOL-Library.Signed_Division"
begin

text \<open>
  The vocabulary every component shares: Go's fixed-width integers and byte slices, Go maps,
  time, the two ways a Go function can fail, and the generic facts about lists, finite maps and
  words that the component proofs rest on.

  Conventions of the whole development.
  \<^item> \<open>uint64\<close>/\<open>int64\<close> are \<^typ>\<open>64 word\<close>; arithmetic wraps as Go's does, \<open>sint\<close> reads a signed
    value and \<open>unat\<close> an unsigned one. Lengths and positions of slices are \<^typ>\<open>nat\<close>.
  \<^item> A Go map is a finite map (\<open>fmap\<close>). Where code ranges over a map, the iteration order, which
    Go leaves unspecified, is an argument: a list of the keys constrained by \<open>map_order\<close>.
  \<^item> A nil pointer is \<open>None\<close>. A function that can panic returns an \<open>option\<close> whose \<open>None\<close> is
    the panic; a function that returns a Go \<open>error\<close> returns a sum, \<open>Inl\<close> being the error.
  \<^item> A \<open>time.Time\<close> is the number of nanoseconds since the Unix epoch, an \<^typ>\<open>int\<close>.
\<close>

named_theorems bytes_simps \<open>bytes.Compare in terms of the lexicographic order\<close>
named_theorems gomap_simps \<open>lookups, domains and sizes of Go maps\<close>

type_synonym u64 = "64 word"
type_synonym i64 = "64 word"
type_synonym u32 = "32 word"
type_synonym i32 = "32 word"
type_synonym byte = "8 word"
type_synonym bytes = "byte list"
type_synonym time = int
type_synonym duration = int

subsection \<open>Byte slices: bytes.Compare, bytes.HasPrefix\<close>

fun bytes_Compare :: "bytes \<Rightarrow> bytes \<Rightarrow> int" where
  "bytes_Compare [] [] = 0"
| "bytes_Compare [] (_ # _) = -1"
| "bytes_Compare (_ # _) [] = 1"
| "bytes_Compare (x # xs) (y # ys) =
     (if x < y then -1 else if y < x then 1 else bytes_Compare xs ys)"

definition bytes_HasPrefix :: "bytes \<Rightarrow> bytes \<Rightarrow> bool" where
  "bytes_HasPrefix s p \<longleftrightarrow> length p \<le> length s \<and> take (length p) s = p"

lemma bytes_Compare_less [bytes_simps]: "bytes_Compare a b < 0 \<longleftrightarrow> a < b"
  by (induction a b rule: bytes_Compare.induct) auto

lemma bytes_Compare_eq [bytes_simps]: "bytes_Compare a b = 0 \<longleftrightarrow> a = b"
  by (induction a b rule: bytes_Compare.induct) auto

lemma bytes_Compare_greater [bytes_simps]: "0 < bytes_Compare a b \<longleftrightarrow> b < a"
  by (induction a b rule: bytes_Compare.induct) auto

lemma bytes_Compare_le [bytes_simps]: "bytes_Compare a b \<le> 0 \<longleftrightarrow> a \<le> b"
  using bytes_Compare_greater [of a b] by (simp add: not_less [symmetric])

lemma bytes_Compare_ge [bytes_simps]: "0 \<le> bytes_Compare a b \<longleftrightarrow> b \<le> a"
  using bytes_Compare_less [of a b] by (simp add: not_less [symmetric])

lemma bytes_HasPrefix_append [simp]: "bytes_HasPrefix (p @ s) p"
  by (simp add: bytes_HasPrefix_def)

lemma Nil_le_bytes [simp]: "[] \<le> (k :: bytes)"
  by simp

subsection \<open>Go maps\<close>

definition fmlen :: "('k, 'v) fmap \<Rightarrow> nat" where
  "fmlen m = fcard (fmdom m)"

definition fmhas :: "('k, 'v) fmap \<Rightarrow> 'k \<Rightarrow> bool" where
  "fmhas m k \<longleftrightarrow> fmlookup m k \<noteq> None"

text \<open>\<open>map_order ks m\<close>: ranging over \<open>m\<close> may visit its keys in the order \<open>ks\<close>.\<close>

definition map_order :: "'k list \<Rightarrow> ('k, 'v) fmap \<Rightarrow> bool" where
  "map_order ks m \<longleftrightarrow> distinct ks \<and> fset_of_list ks = fmdom m"

text \<open>A Go set (\<open>map[K]struct{}\<close>) is a finite set; \<open>set_order\<close> is its iteration order.\<close>

definition set_order :: "'k list \<Rightarrow> 'k fset \<Rightarrow> bool" where
  "set_order ks S \<longleftrightarrow> distinct ks \<and> fset_of_list ks = S"

text \<open>The values visited when ranging over the keys \<open>ks\<close> of \<open>m\<close>.\<close>

definition range_values :: "'k list \<Rightarrow> ('k, 'v) fmap \<Rightarrow> 'v list" where
  "range_values ks m = map (\<lambda>k. the (fmlookup m k)) (filter (fmhas m) ks)"

lemma fmlen_empty [gomap_simps, simp]: "fmlen fmempty = 0"
  by (simp add: fmlen_def)

lemma fmlen_fmupd [gomap_simps]:
  "fmlen (fmupd k v m) = (if k |\<in>| fmdom m then fmlen m else Suc (fmlen m))"
  by (simp add: fmlen_def finsert_absorb fcard_finsert_disjoint)

lemma fmlen_fmdrop [gomap_simps]:
  "fmlen (fmdrop k m) = (if k |\<in>| fmdom m then fmlen m - 1 else fmlen m)"
  by (simp add: fmlen_def fcard_fminus_fsingleton_if)

lemma map_order_iff: "map_order ks m \<longleftrightarrow> distinct ks \<and> (\<forall>k. k \<in> set ks \<longleftrightarrow> fmlookup m k \<noteq> None)"
  unfolding map_order_def by (auto simp: fset_eq_iff fset_of_list_elem fmlookup_dom_iff)

lemma set_order_iff: "set_order ks S \<longleftrightarrow> distinct ks \<and> set ks = fset S"
  unfolding set_order_def by (metis fset_inject fset_of_list.rep_eq)

lemma map_order_length: "map_order ks m \<Longrightarrow> length ks = fmlen m"
  unfolding map_order_def fmlen_def
  by (metis distinct_card fcard.rep_eq fset_of_list.rep_eq)

lemma set_range_values:
  "map_order ks m \<Longrightarrow> set (range_values ks m) = {v. \<exists>k. fmlookup m k = Some v}"
  by (force simp: range_values_def map_order_iff fmhas_def)

lemma length_range_values: "map_order ks m \<Longrightarrow> length (range_values ks m) = fmlen m"
  using map_order_length [of ks m]
  by (simp add: range_values_def map_order_iff fmhas_def filter_id_conv [THEN iffD2])

subsection \<open>Signed integers and time\<close>

text \<open>Go's \<open>/\<close> on \<open>int64\<close> truncates towards zero; the divisor zero panics.\<close>

definition go_sdiv :: "i64 \<Rightarrow> i64 \<Rightarrow> i64 option" where
  "go_sdiv a b = (if b = 0 then None else Some (word_of_int (sint a sdiv sint b)))"

text \<open>The value of an integer after Go has stored it in an \<open>int64\<close>.\<close>

definition wrap64 :: "int \<Rightarrow> int" where
  "wrap64 x = sint (word_of_int x :: 64 word)"

lemma wrap64_range: "- (2 ^ 63) \<le> wrap64 x \<and> wrap64 x < 2 ^ 63"
  using sint_greater_eq [of "word_of_int x :: 64 word"] sint_less [of "word_of_int x :: 64 word"]
  by (simp add: wrap64_def)

lemma wrap64_id: "- (2 ^ 63) \<le> x \<Longrightarrow> x < 2 ^ 63 \<Longrightarrow> wrap64 x = x"
  by (simp add: wrap64_def sint_sbintrunc' signed_take_bit_int_eq_self)

text \<open>
  \<open>t.Sub(u)\<close>: the difference of two instants, saturated to the range of a \<open>time.Duration\<close>.
  \<open>zero_time\<close> is the zero \<open>time.Time\<close>, 1 January of the year 1.
\<close>

definition time_Sub :: "time \<Rightarrow> time \<Rightarrow> duration" where
  "time_Sub t u = max (- (2 ^ 63)) (min (2 ^ 63 - 1) (t - u))"

definition zero_time :: time where
  "zero_time = - 62135596800 * 10 ^ 9"

definition Millisecond :: duration where
  "Millisecond = 10 ^ 6"

definition Second :: duration where
  "Second = 10 ^ 9"

definition Minute :: duration where
  "Minute = 60 * 10 ^ 9"

lemma time_Sub_gt: "0 \<le> d \<Longrightarrow> d < 2 ^ 63 - 1 \<Longrightarrow> time_Sub t u > d \<longleftrightarrow> t - u > d"
  by (auto simp: time_Sub_def)

subsection \<open>Strings: strings.EqualFold\<close>

text \<open>Case folding of ASCII text; the labels, keys and names compared this way are ASCII.\<close>

definition ascii_lower :: "char \<Rightarrow> char" where
  "ascii_lower c = (let n = (of_char c :: nat) in if 65 \<le> n \<and> n \<le> 90 then char_of (n + 32) else c)"

definition ascii_upper :: "char \<Rightarrow> char" where
  "ascii_upper c = (let n = (of_char c :: nat) in if 97 \<le> n \<and> n \<le> 122 then char_of (n - 32) else c)"

definition strings_ToUpper :: "string \<Rightarrow> string" where
  "strings_ToUpper s = map ascii_upper s"

definition strings_EqualFold :: "string \<Rightarrow> string \<Rightarrow> bool" where
  "strings_EqualFold s t \<longleftrightarrow> map ascii_lower s = map ascii_lower t"

lemma EqualFold_refl [simp]: "strings_EqualFold s s"
  by (simp add: strings_EqualFold_def)

lemma EqualFold_sym: "strings_EqualFold s t \<longleftrightarrow> strings_EqualFold t s"
  by (auto simp: strings_EqualFold_def)

lemma EqualFold_trans: "strings_EqualFold s t \<Longrightarrow> strings_EqualFold t u \<Longrightarrow> strings_EqualFold s u"
  by (simp add: strings_EqualFold_def)

subsection \<open>Numbers in text: strconv.FormatUint and ParseUint, and the verb %020d\<close>

definition digit_char :: "nat \<Rightarrow> char" where
  "digit_char d = char_of (if d < 10 then 48 + d else 87 + d)"

definition char_digit :: "nat \<Rightarrow> char \<Rightarrow> nat option" where
  "char_digit base c =
     (let n = of_char c;
          d = (if 48 \<le> n \<and> n \<le> 57 then n - 48 else if 97 \<le> n \<and> n \<le> 122 then n - 87
               else if 65 \<le> n \<and> n \<le> 90 then n - 55 else base)
      in if d < base then Some d else None)"

fun format_nat :: "nat \<Rightarrow> nat \<Rightarrow> string" where
  "format_nat base n =
     (if base < 2 \<or> n < base then [digit_char n]
      else format_nat base (n div base) @ [digit_char (n mod base)])"

declare format_nat.simps [simp del]

fun parse_nat :: "nat \<Rightarrow> nat \<Rightarrow> string \<Rightarrow> nat option" where
  "parse_nat base acc [] = Some acc"
| "parse_nat base acc (c # cs) =
     (case char_digit base c of None \<Rightarrow> None | Some d \<Rightarrow> parse_nat base (acc * base + d) cs)"

definition FormatUint_base :: "nat \<Rightarrow> u64 \<Rightarrow> string" where
  "FormatUint_base base u = format_nat base (unat u)"

text \<open>\<open>None\<close>: not a number, or out of the 64-bit range.\<close>

definition ParseUint_base :: "nat \<Rightarrow> string \<Rightarrow> u64 option" where
  "ParseUint_base base s =
     (if s = [] then None
      else case parse_nat base 0 s of
             None \<Rightarrow> None
           | Some n \<Rightarrow> if n < 2 ^ 64 then Some (of_nat n) else None)"

definition FormatUint :: "u64 \<Rightarrow> string" where
  "FormatUint = FormatUint_base 10"

definition ParseUint :: "string \<Rightarrow> u64 option" where
  "ParseUint = ParseUint_base 10"

definition fmt_020d :: "u64 \<Rightarrow> string" where
  "fmt_020d u = (let s = FormatUint u in replicate (20 - length s) (CHR ''0'') @ s)"

lemma char_digit_char: "d < base \<Longrightarrow> base \<le> 36 \<Longrightarrow> char_digit base (digit_char d) = Some d"
  by (simp add: char_digit_def digit_char_def Let_def)

lemma parse_nat_append: "parse_nat base acc (xs @ ys) =
    (case parse_nat base acc xs of None \<Rightarrow> None | Some n \<Rightarrow> parse_nat base n ys)"
  by (induction base acc xs rule: parse_nat.induct) (auto split: option.splits)

lemma parse_format_nat: "2 \<le> base \<Longrightarrow> base \<le> 36 \<Longrightarrow> parse_nat base 0 (format_nat base n) = Some n"
proof (induction base n rule: format_nat.induct)
  case (1 base n)
  then show ?case
    by (subst format_nat.simps) (simp add: char_digit_char parse_nat_append)
qed

lemma format_nat_nonempty: "format_nat base n \<noteq> []"
  by (subst format_nat.simps) simp

lemma FormatUint_nonempty [simp]: "FormatUint_base base u \<noteq> []" "FormatUint u \<noteq> []"
  by (simp_all add: FormatUint_base_def FormatUint_def format_nat_nonempty)

lemma ParseUint_FormatUint_base:
  assumes "2 \<le> base" "base \<le> 36"
  shows "ParseUint_base base (FormatUint_base base u) = Some u"
proof -
  have "unat u < 2 ^ LENGTH(64)" by (rule unsigned_less)
  then show ?thesis
    by (simp add: ParseUint_base_def FormatUint_base_def format_nat_nonempty parse_format_nat [OF assms])
qed

lemma ParseUint_FormatUint: "ParseUint (FormatUint u) = Some u"
  by (simp add: ParseUint_def FormatUint_def ParseUint_FormatUint_base)

subsection \<open>Paths: path.Join on paths that are already clean\<close>

definition path_Join :: "string \<Rightarrow> string \<Rightarrow> string" where
  "path_Join a b = (if a = [] then b else if b = [] then a else a @ ''/'' @ b)"

lemma path_Join_inj: "path_Join root a = path_Join root b \<Longrightarrow> a \<noteq> [] \<Longrightarrow> b \<noteq> [] \<Longrightarrow> a = b"
  by (auto simp: path_Join_def split: if_splits)

subsection \<open>Lists\<close>

lemma takeWhile_filter_sorted:
  assumes "sorted_wrt R xs" "\<And>x y. R x y \<Longrightarrow> P y \<Longrightarrow> P x"
  shows "takeWhile P xs = filter P xs"
  using assms by (induction xs) (auto simp: filter_empty_conv eq_commute [of "[]"])

lemma find_None_filter: "List.find P xs = None \<longleftrightarrow> filter P xs = []"
  by (auto simp: find_None_iff filter_empty_conv)

lemma find_Some_set: "List.find P xs = Some x \<Longrightarrow> x \<in> set xs \<and> P x"
  by (auto simp: find_Some_iff)

lemma option_ext: "(\<And>w. a = Some w \<longleftrightarrow> b = Some w) \<Longrightarrow> a = b"
  by (cases a; cases b) auto

lemma length_takeWhile_iff:
  "i < length xs \<Longrightarrow>
    length (takeWhile (\<lambda>x. \<not> P x) xs) = i \<longleftrightarrow> P (xs ! i) \<and> (\<forall>j < i. \<not> P (xs ! j))"
proof (induction xs arbitrary: i)
  case (Cons x xs)
  then show ?case by (cases i) (auto simp: less_Suc_eq_0_disj)
qed simp

lemma sorted_wrt_distinct: "sorted_wrt R xs \<Longrightarrow> (\<And>x. \<not> R x x) \<Longrightarrow> distinct xs"
  by (induction xs) auto

lemma find_sorted_first:
  "sorted_wrt R xs \<Longrightarrow> List.find P xs = Some q \<Longrightarrow> p \<in> set xs \<Longrightarrow> P p \<Longrightarrow> p = q \<or> R q p"
  by (induction xs) (auto split: if_splits)

lemma find_rev_sorted_last:
  "sorted_wrt R xs \<Longrightarrow> List.find P (rev xs) = Some q \<Longrightarrow> p \<in> set xs \<Longrightarrow> P p \<Longrightarrow> p = q \<or> R p q"
  using find_sorted_first [of "\<lambda>x y. R y x" "rev xs" P q p] by (simp add: sorted_wrt_rev)

lemma find_exists: "x \<in> set xs \<Longrightarrow> P x \<Longrightarrow> \<exists>y. List.find P xs = Some y"
  by (metis find_None_iff not_None_eq)

lemma distinct_map_inj:
  "distinct (map f xs) \<Longrightarrow> x \<in> set xs \<Longrightarrow> y \<in> set xs \<Longrightarrow> f x = f y \<Longrightarrow> x = y"
  by (simp add: distinct_map inj_on_def)

end
