(* ===== verification/Cache.thy ===== *)
theory Cache
  imports Prelude
begin

text \<open>
  \<open>pkg/cache\<close>: the FIFO, LRU and TTL caches and the interface \<open>Cache\<close>. The doubly linked list of
  \<open>container/list\<close> is a list of element pointers, front first, and the items the elements point
  to are in a heap, because the LRU cache reaches an item both through the list and through its
  map from keys to elements. The mutex of \<open>threadSafeCache\<close> makes each call atomic; a call is a
  function on the cache.

  The locale \<open>cache_contract\<close> is the Go interface \<open>Cache\<close> with the laws its users expect; both
  the LRU and the two-queue cache are interpretations of it.
\<close>

subsection \<open>FIFO\<close>

record 'v Item =
  Item_Key :: u64
  Item_Value :: 'v

text \<open>\<open>ll\<close> is front first: new items are pushed at the front, the oldest is at the back.\<close>

record 'v FIFO =
  fifo_maxCount :: int
  fifo_ll :: "'v Item list"

definition NewFIFO :: "int \<Rightarrow> 'v FIFO" where
  "NewFIFO maxCount = \<lparr>fifo_maxCount = maxCount, fifo_ll = []\<rparr>"

text \<open>\<open>Remove\<close> of an empty list passes a nil element to the list package and panics.\<close>

definition FIFO_Remove :: "'v FIFO \<Rightarrow> 'v FIFO option" where
  "FIFO_Remove c = (if fifo_ll c = [] then None else Some (c\<lparr>fifo_ll := butlast (fifo_ll c)\<rparr>))"

definition FIFO_Put :: "'v FIFO \<Rightarrow> u64 \<Rightarrow> 'v \<Rightarrow> 'v FIFO" where
  "FIFO_Put c key v =
     (let c = c\<lparr>fifo_ll := \<lparr>Item_Key = key, Item_Value = v\<rparr> # fifo_ll c\<rparr>
      in if fifo_maxCount c \<noteq> 0 \<and> int (length (fifo_ll c)) > fifo_maxCount c
         then c\<lparr>fifo_ll := butlast (fifo_ll c)\<rparr> else c)"

definition FIFO_Elems :: "'v FIFO \<Rightarrow> 'v Item list" where
  "FIFO_Elems c = rev (fifo_ll c)"

definition FIFO_FromElems :: "'v FIFO \<Rightarrow> u64 \<Rightarrow> 'v Item list" where
  "FIFO_FromElems c key = filter (\<lambda>kv. Item_Key kv > key) (rev (fifo_ll c))"

definition FIFO_Len :: "'v FIFO \<Rightarrow> nat" where
  "FIFO_Len c = length (fifo_ll c)"

subsection \<open>LRU\<close>

type_synonym elem = nat

text \<open>\<open>next\<close> is the address the next list element gets.\<close>

record 'v LRU =
  lru_maxCount :: int
  lru_ll :: "elem list"
  lru_cache :: "(u64, elem) fmap"
  lru_heap :: "elem \<Rightarrow> 'v Item"
  lru_next :: elem

definition newLRU :: "int \<Rightarrow> 'v LRU" where
  "newLRU maxCount =
     \<lparr>lru_maxCount = maxCount, lru_ll = [], lru_cache = fmempty,
      lru_heap = (\<lambda>_. undefined), lru_next = 0\<rparr>"

definition ll_MoveToFront :: "elem \<Rightarrow> elem list \<Rightarrow> elem list" where
  "ll_MoveToFront e l = (if e \<in> set l then e # filter (\<lambda>x. x \<noteq> e) l else l)"

definition LRU_removeElement :: "'v LRU \<Rightarrow> elem \<Rightarrow> 'v LRU" where
  "LRU_removeElement c ele =
     c\<lparr>lru_ll := filter (\<lambda>x. x \<noteq> ele) (lru_ll c),
       lru_cache := fmdrop (Item_Key (lru_heap c ele)) (lru_cache c)\<rparr>"

definition LRU_removeOldest :: "'v LRU \<Rightarrow> 'v LRU" where
  "LRU_removeOldest c = (if lru_ll c = [] then c else LRU_removeElement c (last (lru_ll c)))"

definition LRU_Put :: "'v LRU \<Rightarrow> u64 \<Rightarrow> 'v \<Rightarrow> 'v LRU" where
  "LRU_Put c key v =
     (case fmlookup (lru_cache c) key of
        Some ele \<Rightarrow>
          c\<lparr>lru_ll := ll_MoveToFront ele (lru_ll c),
            lru_heap := (lru_heap c)(ele := (lru_heap c ele)\<lparr>Item_Value := v\<rparr>)\<rparr>
      | None \<Rightarrow>
          (let ele = lru_next c;
               c = c\<lparr>lru_heap := (lru_heap c)(ele := \<lparr>Item_Key = key, Item_Value = v\<rparr>),
                     lru_next := Suc ele,
                     lru_ll := ele # lru_ll c,
                     lru_cache := fmupd key ele (lru_cache c)\<rparr>
           in if lru_maxCount c \<noteq> 0 \<and> int (length (lru_ll c)) > lru_maxCount c
              then LRU_removeOldest c else c))"

definition LRU_Get :: "'v LRU \<Rightarrow> u64 \<Rightarrow> 'v option \<times> 'v LRU" where
  "LRU_Get c key =
     (case fmlookup (lru_cache c) key of
        Some ele \<Rightarrow>
          (Some (Item_Value (lru_heap c ele)), c\<lparr>lru_ll := ll_MoveToFront ele (lru_ll c)\<rparr>)
      | None \<Rightarrow> (None, c))"

definition LRU_Peek :: "'v LRU \<Rightarrow> u64 \<Rightarrow> 'v option" where
  "LRU_Peek c key =
     (case fmlookup (lru_cache c) key of
        Some ele \<Rightarrow> Some (Item_Value (lru_heap c ele)) | None \<Rightarrow> None)"

definition LRU_contains :: "'v LRU \<Rightarrow> u64 \<Rightarrow> bool" where
  "LRU_contains c key \<longleftrightarrow> fmlookup (lru_cache c) key \<noteq> None"

definition LRU_remove :: "'v LRU \<Rightarrow> u64 \<Rightarrow> bool \<times> 'v LRU" where
  "LRU_remove c key =
     (case fmlookup (lru_cache c) key of
        Some ele \<Rightarrow> (True, LRU_removeElement c ele) | None \<Rightarrow> (False, c))"

definition LRU_Remove :: "'v LRU \<Rightarrow> u64 \<Rightarrow> 'v LRU" where
  "LRU_Remove c key = snd (LRU_remove c key)"

definition LRU_getAndRemoveOldest :: "'v LRU \<Rightarrow> (u64 \<times> 'v) option \<times> 'v LRU" where
  "LRU_getAndRemoveOldest c =
     (if lru_ll c = [] then (None, c)
      else let ele = last (lru_ll c)
           in (Some (Item_Key (lru_heap c ele), Item_Value (lru_heap c ele)),
               LRU_removeElement c ele))"

definition LRU_Elems :: "'v LRU \<Rightarrow> 'v Item list" where
  "LRU_Elems c = map (lru_heap c) (lru_ll c)"

definition LRU_Len :: "'v LRU \<Rightarrow> nat" where
  "LRU_Len c = length (lru_ll c)"

subsection \<open>TTL\<close>

record 'v ttlCacheItem =
  ttl_value :: 'v
  ttl_expire :: time

record 'v TTL =
  ttl_items :: "(u64, 'v ttlCacheItem) fmap"
  ttl_ttl :: duration
  ttl_gcInterval :: duration

definition NewTTL :: "duration \<Rightarrow> duration \<Rightarrow> 'v TTL" where
  "NewTTL gcInterval ttl = \<lparr>ttl_items = fmempty, ttl_ttl = ttl, ttl_gcInterval = gcInterval\<rparr>"

text \<open>\<open>now\<close> is the clock reading the call makes.\<close>

definition TTL_PutWithTTL :: "time \<Rightarrow> 'v TTL \<Rightarrow> u64 \<Rightarrow> 'v \<Rightarrow> duration \<Rightarrow> 'v TTL" where
  "TTL_PutWithTTL now c key v ttl =
     c\<lparr>ttl_items := fmupd key \<lparr>ttl_value = v, ttl_expire = now + ttl\<rparr> (ttl_items c)\<rparr>"

definition TTL_Put :: "time \<Rightarrow> 'v TTL \<Rightarrow> u64 \<Rightarrow> 'v \<Rightarrow> 'v TTL" where
  "TTL_Put now c key v = TTL_PutWithTTL now c key v (ttl_ttl c)"

definition TTL_Get :: "time \<Rightarrow> 'v TTL \<Rightarrow> u64 \<Rightarrow> 'v option" where
  "TTL_Get now c key =
     (case fmlookup (ttl_items c) key of
        None \<Rightarrow> None
      | Some item \<Rightarrow> if ttl_expire item < now then None else Some (ttl_value item))"

definition TTL_Remove :: "'v TTL \<Rightarrow> u64 \<Rightarrow> 'v TTL" where
  "TTL_Remove c key = c\<lparr>ttl_items := fmdrop key (ttl_items c)\<rparr>"

definition TTL_Len :: "'v TTL \<Rightarrow> nat" where
  "TTL_Len c = fmlen (ttl_items c)"

definition TTL_Clear :: "'v TTL \<Rightarrow> 'v TTL" where
  "TTL_Clear c = c\<lparr>ttl_items := fmempty\<rparr>"

text \<open>One round of the collector, at clock reading \<open>now\<close>.\<close>

definition TTL_doGC :: "time \<Rightarrow> 'v TTL \<Rightarrow> 'v TTL" where
  "TTL_doGC now c = c\<lparr>ttl_items := fmfilter (\<lambda>key. case fmlookup (ttl_items c) key of
     None \<Rightarrow> True | Some item \<Rightarrow> \<not> ttl_expire item < now) (ttl_items c)\<rparr>"

definition TTLUint64_Put :: "time \<Rightarrow> unit TTL \<Rightarrow> u64 \<Rightarrow> unit TTL" where
  "TTLUint64_Put now c i = TTL_Put now c i ()"

definition TTLUint64_Exists :: "time \<Rightarrow> unit TTL \<Rightarrow> u64 \<Rightarrow> bool" where
  "TTLUint64_Exists now c i \<longleftrightarrow> TTL_Get now c i \<noteq> None"

subsection \<open>The interface\<close>

text \<open>
  A bounded cache of type \<open>'c\<close>: \<open>view\<close> is what it holds. A lookup never changes what is held and
  returns it; an insertion holds the new value and may drop others, but never changes them;
  a removal drops exactly its key. \<open>cap\<close> is the capacity, zero meaning unbounded.
\<close>

locale cache_contract =
  fixes put :: "'c \<Rightarrow> u64 \<Rightarrow> 'v \<Rightarrow> 'c" and get :: "'c \<Rightarrow> u64 \<Rightarrow> 'v option \<times> 'c"
    and peek :: "'c \<Rightarrow> u64 \<Rightarrow> 'v option" and remove :: "'c \<Rightarrow> u64 \<Rightarrow> 'c"
    and elems :: "'c \<Rightarrow> 'v Item list" and len :: "'c \<Rightarrow> nat"
    and inv :: "'c \<Rightarrow> bool" and view :: "'c \<Rightarrow> u64 \<Rightarrow> 'v option" and cap :: "'c \<Rightarrow> nat"
  assumes put_inv: "inv c \<Longrightarrow> inv (put c k v)"
    and put_same: "inv c \<Longrightarrow> view (put c k v) k = Some v"
    and put_other: "inv c \<Longrightarrow> j \<noteq> k \<Longrightarrow> view (put c k v) j = Some w \<Longrightarrow> view c j = Some w"
    and put_cap: "inv c \<Longrightarrow> cap (put c k v) = cap c"
    and get_value: "inv c \<Longrightarrow> fst (get c k) = view c k"
    and get_view: "inv c \<Longrightarrow> inv (snd (get c k)) \<and> view (snd (get c k)) = view c \<and> cap (snd (get c k)) = cap c"
    and peek_value: "inv c \<Longrightarrow> peek c k = view c k"
    and remove_view: "inv c \<Longrightarrow> inv (remove c k) \<and> view (remove c k) = (view c)(k := None) \<and>
      cap (remove c k) = cap c"
    and elems_view: "inv c \<Longrightarrow> distinct (map Item_Key (elems c)) \<and>
      (\<forall>i. i \<in> set (elems c) \<longleftrightarrow> view c (Item_Key i) = Some (Item_Value i))"
    and len_elems: "inv c \<Longrightarrow> len c = length (elems c)"
    and len_cap: "inv c \<Longrightarrow> cap c \<noteq> 0 \<Longrightarrow> len c \<le> cap c"

datatype 'v cache_op = CachePut u64 'v | CacheGet u64 | CacheRemove u64

fun cache_apply :: "('c \<Rightarrow> u64 \<Rightarrow> 'v \<Rightarrow> 'c) \<Rightarrow> ('c \<Rightarrow> u64 \<Rightarrow> 'v option \<times> 'c) \<Rightarrow>
    ('c \<Rightarrow> u64 \<Rightarrow> 'c) \<Rightarrow> 'v cache_op \<Rightarrow> 'c \<Rightarrow> 'c" where
  "cache_apply put get remove (CachePut k v) c = put c k v"
| "cache_apply put get remove (CacheGet k) c = snd (get c k)"
| "cache_apply put get remove (CacheRemove k) c = remove c k"

text \<open>What an unbounded map would hold.\<close>

fun op_map :: "'v cache_op \<Rightarrow> (u64 \<Rightarrow> 'v option) \<Rightarrow> (u64 \<Rightarrow> 'v option)" where
  "op_map (CachePut k v) m = m(k \<mapsto> v)"
| "op_map (CacheGet k) m = m"
| "op_map (CacheRemove k) m = m(k := None)"

context cache_contract
begin

lemma apply_step:
  assumes "inv c" "view c \<subseteq>\<^sub>m m"
  shows "inv (cache_apply put get remove op c) \<and>
    view (cache_apply put get remove op c) \<subseteq>\<^sub>m op_map op m \<and>
    cap (cache_apply put get remove op c) = cap c"
proof (cases op)
  case (CachePut k v)
  have "view (put c k v) \<subseteq>\<^sub>m m(k \<mapsto> v)"
    unfolding map_le_def
  proof
    fix j assume "j \<in> dom (view (put c k v))"
    then obtain w where w: "view (put c k v) j = Some w" by blast
    show "view (put c k v) j = (m(k \<mapsto> v)) j"
    proof (cases "j = k")
      case True
      with put_same [OF assms(1)] show ?thesis by simp
    next
      case False
      with put_other [OF assms(1) False w] assms(2) w show ?thesis by (metis domI fun_upd_other map_le_def)
    qed
  qed
  with CachePut assms show ?thesis by (simp add: put_inv put_cap)
next
  case (CacheGet k)
  with get_view [OF assms(1), of k] assms(2) show ?thesis by simp
next
  case (CacheRemove k)
  with remove_view [OF assms(1), of k] assms(2) show ?thesis by (auto simp: map_le_def)
qed

text \<open>
  After any sequence of calls a lookup either misses or returns the value of the last insertion
  under its key, and the cache is within its capacity.
\<close>

lemma history:
  assumes "inv c" "view c = Map.empty"
  shows "let c' = fold (cache_apply put get remove) ops c in
    inv c' \<and> view c' \<subseteq>\<^sub>m fold op_map ops Map.empty \<and> cap c' = cap c"
proof -
  have "inv c \<Longrightarrow> view c \<subseteq>\<^sub>m m \<Longrightarrow> inv (fold (cache_apply put get remove) ops c) \<and>
      view (fold (cache_apply put get remove) ops c) \<subseteq>\<^sub>m fold op_map ops m \<and>
      cap (fold (cache_apply put get remove) ops c) = cap c" for c m
  proof (induction ops arbitrary: c m)
    case (Cons op ops)
    note step = apply_step [OF Cons.prems, of op]
    with Cons.IH [of "cache_apply put get remove op c" "op_map op m"] show ?case by simp
  qed simp
  with assms show ?thesis by (simp add: Let_def)
qed

lemma history_lookup:
  assumes "inv c" "view c = Map.empty" "c' = fold (cache_apply put get remove) ops c"
  shows "fst (get c' k) = None \<or> fst (get c' k) = fold op_map ops Map.empty k"
    and "peek c' k = fst (get c' k)" and "cap c \<noteq> 0 \<Longrightarrow> len c' \<le> cap c"
proof -
  note h = history [OF assms(1,2), of ops, unfolded Let_def assms(3) [symmetric]]
  then have inv: "inv c'" by simp
  show "fst (get c' k) = None \<or> fst (get c' k) = fold op_map ops Map.empty k"
    using h by (cases "view c' k") (auto simp: get_value [OF inv] map_le_def dom_def)
  show "peek c' k = fst (get c' k)" by (simp add: peek_value [OF inv] get_value [OF inv])
  show "cap c \<noteq> 0 \<Longrightarrow> len c' \<le> cap c" using len_cap [OF inv] h by simp
qed

end

subsection \<open>LRU: invariant and recency order\<close>

definition lru_wf :: "'v LRU \<Rightarrow> bool" where
  "lru_wf c \<longleftrightarrow> distinct (lru_ll c) \<and>
     (\<forall>e \<in> set (lru_ll c). e < lru_next c) \<and>
     (\<forall>k e. fmlookup (lru_cache c) k = Some e \<longleftrightarrow> e \<in> set (lru_ll c) \<and> Item_Key (lru_heap c e) = k)"

definition lru_inv :: "'v LRU \<Rightarrow> bool" where
  "lru_inv c \<longleftrightarrow> lru_wf c \<and> 0 \<le> lru_maxCount c \<and>
     (lru_maxCount c \<noteq> 0 \<longrightarrow> int (length (lru_ll c)) \<le> lru_maxCount c)"

text \<open>The entries, most recently used first.\<close>

definition lru_abs :: "'v LRU \<Rightarrow> (u64 \<times> 'v) list" where
  "lru_abs c = map (\<lambda>e. (Item_Key (lru_heap c e), Item_Value (lru_heap c e))) (lru_ll c)"

text \<open>The textbook policy on the recency list.\<close>

definition recency_put :: "int \<Rightarrow> u64 \<Rightarrow> 'v \<Rightarrow> (u64 \<times> 'v) list \<Rightarrow> (u64 \<times> 'v) list" where
  "recency_put n k v xs =
     (let ys = (k, v) # filter (\<lambda>p. fst p \<noteq> k) xs
      in if n \<noteq> 0 \<and> int (length ys) > n then butlast ys else ys)"

definition recency_get :: "u64 \<Rightarrow> (u64 \<times> 'v) list \<Rightarrow> (u64 \<times> 'v) list" where
  "recency_get k xs =
     (case map_of xs k of None \<Rightarrow> xs | Some v \<Rightarrow> (k, v) # filter (\<lambda>p. fst p \<noteq> k) xs)"

lemma lru_wfD:
  assumes "lru_wf c"
  shows "distinct (lru_ll c)" "e \<in> set (lru_ll c) \<Longrightarrow> e < lru_next c"
    "fmlookup (lru_cache c) k = Some e \<longleftrightarrow> e \<in> set (lru_ll c) \<and> Item_Key (lru_heap c e) = k"
    "e \<in> set (lru_ll c) \<Longrightarrow> f \<in> set (lru_ll c) \<Longrightarrow> Item_Key (lru_heap c e) = Item_Key (lru_heap c f) \<Longrightarrow> e = f"
    "fmlookup (lru_cache c) k = None \<longleftrightarrow> (\<forall>e \<in> set (lru_ll c). Item_Key (lru_heap c e) \<noteq> k)"
proof -
  show "distinct (lru_ll c)" "e \<in> set (lru_ll c) \<Longrightarrow> e < lru_next c"
    and look: "\<And>k e. fmlookup (lru_cache c) k = Some e \<longleftrightarrow> e \<in> set (lru_ll c) \<and> Item_Key (lru_heap c e) = k"
    using assms by (auto simp: lru_wf_def)
  show "e \<in> set (lru_ll c) \<Longrightarrow> f \<in> set (lru_ll c) \<Longrightarrow> Item_Key (lru_heap c e) = Item_Key (lru_heap c f) \<Longrightarrow> e = f"
    using look by (metis option.inject)
  show "fmlookup (lru_cache c) k = None \<longleftrightarrow> (\<forall>e \<in> set (lru_ll c). Item_Key (lru_heap c e) \<noteq> k)"
    using look by (metis not_None_eq)
qed

lemma lru_abs_keys: "lru_wf c \<Longrightarrow> distinct (map fst (lru_abs c))"
  by (auto simp: lru_abs_def comp_def distinct_map inj_on_def lru_wfD)

lemma lru_abs_filter:
  assumes "lru_wf c" "fmlookup (lru_cache c) k = Some e"
  shows "filter (\<lambda>p. fst p \<noteq> k) (lru_abs c) =
    map (\<lambda>e. (Item_Key (lru_heap c e), Item_Value (lru_heap c e))) (filter (\<lambda>x. x \<noteq> e) (lru_ll c))"
  using assms lru_wfD(3,4) [OF assms(1)] unfolding lru_abs_def filter_map comp_def
  by (intro arg_cong [where f = "map _"] filter_cong) auto

lemma lru_abs_map_of:
  assumes "lru_wf c"
  shows "map_of (lru_abs c) k = LRU_Peek c k"
proof (cases "fmlookup (lru_cache c) k")
  case None
  then show ?thesis
    using lru_wfD(5) [OF assms, of k] by (auto simp: LRU_Peek_def lru_abs_def map_of_eq_None_iff)
next
  case (Some e)
  then have "(k, Item_Value (lru_heap c e)) \<in> set (lru_abs c)"
    using lru_wfD(3) [OF assms] by (force simp: lru_abs_def)
  with lru_abs_keys [OF assms] Some show ?thesis by (simp add: LRU_Peek_def)
qed

lemma newLRU_wf: "lru_wf (newLRU n)" "lru_abs (newLRU n) = []"
  by (simp_all add: lru_wf_def newLRU_def lru_abs_def)

lemma removeElement_wf:
  assumes "lru_wf c" "e \<in> set (lru_ll c)"
  shows "lru_wf (LRU_removeElement c e)"
    and "lru_abs (LRU_removeElement c e) = filter (\<lambda>p. fst p \<noteq> Item_Key (lru_heap c e)) (lru_abs c)"
    and "lru_maxCount (LRU_removeElement c e) = lru_maxCount c"
proof -
  have e: "fmlookup (lru_cache c) (Item_Key (lru_heap c e)) = Some e"
    using lru_wfD(3) [OF assms(1)] assms(2) by blast
  show "lru_wf (LRU_removeElement c e)"
    using assms lru_wfD(4) [OF assms(1) _ assms(2)]
    by (auto simp: lru_wf_def LRU_removeElement_def)
  show "lru_abs (LRU_removeElement c e) = filter (\<lambda>p. fst p \<noteq> Item_Key (lru_heap c e)) (lru_abs c)"
    unfolding lru_abs_filter [OF assms(1) e] by (simp add: lru_abs_def LRU_removeElement_def)
qed (simp add: LRU_removeElement_def)

lemma distinct_butlast_filter: "distinct xs \<Longrightarrow> xs \<noteq> [] \<Longrightarrow> filter (\<lambda>x. x \<noteq> last xs) xs = butlast xs"
  by (cases xs rule: rev_cases) (auto simp: filter_id_conv)

lemma removeOldest_wf:
  assumes "lru_wf c"
  shows "lru_wf (LRU_removeOldest c)" "lru_abs (LRU_removeOldest c) = butlast (lru_abs c)"
    and "lru_maxCount (LRU_removeOldest c) = lru_maxCount c"
proof -
  show "lru_wf (LRU_removeOldest c)" "lru_maxCount (LRU_removeOldest c) = lru_maxCount c"
    using assms removeElement_wf [OF assms] by (simp_all add: LRU_removeOldest_def)
  show "lru_abs (LRU_removeOldest c) = butlast (lru_abs c)"
    using distinct_butlast_filter [OF lru_wfD(1) [OF assms]]
    by (auto simp: LRU_removeOldest_def LRU_removeElement_def lru_abs_def map_butlast)
qed

lemma Put_present:
  assumes "lru_wf c" "fmlookup (lru_cache c) k = Some e"
  shows "lru_wf (LRU_Put c k v)" "lru_abs (LRU_Put c k v) = (k, v) # filter (\<lambda>p. fst p \<noteq> k) (lru_abs c)"
proof -
  have e: "e \<in> set (lru_ll c)" "Item_Key (lru_heap c e) = k" using assms lru_wfD(3) by blast+
  have put: "LRU_Put c k v = c\<lparr>lru_ll := e # filter (\<lambda>x. x \<noteq> e) (lru_ll c),
      lru_heap := (lru_heap c)(e := (lru_heap c e)\<lparr>Item_Value := v\<rparr>)\<rparr>"
    using assms(2) e(1) by (simp add: LRU_Put_def ll_MoveToFront_def)
  show "lru_wf (LRU_Put c k v)"
    using assms(1) e unfolding put by (auto simp: lru_wf_def)
  show "lru_abs (LRU_Put c k v) = (k, v) # filter (\<lambda>p. fst p \<noteq> k) (lru_abs c)"
    unfolding lru_abs_filter [OF assms] put using e by (simp add: lru_abs_def)
qed

lemma Put_absent:
  fixes c :: "'v LRU" and v :: 'v
  assumes "lru_wf c" "fmlookup (lru_cache c) k = None"
  defines "c' \<equiv> c\<lparr>lru_heap := (lru_heap c)(lru_next c := \<lparr>Item_Key = k, Item_Value = v\<rparr>),
    lru_next := Suc (lru_next c), lru_ll := lru_next c # lru_ll c,
    lru_cache := fmupd k (lru_next c) (lru_cache c)\<rparr>"
  shows "lru_wf c'" "lru_abs c' = (k, v) # lru_abs c"
    and "LRU_Put c k v = (if lru_maxCount c \<noteq> 0 \<and> int (length (lru_abs c')) > lru_maxCount c
      then LRU_removeOldest c' else c')"
proof -
  note D = lru_wfD [OF assms(1)]
  have n: "e \<noteq> lru_next c" if "e \<in> set (lru_ll c)" for e using D(2) [OF that] by simp
  show "lru_wf c'"
    using assms(1,2) D(5) [of k] n unfolding c'_def lru_wf_def
    by (auto simp: less_Suc_eq)
  show "lru_abs c' = (k, v) # lru_abs c"
    using n by (auto simp: c'_def lru_abs_def)
  show "LRU_Put c k v = (if lru_maxCount c \<noteq> 0 \<and> int (length (lru_abs c')) > lru_maxCount c
      then LRU_removeOldest c' else c')"
    using assms(2) by (simp add: LRU_Put_def Let_def c'_def lru_abs_def)
qed

lemma lru_abs_length: "length (lru_abs c) = length (lru_ll c)"
  by (simp add: lru_abs_def)

lemma recency_put_length:
  "0 < n \<Longrightarrow> int (length xs) \<le> n \<Longrightarrow> int (length (recency_put n k v xs)) \<le> n"
  by (auto simp: recency_put_def Let_def
      intro: order_trans [OF iffD2 [OF of_nat_le_iff length_filter_le]])

lemma LRU_Put_refines:
  assumes "lru_inv c"
  shows "lru_inv (LRU_Put c k v)" "lru_abs (LRU_Put c k v) = recency_put (lru_maxCount c) k v (lru_abs c)"
    and "lru_maxCount (LRU_Put c k v) = lru_maxCount c"
proof -
  have wf: "lru_wf c" and n: "0 \<le> lru_maxCount c"
    and le: "lru_maxCount c \<noteq> 0 \<Longrightarrow> int (length (lru_abs c)) \<le> lru_maxCount c"
    using assms by (auto simp: lru_inv_def lru_abs_def)
  show max: "lru_maxCount (LRU_Put c k v) = lru_maxCount c"
    by (auto simp: LRU_Put_def Let_def LRU_removeOldest_def LRU_removeElement_def split: option.splits)
  have "lru_wf (LRU_Put c k v) \<and> lru_abs (LRU_Put c k v) = recency_put (lru_maxCount c) k v (lru_abs c)"
  proof (cases "fmlookup (lru_cache c) k")
    case None
    have nk: "filter (\<lambda>p. fst p \<noteq> k) (lru_abs c) = lru_abs c"
      using lru_wfD(5) [OF wf] None by (auto simp: filter_id_conv lru_abs_def)
    show ?thesis
      using Put_absent [OF wf None, of v] removeOldest_wf [OF Put_absent(1) [OF wf None, of v]]
      by (simp add: recency_put_def nk)
  next
    case (Some e)
    have "length (filter (\<lambda>p. fst p \<noteq> k) (lru_abs c)) < length (lru_abs c)"
      using lru_wfD(3) [OF wf, of k e] Some by (intro length_filter_less [of "(k, Item_Value (lru_heap c e))"])
        (force simp: lru_abs_def)+
    then show ?thesis
      using Put_present [OF wf Some, of v] le by (auto simp: recency_put_def Let_def)
  qed
  then show abs: "lru_abs (LRU_Put c k v) = recency_put (lru_maxCount c) k v (lru_abs c)"
    and "lru_inv (LRU_Put c k v)"
    using n le max recency_put_length [of "lru_maxCount c" "lru_abs c" k v]
    by (auto simp: lru_inv_def lru_abs_length [symmetric])
qed

lemma MoveToFront_simps:
  "set (ll_MoveToFront e l) = set l"
  "distinct l \<Longrightarrow> distinct (ll_MoveToFront e l)"
  "distinct l \<Longrightarrow> length (ll_MoveToFront e l) = length l"
proof -
  have "filter (\<lambda>x. x \<noteq> e) l = removeAll e l" by (simp add: removeAll_filter_not_eq eq_commute)
  then show "distinct l \<Longrightarrow> length (ll_MoveToFront e l) = length l"
    using length_remove1 [of e l] length_pos_if_in_set [of e l]
    by (auto simp: ll_MoveToFront_def distinct_remove1_removeAll)
qed (auto simp: ll_MoveToFront_def)

lemma LRU_Get_refines:
  assumes "lru_inv c"
  shows "fst (LRU_Get c k) = LRU_Peek c k" "lru_inv (snd (LRU_Get c k))"
    "lru_abs (snd (LRU_Get c k)) = recency_get k (lru_abs c)"
    "lru_maxCount (snd (LRU_Get c k)) = lru_maxCount c"
proof -
  have wf: "lru_wf c" using assms by (simp add: lru_inv_def)
  show "fst (LRU_Get c k) = LRU_Peek c k" "lru_maxCount (snd (LRU_Get c k)) = lru_maxCount c"
    by (auto simp: LRU_Get_def LRU_Peek_def split: option.splits)
  show "lru_inv (snd (LRU_Get c k))"
    using assms by (auto simp: LRU_Get_def lru_inv_def lru_wf_def MoveToFront_simps split: option.splits)
  show "lru_abs (snd (LRU_Get c k)) = recency_get k (lru_abs c)"
  proof (cases "fmlookup (lru_cache c) k")
    case None
    then show ?thesis by (simp add: LRU_Get_def recency_get_def lru_abs_map_of [OF wf] LRU_Peek_def)
  next
    case (Some e)
    then have e: "e \<in> set (lru_ll c)" "Item_Key (lru_heap c e) = k" using lru_wfD(3) [OF wf] by blast+
    from Some show ?thesis
      unfolding recency_get_def lru_abs_filter [OF wf Some] lru_abs_map_of [OF wf] using e
      by (simp add: LRU_Get_def LRU_Peek_def ll_MoveToFront_def lru_abs_def)
  qed
qed

lemma LRU_remove_refines:
  assumes "lru_inv c"
  shows "lru_inv (LRU_Remove c k)" "lru_abs (LRU_Remove c k) = filter (\<lambda>p. fst p \<noteq> k) (lru_abs c)"
    "lru_maxCount (LRU_Remove c k) = lru_maxCount c"
    "fst (LRU_remove c k) = (LRU_Peek c k \<noteq> None)"
proof -
  have wf: "lru_wf c" and n: "0 \<le> lru_maxCount c"
    and le: "lru_maxCount c \<noteq> 0 \<Longrightarrow> int (length (lru_abs c)) \<le> lru_maxCount c"
    using assms by (auto simp: lru_inv_def lru_abs_length)
  have "lru_wf (LRU_Remove c k) \<and> lru_abs (LRU_Remove c k) = filter (\<lambda>p. fst p \<noteq> k) (lru_abs c) \<and>
    lru_maxCount (LRU_Remove c k) = lru_maxCount c"
  proof (cases "fmlookup (lru_cache c) k")
    case None
    with lru_wfD(5) [OF wf, of k] wf show ?thesis
      by (auto simp: LRU_Remove_def LRU_remove_def lru_abs_def filter_id_conv intro: sym)
  next
    case (Some e)
    then have e: "e \<in> set (lru_ll c)" "Item_Key (lru_heap c e) = k" using lru_wfD(3) [OF wf] by blast+
    with Some removeElement_wf [OF wf e(1)] show ?thesis by (simp add: LRU_Remove_def LRU_remove_def)
  qed
  then show "lru_abs (LRU_Remove c k) = filter (\<lambda>p. fst p \<noteq> k) (lru_abs c)"
    and "lru_inv (LRU_Remove c k)" "lru_maxCount (LRU_Remove c k) = lru_maxCount c"
    using n le by (auto simp: lru_inv_def lru_abs_length [symmetric]
        intro: order_trans [OF iffD2 [OF of_nat_le_iff length_filter_le]])
  show "fst (LRU_remove c k) = (LRU_Peek c k \<noteq> None)"
    by (auto simp: LRU_remove_def LRU_Peek_def split: option.splits)
qed

subsection \<open>LRU is a cache\<close>

lemma map_of_filter_fst: "map_of (filter (\<lambda>p. fst p \<noteq> k) xs) = (map_of xs)(k := None)"
  by (induction xs) (auto simp: fun_eq_iff)

lemma map_of_butlast_le: "distinct (map fst xs) \<Longrightarrow> map_of (butlast xs) \<subseteq>\<^sub>m map_of xs"
  unfolding map_le_def using in_set_butlastD [OF map_of_SomeD] by (force simp: dom_def)

lemma length_filter_key:
  "distinct (map fst xs) \<Longrightarrow>
     length (filter (\<lambda>p. fst p \<noteq> k) xs) = (if k \<in> fst ` set xs then length xs - 1 else length xs)"
proof (induction xs)
  case (Cons p xs)
  show ?case
  proof (cases "fst p = k")
    case True
    with Cons.prems have "k \<notin> fst ` set xs" by simp
    then have "filter (\<lambda>p. fst p \<noteq> k) xs = xs" by (intro filter_True) blast
    with True show ?thesis by simp
  next
    case False
    with Cons show ?thesis by (cases xs) auto
  qed
qed simp

lemma recency_put_view:
  assumes "distinct (map fst xs)" "0 \<le> n"
  shows "map_of (recency_put n k v xs) k = Some v"
    and "map_of (recency_put n k v xs) \<subseteq>\<^sub>m (map_of xs)(k \<mapsto> v)"
proof -
  let ?ys = "(k, v) # filter (\<lambda>p. fst p \<noteq> k) xs"
  have ys: "map_of ?ys = (map_of xs)(k \<mapsto> v)" by (simp add: map_of_filter_fst)
  have d: "distinct (map fst ?ys)" using assms(1) by (auto simp: distinct_map inj_on_def)
  show "map_of (recency_put n k v xs) k = Some v"
    using assms(2) by (auto simp: recency_put_def Let_def)
  show "map_of (recency_put n k v xs) \<subseteq>\<^sub>m (map_of xs)(k \<mapsto> v)"
    unfolding recency_put_def Let_def ys [symmetric] using map_of_butlast_le [OF d] by simp
qed

lemma lru_Put_view:
  assumes "lru_inv c"
  shows "LRU_Peek (LRU_Put c k v) k = Some v" "LRU_Peek (LRU_Put c k v) \<subseteq>\<^sub>m (LRU_Peek c)(k \<mapsto> v)"
proof -
  have wf: "lru_wf c" "lru_wf (LRU_Put c k v)"
    using assms LRU_Put_refines(1) [OF assms] by (auto simp: lru_inv_def)
  have eq: "LRU_Peek c = map_of (lru_abs c)"
    "LRU_Peek (LRU_Put c k v) = map_of (recency_put (lru_maxCount c) k v (lru_abs c))"
    using lru_abs_map_of [OF wf(1)] lru_abs_map_of [OF wf(2)] LRU_Put_refines(2) [OF assms] by (auto simp: fun_eq_iff)
  show "LRU_Peek (LRU_Put c k v) k = Some v" "LRU_Peek (LRU_Put c k v) \<subseteq>\<^sub>m (LRU_Peek c)(k \<mapsto> v)"
    unfolding eq using recency_put_view [OF lru_abs_keys [OF wf(1)]] assms by (auto simp: lru_inv_def)
qed

lemma lru_Get_view:
  assumes "lru_inv c"
  shows "LRU_Peek (snd (LRU_Get c k)) = LRU_Peek c"
  by (auto simp: fun_eq_iff LRU_Get_def LRU_Peek_def split: option.splits)

lemma lru_Remove_view:
  assumes "lru_inv c"
  shows "LRU_Peek (LRU_Remove c k) = (LRU_Peek c)(k := None)"
proof -
  have wf: "lru_wf c" "lru_wf (LRU_Remove c k)"
    using assms LRU_remove_refines(1) [OF assms] by (auto simp: lru_inv_def)
  show ?thesis
    by (auto simp: fun_eq_iff lru_abs_map_of [OF wf(1), symmetric] lru_abs_map_of [OF wf(2), symmetric]
        LRU_remove_refines(2) [OF assms] map_of_filter_fst)
qed

lemma lru_Elems_view:
  assumes "lru_wf c"
  shows "distinct (map Item_Key (LRU_Elems c))"
    and "i \<in> set (LRU_Elems c) \<longleftrightarrow> LRU_Peek c (Item_Key i) = Some (Item_Value i)"
proof -
  show "distinct (map Item_Key (LRU_Elems c))"
    using assms by (auto simp: LRU_Elems_def distinct_map inj_on_def lru_wfD)
  have ext: "i = j \<longleftrightarrow> Item_Key j = Item_Key i \<and> Item_Value j = Item_Value i" for i j :: "'a Item"
    by (cases i, cases j) auto
  have "LRU_Peek c k = Some v \<longleftrightarrow> (\<exists>e. fmlookup (lru_cache c) k = Some e \<and> Item_Value (lru_heap c e) = v)"
    for k v by (auto simp: LRU_Peek_def split: option.splits)
  then have peek: "LRU_Peek c k = Some v \<longleftrightarrow>
      (\<exists>e. e \<in> set (lru_ll c) \<and> Item_Key (lru_heap c e) = k \<and> Item_Value (lru_heap c e) = v)" for k v
    unfolding lru_wfD(3) [OF assms] by simp
  show "i \<in> set (LRU_Elems c) \<longleftrightarrow> LRU_Peek c (Item_Key i) = Some (Item_Value i)"
    unfolding peek by (auto simp: LRU_Elems_def ext [of i])
qed

lemma lru_inv_wf: "lru_inv c \<Longrightarrow> lru_wf c"
  by (simp add: lru_inv_def)

lemma length_Elems: "length (LRU_Elems c) = length (lru_ll c)"
  by (simp add: LRU_Elems_def)

interpretation lru: cache_contract LRU_Put LRU_Get LRU_Peek LRU_Remove LRU_Elems LRU_Len
  lru_inv LRU_Peek "\<lambda>c. nat (lru_maxCount c)"
proof (unfold_locales, goal_cases)
  case (3 c j k v w)
  then show ?case using lru_Put_view(2) [of c k v] by (metis domI fun_upd_other map_le_def)
next
  case (11 c)
  then show ?case by (auto simp: lru_inv_def LRU_Len_def)
qed (auto simp: LRU_Put_refines LRU_Get_refines lru_Put_view lru_Get_view LRU_remove_refines
    lru_Remove_view lru_Elems_view lru_inv_wf LRU_Len_def length_Elems)

lemma lru_Put_room:
  assumes "lru_inv c" "LRU_Peek c k \<noteq> None \<or> lru_maxCount c = 0 \<or> int (LRU_Len c) < lru_maxCount c"
  shows "LRU_Peek (LRU_Put c k v) = (LRU_Peek c)(k \<mapsto> v)"
    and "LRU_Len (LRU_Put c k v) = (if LRU_Peek c k = None then Suc (LRU_Len c) else LRU_Len c)"
proof -
  have wf: "lru_wf c" "lru_wf (LRU_Put c k v)"
    using assms(1) LRU_Put_refines(1) [OF assms(1)] by (auto simp: lru_inv_def)
  have pk: "LRU_Peek c k = None \<longleftrightarrow> k \<notin> fst ` set (lru_abs c)"
    unfolding lru_abs_map_of [OF wf(1), symmetric] by (simp add: map_of_eq_None_iff)
  have le: "lru_maxCount c \<noteq> 0 \<Longrightarrow> int (length (lru_abs c)) \<le> lru_maxCount c"
    using assms(1) by (simp add: lru_inv_def lru_abs_length)
  note len = length_filter_key [OF lru_abs_keys [OF wf(1)], of k]
  have "lru_abs c \<noteq> []" if "LRU_Peek c k \<noteq> None" using that pk by auto
  then have abs: "lru_abs (LRU_Put c k v) = (k, v) # filter (\<lambda>p. fst p \<noteq> k) (lru_abs c)"
    using assms(2) le pk len unfolding LRU_Put_refines(2) [OF assms(1)]
    by (auto simp: recency_put_def Let_def LRU_Len_def lru_abs_length [symmetric])
  show "LRU_Peek (LRU_Put c k v) = (LRU_Peek c)(k \<mapsto> v)"
    by (auto simp: fun_eq_iff lru_abs_map_of [OF wf(1), symmetric] lru_abs_map_of [OF wf(2), symmetric]
        abs map_of_filter_fst)
  show "LRU_Len (LRU_Put c k v) = (if LRU_Peek c k = None then Suc (LRU_Len c) else LRU_Len c)"
    using len pk \<open>LRU_Peek c k \<noteq> None \<Longrightarrow> lru_abs c \<noteq> []\<close>
    by (auto simp: LRU_Len_def lru_abs_length [symmetric] abs Suc_pred')
qed

lemma lru_Remove_len:
  assumes "lru_inv c"
  shows "LRU_Len (LRU_Remove c k) = (if LRU_Peek c k = None then LRU_Len c else LRU_Len c - 1)"
proof -
  have wf: "lru_wf c" using assms by (rule lru_inv_wf)
  have "LRU_Peek c k = None \<longleftrightarrow> k \<notin> fst ` set (lru_abs c)"
    unfolding lru_abs_map_of [OF wf, symmetric] by (simp add: map_of_eq_None_iff)
  with length_filter_key [OF lru_abs_keys [OF wf], of k] LRU_remove_refines(2) [OF assms, of k]
  show ?thesis by (simp add: LRU_Len_def lru_abs_length [symmetric])
qed

lemma lru_removeOldest_view:
  assumes "lru_inv c"
  shows "lru_inv (LRU_removeOldest c)" "LRU_Peek (LRU_removeOldest c) \<subseteq>\<^sub>m LRU_Peek c"
    and "LRU_Len (LRU_removeOldest c) = LRU_Len c - 1"
    and "lru_maxCount (LRU_removeOldest c) = lru_maxCount c"
proof -
  have wf: "lru_wf c" using assms by (rule lru_inv_wf)
  note r = removeOldest_wf [OF wf]
  show len: "LRU_Len (LRU_removeOldest c) = LRU_Len c - 1"
    using arg_cong [OF r(2), of length] by (simp add: LRU_Len_def lru_abs_length)
  then show "lru_inv (LRU_removeOldest c)"
    using assms r(1,3) by (auto simp: lru_inv_def LRU_Len_def)
  have eq: "LRU_Peek c = map_of (lru_abs c)" "LRU_Peek (LRU_removeOldest c) = map_of (butlast (lru_abs c))"
    using lru_abs_map_of [OF wf] lru_abs_map_of [OF r(1)] r(2) by (auto simp: fun_eq_iff)
  show "LRU_Peek (LRU_removeOldest c) \<subseteq>\<^sub>m LRU_Peek c"
    unfolding eq by (rule map_of_butlast_le [OF lru_abs_keys [OF wf]])
qed (simp add: LRU_removeOldest_def LRU_removeElement_def)

lemma getAndRemoveOldest_snd: "snd (LRU_getAndRemoveOldest c) = LRU_removeOldest c"
  by (simp add: LRU_getAndRemoveOldest_def LRU_removeOldest_def Let_def)

lemma newLRU_inv: "0 \<le> n \<Longrightarrow> lru_inv (newLRU n)" "LRU_Peek (newLRU n) = Map.empty" "LRU_Len (newLRU n) = 0"
  "lru_maxCount (newLRU n) = n"
  by (auto simp: lru_inv_def newLRU_wf fun_eq_iff LRU_Peek_def newLRU_def LRU_Len_def
      newLRU_wf(1) [unfolded newLRU_def])

subsection \<open>FIFO and TTL\<close>

lemma FIFO_Put_ll:
  assumes "0 < fifo_maxCount c" "fifo_ll c = take (nat (fifo_maxCount c)) xs"
  shows "fifo_ll (FIFO_Put c k v) = take (nat (fifo_maxCount c)) (\<lparr>Item_Key = k, Item_Value = v\<rparr> # xs)"
proof -
  let ?n = "nat (fifo_maxCount c)" and ?i = "\<lparr>Item_Key = k, Item_Value = v\<rparr>"
  obtain m where m: "?n = Suc m" using assms(1) by (metis gr0_conv_Suc zero_less_nat_eq)
  have "butlast (?i # take ?n xs) = take ?n (?i # xs)" if "?n \<le> length xs"
    using that m by (simp add: butlast_take take_Suc_conv_app_nth)
  moreover have "?i # take ?n xs = take ?n (?i # xs)" if "length xs < ?n"
    using that m by simp
  moreover have "fifo_maxCount c < 1 + int (min (length xs) ?n) \<longleftrightarrow> ?n \<le> length xs"
    using assms(1) by auto
  ultimately show ?thesis
    using assms by (auto simp: FIFO_Put_def Let_def not_le)
qed

definition fifo_puts :: "(u64 \<times> 'v) list \<Rightarrow> 'v FIFO \<Rightarrow> 'v FIFO" where
  "fifo_puts kvs c = fold (\<lambda>p c. FIFO_Put c (fst p) (snd p)) kvs c"

lemma fifo_puts_ll:
  assumes "0 < n"
  shows "fifo_maxCount (fifo_puts kvs (NewFIFO n)) = n \<and>
    fifo_ll (fifo_puts kvs (NewFIFO n)) =
      take (nat n) (rev (map (\<lambda>p. \<lparr>Item_Key = fst p, Item_Value = snd p\<rparr>) kvs))"
proof (induction kvs rule: rev_induct)
  case Nil
  then show ?case by (simp add: fifo_puts_def NewFIFO_def)
next
  case (snoc kv kvs)
  let ?c = "fifo_puts kvs (NewFIFO n)"
  have "fifo_puts (kvs @ [kv]) (NewFIFO n) = FIFO_Put ?c (fst kv) (snd kv)"
    by (simp add: fifo_puts_def)
  moreover have "fifo_maxCount (FIFO_Put ?c (fst kv) (snd kv)) = fifo_maxCount ?c"
    by (simp add: FIFO_Put_def Let_def)
  ultimately show ?case
    using FIFO_Put_ll [of ?c "rev (map (\<lambda>p. \<lparr>Item_Key = fst p, Item_Value = snd p\<rparr>) kvs)" "fst kv" "snd kv"]
      snoc assms by simp
qed

subsection \<open>Properties of the FIFO and TTL caches\<close>

text \<open>
  A FIFO cache of positive capacity holds exactly the most recent insertions, up to its
  capacity, and \<open>Elems\<close> lists them oldest first.
\<close>
theorem FIFO_keeps_latest:
  assumes "0 < n"
  shows "FIFO_Elems (fifo_puts kvs (NewFIFO n)) =
    drop (length kvs - nat n) (map (\<lambda>p. \<lparr>Item_Key = fst p, Item_Value = snd p\<rparr>) kvs)"
  using fifo_puts_ll [OF assms, of kvs] by (simp add: FIFO_Elems_def rev_take)

theorem FIFO_keeps_latest_witness:
  "FIFO_Elems (fifo_puts [(1, ''a''), (2, ''b''), (3, ''c'')] (NewFIFO 2)) =
     [\<lparr>Item_Key = 2, Item_Value = ''b''\<rparr>, \<lparr>Item_Key = 3, Item_Value = ''c''\<rparr>]"
  using FIFO_keeps_latest [of 2 "[(1, ''a''), (2, ''b''), (3, ''c'')]"] by simp

text \<open>
  The TTL cache: an item is returned up to and including its expiry instant and not
  after it, and a round of the collector is invisible: every lookup made at or after the
  instant of the round answers as it would have without it.
\<close>
theorem TTL_expiry:
  "TTL_Get now (TTL_PutWithTTL t c k v ttl) k = (if now \<le> t + ttl then Some v else None) \<and>
   (gc \<le> now \<longrightarrow> TTL_Get now (TTL_doGC gc c) j = TTL_Get now c j)"
  by (auto simp: TTL_Get_def TTL_PutWithTTL_def TTL_doGC_def split: option.splits)

theorem TTL_expiry_witness:
  "TTL_Get 9 (TTL_doGC 8 (TTL_PutWithTTL 0 (NewTTL 1 1) 5 ''x'' 10)) 5 = Some ''x''"
  using TTL_expiry [of 9 0 "NewTTL 1 1" 5 "''x''" 10 8 5]
    TTL_expiry [of 9 0 "NewTTL 1 1" 5 "''x''" 10]
    TTL_expiry [of 9 0 "TTL_PutWithTTL 0 (NewTTL 1 1) 5 ''x'' 10" 5 "''x''" 10 8 5] by simp

end
