(* ===== verification/TwoQueue.thy ===== *)
theory TwoQueue
  imports Cache
begin

text \<open>
  \<open>pkg/cache/two_queue.go\<close>: the two-queue cache, built from three LRU lists: \<open>recent\<close> for entries
  seen once, \<open>frequent\<close> for entries seen again, and \<open>ghost\<close> for the keys recently evicted from
  \<open>recent\<close>. It is a second interpretation of the interface \<open>Cache\<close>.
\<close>

subsection \<open>The code\<close>

record 'v TwoQueue =
  tq_size :: int
  tq_recentSize :: int
  tq_recent :: "'v LRU"
  tq_frequent :: "'v LRU"
  tq_ghost :: "unit LRU"

text \<open>
  \<open>newTwoQueueParams\<close> with the default ratios 0.25 and 0.5: the products are exact in \<open>float64\<close> for
  sizes below \<open>2 ^ 53\<close>, and the conversion to \<open>int\<close> truncates. The ghost list stores only keys;
  its values are nil.
\<close>

definition newTwoQueue :: "int \<Rightarrow> 'v TwoQueue" where
  "newTwoQueue size' =
     \<lparr>tq_size = size', tq_recentSize = size' sdiv 4, tq_recent = newLRU size',
      tq_frequent = newLRU size', tq_ghost = newLRU (size' sdiv 2)\<rparr>"

definition TwoQueue_ensureSpace :: "'v TwoQueue \<Rightarrow> bool \<Rightarrow> 'v TwoQueue" where
  "TwoQueue_ensureSpace c ghost =
     (let recentLen = int (LRU_Len (tq_recent c));
          frequentLen = int (LRU_Len (tq_frequent c))
      in if recentLen + frequentLen < tq_size c then c
         else if recentLen > 0 \<and>
                 (recentLen > tq_recentSize c \<or> (recentLen = tq_recentSize c \<and> \<not> ghost))
         then (case LRU_getAndRemoveOldest (tq_recent c) of
                 (kv, recent) \<Rightarrow>
                   c\<lparr>tq_recent := recent,
                     tq_ghost := LRU_Put (tq_ghost c) (case kv of None \<Rightarrow> 0 | Some (k, _) \<Rightarrow> k) ()\<rparr>)
         else c\<lparr>tq_frequent := LRU_removeOldest (tq_frequent c)\<rparr>)"

definition TwoQueue_Put :: "'v TwoQueue \<Rightarrow> u64 \<Rightarrow> 'v \<Rightarrow> 'v TwoQueue" where
  "TwoQueue_Put c key v =
     (if LRU_contains (tq_frequent c) key
      then c\<lparr>tq_frequent := LRU_Put (tq_frequent c) key v\<rparr>
      else if LRU_contains (tq_recent c) key
      then c\<lparr>tq_recent := LRU_Remove (tq_recent c) key,
             tq_frequent := LRU_Put (tq_frequent c) key v\<rparr>
      else if LRU_contains (tq_ghost c) key
      then let c = TwoQueue_ensureSpace c True;
               c = c\<lparr>tq_ghost := LRU_Remove (tq_ghost c) key\<rparr>
           in c\<lparr>tq_frequent := LRU_Put (tq_frequent c) key v\<rparr>
      else let c = TwoQueue_ensureSpace c False
           in c\<lparr>tq_recent := LRU_Put (tq_recent c) key v\<rparr>)"

definition TwoQueue_Get :: "'v TwoQueue \<Rightarrow> u64 \<Rightarrow> 'v option \<times> 'v TwoQueue" where
  "TwoQueue_Get c key =
     (case LRU_Get (tq_frequent c) key of
        (Some val, frequent) \<Rightarrow> (Some val, c\<lparr>tq_frequent := frequent\<rparr>)
      | (None, frequent) \<Rightarrow>
          (let c = c\<lparr>tq_frequent := frequent\<rparr> in
           case LRU_Peek (tq_recent c) key of
             Some val \<Rightarrow>
               (Some val, c\<lparr>tq_recent := LRU_Remove (tq_recent c) key,
                            tq_frequent := LRU_Put (tq_frequent c) key val\<rparr>)
           | None \<Rightarrow> (None, c)))"

definition TwoQueue_Peek :: "'v TwoQueue \<Rightarrow> u64 \<Rightarrow> 'v option" where
  "TwoQueue_Peek c key =
     (case LRU_Peek (tq_frequent c) key of
        Some val \<Rightarrow> Some val | None \<Rightarrow> LRU_Peek (tq_recent c) key)"

definition TwoQueue_Remove :: "'v TwoQueue \<Rightarrow> u64 \<Rightarrow> 'v TwoQueue" where
  "TwoQueue_Remove c key =
     (case LRU_remove (tq_frequent c) key of
        (True, frequent) \<Rightarrow> c\<lparr>tq_frequent := frequent\<rparr>
      | (False, frequent) \<Rightarrow>
          (case LRU_remove (tq_recent c) key of
             (True, recent) \<Rightarrow> c\<lparr>tq_frequent := frequent, tq_recent := recent\<rparr>
           | (False, recent) \<Rightarrow>
               c\<lparr>tq_frequent := frequent, tq_recent := recent,
                 tq_ghost := snd (LRU_remove (tq_ghost c) key)\<rparr>))"

definition TwoQueue_Elems :: "'v TwoQueue \<Rightarrow> 'v Item list" where
  "TwoQueue_Elems c = LRU_Elems (tq_recent c) @ LRU_Elems (tq_frequent c)"

definition TwoQueue_Len :: "'v TwoQueue \<Rightarrow> nat" where
  "TwoQueue_Len c = LRU_Len (tq_recent c) + LRU_Len (tq_frequent c)"

subsection \<open>The invariant\<close>

definition tq_inv :: "'v TwoQueue \<Rightarrow> bool" where
  "tq_inv c \<longleftrightarrow> 0 < tq_size c \<and> tq_recentSize c = tq_size c sdiv 4 \<and>
     lru_inv (tq_recent c) \<and> lru_inv (tq_frequent c) \<and> lru_inv (tq_ghost c) \<and>
     lru_maxCount (tq_recent c) = tq_size c \<and> lru_maxCount (tq_frequent c) = tq_size c \<and>
     (\<forall>k. LRU_Peek (tq_recent c) k = None \<or> LRU_Peek (tq_frequent c) k = None) \<and>
     int (TwoQueue_Len c) \<le> tq_size c"

lemma tq_disjoint: "tq_inv c \<Longrightarrow> LRU_Peek (tq_recent c) k = None \<or> LRU_Peek (tq_frequent c) k = None"
  by (simp add: tq_inv_def)

lemma quarter_less: "0 < n \<Longrightarrow> 0 \<le> n sdiv 4 \<and> n sdiv 4 < (n :: int)"
  by (simp add: signed_divide_int_def) presburger

lemma newTwoQueue_inv: "0 < n \<Longrightarrow> tq_inv (newTwoQueue n)" "TwoQueue_Peek (newTwoQueue n) = Map.empty"
  by (auto simp: tq_inv_def newTwoQueue_def newLRU_inv TwoQueue_Len_def TwoQueue_Peek_def fun_eq_iff
      signed_divide_int_def)

lemma contains_Peek: "LRU_contains c k \<longleftrightarrow> LRU_Peek c k \<noteq> None"
  by (auto simp: LRU_contains_def LRU_Peek_def split: option.splits)

lemma Peek_shrink:
  assumes "LRU_Peek r' \<subseteq>\<^sub>m LRU_Peek (tq_recent c)" "LRU_Peek f' \<subseteq>\<^sub>m LRU_Peek (tq_frequent c)"
    and "\<forall>k. LRU_Peek (tq_recent c) k = None \<or> LRU_Peek (tq_frequent c) k = None"
  shows "TwoQueue_Peek (c\<lparr>tq_recent := r', tq_frequent := f', tq_ghost := g\<rparr>) \<subseteq>\<^sub>m TwoQueue_Peek c"
    and "\<forall>k. LRU_Peek r' k = None \<or> LRU_Peek f' k = None"
proof -
  have r: "LRU_Peek r' k = None \<or> LRU_Peek r' k = LRU_Peek (tq_recent c) k" for k
    using assms(1) by (cases "LRU_Peek r' k") (auto simp: map_le_def dom_def)
  have f: "LRU_Peek f' k = None \<or> LRU_Peek f' k = LRU_Peek (tq_frequent c) k" for k
    using assms(2) by (cases "LRU_Peek f' k") (auto simp: map_le_def dom_def)
  show "\<forall>k. LRU_Peek r' k = None \<or> LRU_Peek f' k = None" using r f assms(3) by metis
  show "TwoQueue_Peek (c\<lparr>tq_recent := r', tq_frequent := f', tq_ghost := g\<rparr>) \<subseteq>\<^sub>m TwoQueue_Peek c"
    unfolding map_le_def
  proof
    fix k assume "k \<in> dom (TwoQueue_Peek (c\<lparr>tq_recent := r', tq_frequent := f', tq_ghost := g\<rparr>))"
    then show "TwoQueue_Peek (c\<lparr>tq_recent := r', tq_frequent := f', tq_ghost := g\<rparr>) k = TwoQueue_Peek c k"
      using r [of k] f [of k] spec [OF assms(3), of k] by (auto simp: TwoQueue_Peek_def dom_def split: option.splits)
  qed
qed

lemma ensureSpace_ok:
  assumes "tq_inv c"
  shows "tq_inv (TwoQueue_ensureSpace c g) \<and> TwoQueue_Peek (TwoQueue_ensureSpace c g) \<subseteq>\<^sub>m TwoQueue_Peek c \<and>
    int (TwoQueue_Len (TwoQueue_ensureSpace c g)) < tq_size c \<and> tq_size (TwoQueue_ensureSpace c g) = tq_size c"
proof -
  let ?r = "int (LRU_Len (tq_recent c))" and ?f = "int (LRU_Len (tq_frequent c))"
  let ?evict = "?r > 0 \<and> (?r > tq_recentSize c \<or> (?r = tq_recentSize c \<and> \<not> g))"
  note inv = assms [unfolded tq_inv_def TwoQueue_Len_def]
  note q = quarter_less [of "tq_size c"]
  consider "?r + ?f < tq_size c" | "?r + ?f \<ge> tq_size c" "?evict" | "?r + ?f \<ge> tq_size c" "\<not> ?evict"
    by linarith
  then show ?thesis
  proof cases
    case 1
    with assms show ?thesis by (simp add: TwoQueue_ensureSpace_def TwoQueue_Len_def)
  next
    case 2
    obtain kv where kv: "LRU_getAndRemoveOldest (tq_recent c) = (kv, LRU_removeOldest (tq_recent c))"
      by (metis getAndRemoveOldest_snd prod.collapse)
    define gh where "gh = LRU_Put (tq_ghost c) (case kv of None \<Rightarrow> 0 | Some (k, _) \<Rightarrow> k) ()"
    have e: "TwoQueue_ensureSpace c g = c\<lparr>tq_recent := LRU_removeOldest (tq_recent c), tq_ghost := gh\<rparr>"
      "lru_inv gh"
      using 2 kv inv by (simp_all add: TwoQueue_ensureSpace_def Let_def LRU_Put_refines gh_def)
    have eq: "c\<lparr>tq_recent := LRU_removeOldest (tq_recent c), tq_ghost := gh\<rparr> =
        c\<lparr>tq_recent := LRU_removeOldest (tq_recent c), tq_frequent := tq_frequent c, tq_ghost := gh\<rparr>" by simp
    note rm = lru_removeOldest_view [of "tq_recent c"]
    note sh = Peek_shrink(1) [of "LRU_removeOldest (tq_recent c)" c "tq_frequent c" gh, folded eq]
      Peek_shrink(2) [of "LRU_removeOldest (tq_recent c)" c "tq_frequent c"]
    show ?thesis
      using inv rm sh 2 e by (auto simp: tq_inv_def TwoQueue_Len_def)
  next
    case 3
    then have e: "TwoQueue_ensureSpace c g = c\<lparr>tq_frequent := LRU_removeOldest (tq_frequent c)\<rparr>"
      by (auto simp: TwoQueue_ensureSpace_def Let_def)
    have eq: "c\<lparr>tq_frequent := LRU_removeOldest (tq_frequent c)\<rparr> =
        c\<lparr>tq_recent := tq_recent c, tq_frequent := LRU_removeOldest (tq_frequent c), tq_ghost := tq_ghost c\<rparr>"
      by simp
    note rm = lru_removeOldest_view [of "tq_frequent c"]
    note sh = Peek_shrink(1) [of "tq_recent c" c "LRU_removeOldest (tq_frequent c)" "tq_ghost c", folded eq]
      Peek_shrink(2) [of "tq_recent c" c "LRU_removeOldest (tq_frequent c)"]
    have "?f > 0" using inv q 3 by auto
    then show ?thesis using inv rm sh e by (auto simp: tq_inv_def TwoQueue_Len_def)
  qed
qed

lemma TwoQueue_Peek_None:
  "TwoQueue_Peek c k = None \<longleftrightarrow> LRU_Peek (tq_frequent c) k = None \<and> LRU_Peek (tq_recent c) k = None"
  by (auto simp: TwoQueue_Peek_def split: option.splits)

lemma lru_Peek_len: "lru_inv c \<Longrightarrow> LRU_Peek c k \<noteq> None \<Longrightarrow> 0 < LRU_Len c"
  by (auto simp: LRU_Len_def LRU_Peek_def lru_wfD(3) [OF lru_inv_wf] split: option.splits)

lemma add_frequent:
  fixes v :: 'v
  assumes "tq_inv c" "int (TwoQueue_Len c) < tq_size c" "TwoQueue_Peek c k = None" "lru_inv g"
  defines "c' \<equiv> c\<lparr>tq_ghost := g, tq_frequent := LRU_Put (tq_frequent c) k v\<rparr>"
  shows "tq_inv c' \<and> TwoQueue_Peek c' = (TwoQueue_Peek c)(k \<mapsto> v)"
proof -
  have room: "LRU_Peek (tq_frequent c) k \<noteq> None \<or> lru_maxCount (tq_frequent c) = 0 \<or>
      int (LRU_Len (tq_frequent c)) < lru_maxCount (tq_frequent c)" "lru_inv (tq_frequent c)"
    using assms(1,2) by (auto simp: tq_inv_def TwoQueue_Len_def)
  note put = lru_Put_room [OF room(2,1), of v] LRU_Put_refines [OF room(2), of k v]
  have none: "LRU_Peek (tq_frequent c) k = None" "LRU_Peek (tq_recent c) k = None"
    using assms(3) by (simp_all add: TwoQueue_Peek_None)
  show ?thesis
    using assms(1,2,4) put none
    by (auto simp: tq_inv_def c'_def TwoQueue_Len_def TwoQueue_Peek_def fun_eq_iff split: option.splits)
qed

lemma add_recent:
  fixes v :: 'v
  assumes "tq_inv c" "int (TwoQueue_Len c) < tq_size c" "TwoQueue_Peek c k = None"
  defines "c' \<equiv> c\<lparr>tq_recent := LRU_Put (tq_recent c) k v\<rparr>"
  shows "tq_inv c' \<and> TwoQueue_Peek c' = (TwoQueue_Peek c)(k \<mapsto> v)"
proof -
  have room: "LRU_Peek (tq_recent c) k \<noteq> None \<or> lru_maxCount (tq_recent c) = 0 \<or>
      int (LRU_Len (tq_recent c)) < lru_maxCount (tq_recent c)" "lru_inv (tq_recent c)"
    using assms(1,2) by (auto simp: tq_inv_def TwoQueue_Len_def)
  note put = lru_Put_room [OF room(2,1), of v] LRU_Put_refines [OF room(2), of k v]
  have none: "LRU_Peek (tq_frequent c) k = None" "LRU_Peek (tq_recent c) k = None"
    using assms(3) by (simp_all add: TwoQueue_Peek_None)
  show ?thesis
    using assms(1,2) put none
    by (auto simp: tq_inv_def c'_def TwoQueue_Len_def TwoQueue_Peek_def fun_eq_iff split: option.splits)
qed

text \<open>A hit in \<open>recent\<close> moves the entry to \<open>frequent\<close>, which has room for it.\<close>

lemma promote:
  fixes v :: 'v
  assumes "tq_inv c" "LRU_Peek (tq_recent c) k \<noteq> None"
  defines "c' \<equiv> c\<lparr>tq_recent := LRU_Remove (tq_recent c) k, tq_frequent := LRU_Put (tq_frequent c) k v\<rparr>"
  shows "tq_inv c' \<and> TwoQueue_Peek c' = (TwoQueue_Peek c)(k \<mapsto> v)"
proof -
  have r: "lru_inv (tq_recent c)" and f: "lru_inv (tq_frequent c)" using assms(1) by (auto simp: tq_inv_def)
  have pos: "0 < LRU_Len (tq_recent c)" by (rule lru_Peek_len [OF r assms(2)])
  have none: "LRU_Peek (tq_frequent c) k = None" using tq_disjoint [OF assms(1), of k] assms(2) by simp
  have room: "LRU_Peek (tq_frequent c) k \<noteq> None \<or> lru_maxCount (tq_frequent c) = 0 \<or>
      int (LRU_Len (tq_frequent c)) < lru_maxCount (tq_frequent c)"
    using assms(1) pos by (auto simp: tq_inv_def TwoQueue_Len_def)
  note put = lru_Put_room [OF f room, of v] LRU_Put_refines [OF f, of k v]
  note rem = lru_Remove_view [OF r, of k] lru_Remove_len [OF r, of k] LRU_remove_refines [OF r, of k]
  show ?thesis
    using assms(1,2) put rem none pos
    by (auto simp: tq_inv_def c'_def TwoQueue_Len_def TwoQueue_Peek_def fun_eq_iff split: option.splits)
qed

lemma update_frequent:
  fixes v :: 'v
  assumes "tq_inv c" "LRU_Peek (tq_frequent c) k \<noteq> None"
  defines "c' \<equiv> c\<lparr>tq_frequent := LRU_Put (tq_frequent c) k v\<rparr>"
  shows "tq_inv c' \<and> TwoQueue_Peek c' = (TwoQueue_Peek c)(k \<mapsto> v)"
proof -
  have f: "lru_inv (tq_frequent c)" using assms(1) by (auto simp: tq_inv_def)
  have room: "LRU_Peek (tq_frequent c) k \<noteq> None \<or> lru_maxCount (tq_frequent c) = 0 \<or>
      int (LRU_Len (tq_frequent c)) < lru_maxCount (tq_frequent c)" using assms(2) by simp
  note put = lru_Put_room [OF f room, of v] LRU_Put_refines [OF f, of k v]
  have "LRU_Peek (tq_recent c) k = None" using tq_disjoint [OF assms(1), of k] assms(2) by simp
  then show ?thesis
    using assms(1,2) put
    by (auto simp: tq_inv_def c'_def TwoQueue_Len_def TwoQueue_Peek_def fun_eq_iff split: option.splits)
qed

lemma TwoQueue_Put_ok:
  assumes "tq_inv c"
  shows "tq_inv (TwoQueue_Put c k v) \<and> TwoQueue_Peek (TwoQueue_Put c k v) k = Some v \<and>
    TwoQueue_Peek (TwoQueue_Put c k v) \<subseteq>\<^sub>m (TwoQueue_Peek c)(k \<mapsto> v) \<and>
    tq_size (TwoQueue_Put c k v) = tq_size c"
proof -
  have mono: "m \<subseteq>\<^sub>m m' \<Longrightarrow> m(k \<mapsto> v) \<subseteq>\<^sub>m m'(k \<mapsto> v)" for m m' :: "u64 \<Rightarrow> 'a option"
    by (auto simp: map_le_def)
  consider (f) "LRU_Peek (tq_frequent c) k \<noteq> None"
    | (r) "LRU_Peek (tq_frequent c) k = None" "LRU_Peek (tq_recent c) k \<noteq> None"
    | (n) "TwoQueue_Peek c k = None" unfolding TwoQueue_Peek_None by metis
  then show ?thesis
  proof cases
    case f
    with update_frequent [OF assms f, of v] show ?thesis by (simp add: TwoQueue_Put_def contains_Peek)
  next
    case r
    with promote [OF assms r(2), of v] show ?thesis by (simp add: TwoQueue_Put_def contains_Peek)
  next
    case n
    let ?c = "\<lambda>g. TwoQueue_ensureSpace c g"
    note e = ensureSpace_ok [OF assms]
    have none: "TwoQueue_Peek (?c g) k = None" for g
      using e [of g] n by (cases "TwoQueue_Peek (?c g) k") (auto simp: map_le_def dom_def)
    have room: "tq_inv (?c g)" "int (TwoQueue_Len (?c g)) < tq_size (?c g)" for g using e [of g] by auto
    have "lru_inv (LRU_Remove (tq_ghost (?c True)) k)"
      using room(1) [of True] by (auto simp: tq_inv_def LRU_remove_refines)
    note af = add_frequent [OF room [of True] none [of True] this, of v]
      and ar = add_recent [OF room [of False] none [of False], of v]
    show ?thesis
    proof (cases "LRU_contains (tq_ghost c) k")
      case True
      with n af e [of True] mono show ?thesis
        by (auto simp: TwoQueue_Put_def contains_Peek TwoQueue_Peek_None Let_def)
    next
      case False
      with n ar e [of False] mono show ?thesis
        by (auto simp: TwoQueue_Put_def contains_Peek TwoQueue_Peek_None Let_def)
    qed
  qed
qed

lemma lru_Get_len: "lru_inv c \<Longrightarrow> LRU_Len (snd (LRU_Get c k)) = LRU_Len c"
  using lru_wfD(1) [OF lru_inv_wf, of c]
  by (auto simp: LRU_Get_def LRU_Len_def MoveToFront_simps split: option.splits)

lemma TwoQueue_Get_ok:
  assumes "tq_inv c"
  shows "fst (TwoQueue_Get c k) = TwoQueue_Peek c k" "tq_inv (snd (TwoQueue_Get c k))"
    "TwoQueue_Peek (snd (TwoQueue_Get c k)) = TwoQueue_Peek c" "tq_size (snd (TwoQueue_Get c k)) = tq_size c"
proof -
  have f: "lru_inv (tq_frequent c)" using assms by (simp add: tq_inv_def)
  let ?f = "snd (LRU_Get (tq_frequent c) k)" and ?c = "c\<lparr>tq_frequent := snd (LRU_Get (tq_frequent c) k)\<rparr>"
  note g = LRU_Get_refines [OF f, of k] lru_Get_view [OF f, of k] lru_Get_len [OF f, of k]
  have c: "tq_inv ?c" "TwoQueue_Peek ?c = TwoQueue_Peek c"
    using assms g by (simp_all add: tq_inv_def TwoQueue_Len_def TwoQueue_Peek_def [abs_def]
        cong: option.case_cong)
  have "fst (TwoQueue_Get c k) = TwoQueue_Peek c k \<and> tq_inv (snd (TwoQueue_Get c k)) \<and>
    TwoQueue_Peek (snd (TwoQueue_Get c k)) = TwoQueue_Peek c \<and> tq_size (snd (TwoQueue_Get c k)) = tq_size c"
  proof (cases "LRU_Peek (tq_frequent c) k")
    case (Some x)
    then have "TwoQueue_Get c k = (Some x, ?c)"
      using g(1) by (auto simp: TwoQueue_Get_def split: prod.splits)
    with c Some show ?thesis by (simp add: TwoQueue_Peek_def)
  next
    case None
    then have get: "TwoQueue_Get c k = (case LRU_Peek (tq_recent c) k of
        Some x \<Rightarrow> (Some x, ?c\<lparr>tq_recent := LRU_Remove (tq_recent ?c) k,
          tq_frequent := LRU_Put (tq_frequent ?c) k x\<rparr>) | None \<Rightarrow> (None, ?c))"
      using g(1) by (auto simp: TwoQueue_Get_def Let_def split: prod.splits option.splits)
    show ?thesis
    proof (cases "LRU_Peek (tq_recent c) k")
      case (Some x)
      with promote [OF c(1), of k x] c(2) get None show ?thesis
        by (auto simp: TwoQueue_Peek_def fun_eq_iff)
    qed (use get c None in \<open>simp add: TwoQueue_Peek_def\<close>)
  qed
  then show "fst (TwoQueue_Get c k) = TwoQueue_Peek c k" "tq_inv (snd (TwoQueue_Get c k))"
    "TwoQueue_Peek (snd (TwoQueue_Get c k)) = TwoQueue_Peek c" "tq_size (snd (TwoQueue_Get c k)) = tq_size c"
    by auto
qed

lemma TwoQueue_Remove_ok:
  assumes "tq_inv c"
  shows "tq_inv (TwoQueue_Remove c k)" "TwoQueue_Peek (TwoQueue_Remove c k) = (TwoQueue_Peek c)(k := None)"
    "tq_size (TwoQueue_Remove c k) = tq_size c"
proof -
  have r: "lru_inv (tq_recent c)" and f: "lru_inv (tq_frequent c)" and g: "lru_inv (tq_ghost c)"
    using assms by (auto simp: tq_inv_def)
  have rem: "LRU_remove l k = (LRU_Peek l k \<noteq> None, LRU_Remove l k)" if "lru_inv l" for l :: "'b LRU"
    using LRU_remove_refines(4) [OF that, of k] by (simp add: LRU_Remove_def prod_eq_iff)
  have same: "LRU_Remove l k = l" if "LRU_Peek l k = None" for l :: "'b LRU"
    using that by (auto simp: LRU_Remove_def LRU_remove_def LRU_Peek_def split: option.splits)
  note facts = lru_Remove_view [OF r, of k] lru_Remove_len [OF r, of k] LRU_remove_refines [OF r, of k]
    lru_Remove_view [OF f, of k] lru_Remove_len [OF f, of k] LRU_remove_refines [OF f, of k]
    LRU_remove_refines [OF g, of k] tq_disjoint [OF assms, of k]
  show "tq_inv (TwoQueue_Remove c k)" "TwoQueue_Peek (TwoQueue_Remove c k) = (TwoQueue_Peek c)(k := None)"
    "tq_size (TwoQueue_Remove c k) = tq_size c"
    using assms facts
    by (auto simp: TwoQueue_Remove_def rem [OF r] rem [OF f] rem [OF g] same tq_inv_def TwoQueue_Len_def
        TwoQueue_Peek_def fun_eq_iff split: bool.splits option.splits)
qed

lemma TwoQueue_Elems_ok:
  assumes "tq_inv c"
  shows "distinct (map Item_Key (TwoQueue_Elems c))"
    "i \<in> set (TwoQueue_Elems c) \<longleftrightarrow> TwoQueue_Peek c (Item_Key i) = Some (Item_Value i)"
    "TwoQueue_Len c = length (TwoQueue_Elems c)"
proof -
  have r: "lru_wf (tq_recent c)" and f: "lru_wf (tq_frequent c)"
    using assms by (auto simp: tq_inv_def lru_inv_wf)
  note v = lru_Elems_view [OF r] lru_Elems_view [OF f]
  have "i \<in> set (LRU_Elems (tq_recent c)) \<Longrightarrow> j \<in> set (LRU_Elems (tq_frequent c)) \<Longrightarrow> Item_Key i \<noteq> Item_Key j" for i j
    using v(2) [of i] v(4) [of j] tq_disjoint [OF assms, of "Item_Key i"] by auto
  then show "distinct (map Item_Key (TwoQueue_Elems c))"
    using v(1,3) by (auto simp: TwoQueue_Elems_def)
  show "i \<in> set (TwoQueue_Elems c) \<longleftrightarrow> TwoQueue_Peek c (Item_Key i) = Some (Item_Value i)"
    using v(2,4) tq_disjoint [OF assms, of "Item_Key i"]
    by (auto simp: TwoQueue_Elems_def TwoQueue_Peek_def split: option.splits)
  show "TwoQueue_Len c = length (TwoQueue_Elems c)"
    by (simp add: TwoQueue_Len_def TwoQueue_Elems_def LRU_Len_def length_Elems)
qed

interpretation twoqueue: cache_contract TwoQueue_Put TwoQueue_Get TwoQueue_Peek TwoQueue_Remove
  TwoQueue_Elems TwoQueue_Len tq_inv TwoQueue_Peek "\<lambda>c. nat (tq_size c)"
proof (unfold_locales, goal_cases)
  case (3 c j k v w)
  then show ?case using TwoQueue_Put_ok [of c k v] by (metis domI fun_upd_other map_le_def)
next
  case (11 c)
  then show ?case by (auto simp: tq_inv_def)
qed (auto simp: TwoQueue_Put_ok TwoQueue_Get_ok TwoQueue_Remove_ok TwoQueue_Elems_ok)

subsection \<open>Properties\<close>

text \<open>
  (C22) The LRU cache implements the textbook policy: on the list of its entries in order of
  last use, \<open>Put\<close> moves or adds the entry to the front and drops the last one when the capacity
  is exceeded, \<open>Get\<close> moves the entry found to the front, and \<open>Remove\<close> deletes it.
\<close>
theorem LRU_refines_recency:
  assumes "lru_inv c"
  shows "lru_abs (LRU_Put c k v) = recency_put (lru_maxCount c) k v (lru_abs c) \<and>
    lru_abs (snd (LRU_Get c k)) = recency_get k (lru_abs c) \<and>
    fst (LRU_Get c k) = map_of (lru_abs c) k \<and>
    lru_abs (LRU_Remove c k) = filter (\<lambda>p. fst p \<noteq> k) (lru_abs c) \<and>
    lru_inv (LRU_Put c k v) \<and> lru_inv (snd (LRU_Get c k)) \<and> lru_inv (LRU_Remove c k)"
  by (simp add: LRU_Put_refines [OF assms] LRU_Get_refines [OF assms] LRU_remove_refines [OF assms]
      lru_abs_map_of [OF lru_inv_wf [OF assms]])

theorem LRU_refines_recency_witness:
  "lru_abs (LRU_Put (LRU_Put (LRU_Put (newLRU 2) 1 ''a'') 2 ''b'') 3 ''c'') = [(3, ''c''), (2, ''b'')]"
proof -
  have n: "lru_inv (newLRU 2 :: string LRU)" by (simp add: newLRU_inv)
  note one = LRU_refines_recency [OF n, of 1 "''a''"]
  note two = LRU_refines_recency [OF one [THEN conjunct2, THEN conjunct2, THEN conjunct2,
        THEN conjunct2, THEN conjunct1], of 2 "''b''"]
  note three = LRU_refines_recency [OF two [THEN conjunct2, THEN conjunct2, THEN conjunct2,
        THEN conjunct2, THEN conjunct1], of 3 "''c''"]
  have m: "lru_maxCount (LRU_Put c k v) = lru_maxCount c" if "lru_inv c" for c :: "string LRU" and k v
    by (rule LRU_Put_refines(3) [OF that])
  show ?thesis
    using one two three n by (simp add: m recency_put_def newLRU_wf newLRU_inv)
qed

text \<open>
  (C21) After any sequence of \<open>Put\<close>, \<open>Get\<close> and \<open>Remove\<close> on a new cache of positive size, for the
  LRU cache and for the two-queue cache alike: \<open>Get\<close> misses or returns the value of the last
  \<open>Put\<close> under the key that no \<open>Remove\<close> followed, \<open>Peek\<close> agrees with it, and the number of entries
  is at most the size.
\<close>
theorem caches_never_stale:
  fixes ops :: "'v cache_op list"
  assumes "0 < n"
  shows "(let c = fold (cache_apply LRU_Put LRU_Get LRU_Remove) ops (newLRU n) in
      (fst (LRU_Get c k) = None \<or> fst (LRU_Get c k) = fold op_map ops Map.empty k) \<and>
      LRU_Peek c k = fst (LRU_Get c k) \<and> int (LRU_Len c) \<le> n) \<and>
    (let c = fold (cache_apply TwoQueue_Put TwoQueue_Get TwoQueue_Remove) ops (newTwoQueue n) in
      (fst (TwoQueue_Get c k) = None \<or> fst (TwoQueue_Get c k) = fold op_map ops Map.empty k) \<and>
      TwoQueue_Peek c k = fst (TwoQueue_Get c k) \<and> int (TwoQueue_Len c) \<le> n)"
proof -
  have l: "lru_inv (newLRU n :: 'v LRU)" "LRU_Peek (newLRU n :: 'v LRU) = Map.empty"
    "nat (lru_maxCount (newLRU n :: 'v LRU)) \<noteq> 0"
    using assms by (simp_all add: newLRU_inv)
  have t: "tq_inv (newTwoQueue n :: 'v TwoQueue)" "TwoQueue_Peek (newTwoQueue n :: 'v TwoQueue) = Map.empty"
    "nat (tq_size (newTwoQueue n :: 'v TwoQueue)) \<noteq> 0"
    using assms by (simp_all add: newTwoQueue_inv) (simp add: newTwoQueue_def)
  show ?thesis
    using lru.history_lookup [OF l(1,2) refl, of ops] twoqueue.history_lookup [OF t(1,2) refl, of ops] l(3) t(3)
      assms by (simp add: Let_def newLRU_inv(4) newTwoQueue_def le_nat_iff)
qed

theorem caches_never_stale_witness:
  "int (TwoQueue_Len (fold (cache_apply TwoQueue_Put TwoQueue_Get TwoQueue_Remove)
     [CachePut 1 ''a'', CachePut 2 ''b'', CacheGet 1, CachePut 3 ''c''] (newTwoQueue 2))) \<le> 2"
  using caches_never_stale [of 2 "[CachePut 1 ''a'', CachePut 2 ''b'', CacheGet 1, CachePut 3 ''c'']" 0]
  unfolding Let_def by simp

end
