(* ===== verification/Ordered_Tree.thy ===== *)
theory Ordered_Tree
  imports Prelude
begin

text \<open>
  The interface of the package \<open>github.com/google/btree\<close>, which is not part of the
  repository: \<open>server/core/region_tree.go\<close> and \<open>server/kv/mem_kv.go\<close> call it. The operations are a
  record passed to every definition that uses them; what its documentation promises is the
  locale \<open>btree_contract\<close>. An iteration (\<open>AscendGreaterOrEqual\<close>, \<open>DescendLessOrEqual\<close>,
  \<open>AscendRange\<close>, \<open>Ascend\<close>) is the list of the items in the order in which the callback
  would be given them; a callback that returns false stops reading that list.

  \<open>list_btree\<close> is the specification read as a program, on sorted lists. It shows that the
  contract can hold and lets closed instances be computed; no theorem about the code's own
  definitions depends on it.
\<close>

record ('t, 'i) btree =
  bt_New :: "nat \<Rightarrow> 't"
  bt_Len :: "'t \<Rightarrow> nat"
  bt_Get :: "'t \<Rightarrow> 'i \<Rightarrow> 'i option"
  bt_ReplaceOrInsert :: "'t \<Rightarrow> 'i \<Rightarrow> 't"
  bt_Delete :: "'t \<Rightarrow> 'i \<Rightarrow> 't"
  bt_Ascend :: "'t \<Rightarrow> 'i list"
  bt_AscendGreaterOrEqual :: "'t \<Rightarrow> 'i \<Rightarrow> 'i list"
  bt_AscendRange :: "'t \<Rightarrow> 'i \<Rightarrow> 'i \<Rightarrow> 'i list"
  bt_DescendLessOrEqual :: "'t \<Rightarrow> 'i \<Rightarrow> 'i list"

text \<open>The tree is in order: its ascending traversal is strictly sorted by the items' \<open>Less\<close>.\<close>

definition bt_ordered :: "('t, 'i) btree \<Rightarrow> ('i \<Rightarrow> 'i \<Rightarrow> bool) \<Rightarrow> 't \<Rightarrow> bool" where
  "bt_ordered bt lt t \<longleftrightarrow> sorted_wrt lt (bt_Ascend bt t)"

definition list_btree :: "('i \<Rightarrow> 'i \<Rightarrow> bool) \<Rightarrow> ('i list, 'i) btree" where
  "list_btree lt =
     \<lparr>bt_New = (\<lambda>_. []),
      bt_Len = length,
      bt_Get = (\<lambda>t i. List.find (\<lambda>x. \<not> lt x i \<and> \<not> lt i x) t),
      bt_ReplaceOrInsert = (\<lambda>t i. filter (\<lambda>x. lt x i) t @ i # filter (lt i) t),
      bt_Delete = (\<lambda>t i. filter (\<lambda>x. lt x i \<or> lt i x) t),
      bt_Ascend = (\<lambda>t. t),
      bt_AscendGreaterOrEqual = (\<lambda>t i. filter (\<lambda>x. \<not> lt x i) t),
      bt_AscendRange = (\<lambda>t a b. filter (\<lambda>x. \<not> lt x a \<and> lt x b) t),
      bt_DescendLessOrEqual = (\<lambda>t i. rev (filter (\<lambda>x. \<not> lt i x) t))\<rparr>"

text \<open>
  The documented behaviour. \<open>lt_trans\<close> and \<open>lt_neg_trans\<close> are what the package
  requires of the items' \<open>Less\<close> (a strict weak ordering); the client discharges them.
\<close>

locale btree_contract =
  fixes bt :: "('t, 'i) btree" and lt :: "'i \<Rightarrow> 'i \<Rightarrow> bool"
  assumes lt_irrefl: "\<not> lt x x"
    and lt_trans: "lt x y \<Longrightarrow> lt y z \<Longrightarrow> lt x z"
    and lt_neg_trans: "\<not> lt x y \<Longrightarrow> \<not> lt y z \<Longrightarrow> \<not> lt x z"
    and New: "bt_Ascend bt (bt_New bt d) = []"
    and Len: "bt_ordered bt lt t \<Longrightarrow> bt_Len bt t = length (bt_Ascend bt t)"
    and Get: "bt_ordered bt lt t \<Longrightarrow>
      bt_Get bt t i = List.find (\<lambda>x. \<not> lt x i \<and> \<not> lt i x) (bt_Ascend bt t)"
    and ReplaceOrInsert: "bt_ordered bt lt t \<Longrightarrow>
      bt_Ascend bt (bt_ReplaceOrInsert bt t i) =
        filter (\<lambda>x. lt x i) (bt_Ascend bt t) @ i # filter (lt i) (bt_Ascend bt t)"
    and Delete: "bt_ordered bt lt t \<Longrightarrow>
      bt_Ascend bt (bt_Delete bt t i) = filter (\<lambda>x. lt x i \<or> lt i x) (bt_Ascend bt t)"
    and AscendGreaterOrEqual: "bt_ordered bt lt t \<Longrightarrow>
      bt_AscendGreaterOrEqual bt t i = filter (\<lambda>x. \<not> lt x i) (bt_Ascend bt t)"
    and AscendRange: "bt_ordered bt lt t \<Longrightarrow>
      bt_AscendRange bt t a b = filter (\<lambda>x. \<not> lt x a \<and> lt x b) (bt_Ascend bt t)"
    and DescendLessOrEqual: "bt_ordered bt lt t \<Longrightarrow>
      bt_DescendLessOrEqual bt t i = rev (filter (\<lambda>x. \<not> lt i x) (bt_Ascend bt t))"
begin

lemma ordered_New: "bt_ordered bt lt (bt_New bt d)"
  by (simp add: bt_ordered_def New)

lemma lt_asym: "lt x y \<Longrightarrow> \<not> lt y x"
  using lt_trans lt_irrefl by blast

lemma ordered_ReplaceOrInsert:
  assumes "bt_ordered bt lt t"
  shows "bt_ordered bt lt (bt_ReplaceOrInsert bt t i)"
  using assms
  by (auto simp: bt_ordered_def ReplaceOrInsert [OF assms] sorted_wrt_append sorted_wrt_filter
      intro: lt_trans)

lemma ordered_Delete:
  assumes "bt_ordered bt lt t"
  shows "bt_ordered bt lt (bt_Delete bt t i)"
  using assms by (simp add: bt_ordered_def Delete [OF assms] sorted_wrt_filter)

lemma set_ReplaceOrInsert:
  assumes "bt_ordered bt lt t"
  shows "set (bt_Ascend bt (bt_ReplaceOrInsert bt t i)) =
    insert i {x \<in> set (bt_Ascend bt t). lt x i \<or> lt i x}"
  by (auto simp: ReplaceOrInsert [OF assms])

lemma set_Delete:
  assumes "bt_ordered bt lt t"
  shows "set (bt_Ascend bt (bt_Delete bt t i)) = {x \<in> set (bt_Ascend bt t). lt x i \<or> lt i x}"
  by (auto simp: Delete [OF assms])

text \<open>Two items of the tree that \<open>Less\<close> does not separate are the same item.\<close>

lemma ordered_inj:
  assumes "bt_ordered bt lt t" "x \<in> set (bt_Ascend bt t)" "y \<in> set (bt_Ascend bt t)"
    and "\<not> lt x y" "\<not> lt y x"
  shows "x = y"
proof -
  have "sorted_wrt lt xs \<Longrightarrow> x \<in> set xs \<Longrightarrow> y \<in> set xs \<Longrightarrow> x = y" for xs
    using assms(4,5) by (induction xs) auto
  with assms(1-3) show ?thesis by (simp add: bt_ordered_def)
qed

text \<open>The first item a descending iteration visits is the greatest one not above the pivot.\<close>

lemma DescendLessOrEqual_Nil:
  assumes "bt_ordered bt lt t"
  shows "bt_DescendLessOrEqual bt t i = [] \<longleftrightarrow> (\<forall>x \<in> set (bt_Ascend bt t). lt i x)"
  by (auto simp: DescendLessOrEqual [OF assms] filter_empty_conv)

lemma DescendLessOrEqual_Cons:
  assumes "bt_ordered bt lt t" and "bt_DescendLessOrEqual bt t i = x # xs"
  shows "x \<in> set (bt_Ascend bt t)" "\<not> lt i x"
    and "\<And>y. y \<in> set (bt_Ascend bt t) \<Longrightarrow> \<not> lt i y \<Longrightarrow> y = x \<or> lt y x"
proof -
  let ?f = "filter (\<lambda>x. \<not> lt i x) (bt_Ascend bt t)"
  from assms have f: "?f = rev xs @ [x]"
    by (simp add: DescendLessOrEqual [OF assms(1)] rev_swap)
  then have x: "x \<in> set ?f" by simp
  then show "x \<in> set (bt_Ascend bt t)" and "\<not> lt i x" by auto
  fix y assume "y \<in> set (bt_Ascend bt t)" "\<not> lt i y"
  then have "y \<in> set (rev xs @ [x])" unfolding f [symmetric] by simp
  moreover have "sorted_wrt lt (rev xs @ [x])"
    using assms(1) by (simp add: bt_ordered_def f [symmetric] sorted_wrt_filter)
  ultimately show "y = x \<or> lt y x" by (auto simp: sorted_wrt_append)
qed

end

lemma list_btree_contract:
  assumes "\<And>x. \<not> lt x x"
    and "\<And>x y z. lt x y \<Longrightarrow> lt y z \<Longrightarrow> lt x z"
    and "\<And>x y z. \<not> lt x y \<Longrightarrow> \<not> lt y z \<Longrightarrow> \<not> lt x z"
  shows "btree_contract (list_btree lt) lt"
  by unfold_locales (simp add: list_btree_def | fact assms)+

end
