(* ===== verification/Region.thy ===== *)
theory Region
  imports Prelude
begin

text \<open>
  \<open>server/core/region.go\<close> (the \<open>RegionInfo\<close> part) and \<open>server/core/region_option.go\<close>: the
  metadata messages of the protocol that the sources read, the region snapshot PD keeps, its
  accessors, and the options with which \<open>Clone\<close> builds a changed copy. \<open>RegionInfo\<close> is
  read-only once created and \<open>Clone\<close> copies its messages deeply, so a value models it.

  The messages (\<open>metapb\<close>, \<open>pdpb\<close>) are generated protobuf types. A generated getter on a nil
  message returns the field's zero value; a direct field access on nil panics.
\<close>

named_theorems region_defs \<open>accessors of regions that the simplifier may unfold\<close>

subsection \<open>Messages\<close>

record metapb_Peer =
  Peer_Id :: u64
  Peer_StoreId :: u64
  Peer_IsLearner :: bool

record metapb_RegionEpoch =
  Epoch_ConfVer :: u64
  Epoch_Version :: u64

record metapb_Region =
  Region_Id :: u64
  Region_StartKey :: bytes
  Region_EndKey :: bytes
  Region_RegionEpoch :: "metapb_RegionEpoch option"
  Region_Peers :: "metapb_Peer list"

record pdpb_PeerStats =
  PeerStats_Peer :: "metapb_Peer option"
  PeerStats_DownSeconds :: u64

record pdpb_RegionHeartbeatRequest =
  hb_Region :: "metapb_Region option"
  hb_Leader :: "metapb_Peer option"
  hb_DownPeers :: "pdpb_PeerStats list"
  hb_PendingPeers :: "metapb_Peer list"
  hb_BytesWritten :: u64
  hb_BytesRead :: u64
  hb_ApproximateSize :: u64
  hb_ApproximateKeys :: u64

definition Peer_GetId :: "metapb_Peer option \<Rightarrow> u64" where
  "Peer_GetId p = (case p of None \<Rightarrow> 0 | Some p \<Rightarrow> Peer_Id p)"

definition Peer_GetStoreId :: "metapb_Peer option \<Rightarrow> u64" where
  "Peer_GetStoreId p = (case p of None \<Rightarrow> 0 | Some p \<Rightarrow> Peer_StoreId p)"

definition Epoch_GetVersion :: "metapb_RegionEpoch option \<Rightarrow> u64" where
  "Epoch_GetVersion e = (case e of None \<Rightarrow> 0 | Some e \<Rightarrow> Epoch_Version e)"

definition Epoch_GetConfVer :: "metapb_RegionEpoch option \<Rightarrow> u64" where
  "Epoch_GetConfVer e = (case e of None \<Rightarrow> 0 | Some e \<Rightarrow> Epoch_ConfVer e)"

lemma Peer_GetId_simps [simp]: "Peer_GetId None = 0" "Peer_GetId (Some p) = Peer_Id p"
  by (simp_all add: Peer_GetId_def)

lemma Peer_GetStoreId_simps [simp]:
  "Peer_GetStoreId None = 0" "Peer_GetStoreId (Some p) = Peer_StoreId p"
  by (simp_all add: Peer_GetStoreId_def)

lemma Epoch_Get_simps [simp]:
  "Epoch_GetVersion None = 0" "Epoch_GetVersion (Some e) = Epoch_Version e"
  "Epoch_GetConfVer None = 0" "Epoch_GetConfVer (Some e) = Epoch_ConfVer e"
  by (simp_all add: Epoch_GetVersion_def Epoch_GetConfVer_def)

subsection \<open>RegionInfo and its construction\<close>

record RegionInfo =
  ri_meta :: metapb_Region
  ri_learners :: "metapb_Peer list"
  ri_voters :: "metapb_Peer list"
  ri_leader :: "metapb_Peer option"
  ri_downPeers :: "pdpb_PeerStats list"
  ri_pendingPeers :: "metapb_Peer list"
  ri_writtenBytes :: u64
  ri_readBytes :: u64
  ri_approximateSize :: i64
  ri_approximateKeys :: i64

type_synonym RegionOption = "RegionInfo \<Rightarrow> bool"
type_synonym RegionCreateOption = "RegionInfo \<Rightarrow> RegionInfo"

text \<open>The loop of \<open>classifyVoterAndLearner\<close> appends each peer to one of two slices.\<close>

fun classify_loop :: "metapb_Peer list \<Rightarrow> metapb_Peer list \<Rightarrow> metapb_Peer list
    \<Rightarrow> metapb_Peer list \<times> metapb_Peer list" where
  "classify_loop learners voters [] = (learners, voters)"
| "classify_loop learners voters (p # ps) =
     (if Peer_IsLearner p then classify_loop (learners @ [p]) voters ps
      else classify_loop learners (voters @ [p]) ps)"

definition classifyVoterAndLearner :: "RegionInfo \<Rightarrow> RegionInfo" where
  "classifyVoterAndLearner region =
     (case classify_loop [] [] (Region_Peers (ri_meta region)) of
        (learners, voters) \<Rightarrow> region\<lparr>ri_learners := learners, ri_voters := voters\<rparr>)"

definition apply_opts :: "RegionCreateOption list \<Rightarrow> RegionInfo \<Rightarrow> RegionInfo" where
  "apply_opts opts region = fold (\<lambda>opt r. opt r) opts region"

definition NewRegionInfo ::
    "metapb_Region \<Rightarrow> metapb_Peer option \<Rightarrow> RegionCreateOption list \<Rightarrow> RegionInfo" where
  "NewRegionInfo region leader opts =
     classifyVoterAndLearner (apply_opts opts
       \<lparr>ri_meta = region, ri_learners = [], ri_voters = [], ri_leader = leader,
        ri_downPeers = [], ri_pendingPeers = [], ri_writtenBytes = 0, ri_readBytes = 0,
        ri_approximateSize = 0, ri_approximateKeys = 0\<rparr>)"

definition EmptyRegionApproximateSize :: i64 where
  "EmptyRegionApproximateSize = 1"

text \<open>Without region metadata, \<open>classifyVoterAndLearner\<close> dereferences nil.\<close>

definition RegionFromHeartbeat :: "pdpb_RegionHeartbeatRequest \<Rightarrow> RegionInfo option" where
  "RegionFromHeartbeat heartbeat =
     (let regionSize = hb_ApproximateSize heartbeat div 2 ^ 20;
          regionSize = (if regionSize < EmptyRegionApproximateSize
                        then EmptyRegionApproximateSize else regionSize)
      in case hb_Region heartbeat of
           None \<Rightarrow> None
         | Some meta \<Rightarrow> Some (classifyVoterAndLearner
             \<lparr>ri_meta = meta, ri_learners = [], ri_voters = [],
              ri_leader = hb_Leader heartbeat,
              ri_downPeers = hb_DownPeers heartbeat,
              ri_pendingPeers = hb_PendingPeers heartbeat,
              ri_writtenBytes = hb_BytesWritten heartbeat,
              ri_readBytes = hb_BytesRead heartbeat,
              ri_approximateSize = regionSize,
              ri_approximateKeys = hb_ApproximateKeys heartbeat\<rparr>))"

definition RegionInfo_Clone :: "RegionInfo \<Rightarrow> RegionCreateOption list \<Rightarrow> RegionInfo" where
  "RegionInfo_Clone r opts =
     classifyVoterAndLearner (apply_opts opts
       \<lparr>ri_meta = ri_meta r, ri_learners = [], ri_voters = [], ri_leader = ri_leader r,
        ri_downPeers = ri_downPeers r, ri_pendingPeers = ri_pendingPeers r,
        ri_writtenBytes = ri_writtenBytes r, ri_readBytes = ri_readBytes r,
        ri_approximateSize = ri_approximateSize r, ri_approximateKeys = ri_approximateKeys r\<rparr>)"

subsection \<open>Accessors\<close>

definition RegionInfo_GetID :: "RegionInfo \<Rightarrow> u64" where [simp]:
  "RegionInfo_GetID r = Region_Id (ri_meta r)"

definition RegionInfo_GetPeers :: "RegionInfo \<Rightarrow> metapb_Peer list" where [simp]:
  "RegionInfo_GetPeers r = Region_Peers (ri_meta r)"

definition RegionInfo_GetStartKey :: "RegionInfo \<Rightarrow> bytes" where [simp]:
  "RegionInfo_GetStartKey r = Region_StartKey (ri_meta r)"

definition RegionInfo_GetEndKey :: "RegionInfo \<Rightarrow> bytes" where [simp]:
  "RegionInfo_GetEndKey r = Region_EndKey (ri_meta r)"

definition RegionInfo_GetRegionEpoch :: "RegionInfo \<Rightarrow> metapb_RegionEpoch option" where [simp]:
  "RegionInfo_GetRegionEpoch r = Region_RegionEpoch (ri_meta r)"

definition RegionInfo_GetPeer :: "RegionInfo \<Rightarrow> u64 \<Rightarrow> metapb_Peer option" where
  "RegionInfo_GetPeer r peerID = List.find (\<lambda>peer. Peer_Id peer = peerID) (Region_Peers (ri_meta r))"

fun GetDownPeer_loop :: "u64 \<Rightarrow> pdpb_PeerStats list \<Rightarrow> metapb_Peer option" where
  "GetDownPeer_loop peerID [] = None"
| "GetDownPeer_loop peerID (down # ds) =
     (if Peer_GetId (PeerStats_Peer down) = peerID then PeerStats_Peer down
      else GetDownPeer_loop peerID ds)"

definition RegionInfo_GetDownPeer :: "RegionInfo \<Rightarrow> u64 \<Rightarrow> metapb_Peer option" where
  "RegionInfo_GetDownPeer r peerID = GetDownPeer_loop peerID (ri_downPeers r)"

text \<open>
  \<open>GetDownVoter\<close> and \<open>GetDownLearner\<close> read the field \<open>IsLearner\<close> of the down peer directly: a
  statistics entry without a peer matches the id 0 and then panics (the outer \<open>None\<close>).
\<close>

fun GetDown_loop :: "bool \<Rightarrow> u64 \<Rightarrow> pdpb_PeerStats list \<Rightarrow> metapb_Peer option option" where
  "GetDown_loop learner peerID [] = Some None"
| "GetDown_loop learner peerID (down # ds) =
     (if Peer_GetId (PeerStats_Peer down) = peerID then
        (case PeerStats_Peer down of
           None \<Rightarrow> None
         | Some p \<Rightarrow> if Peer_IsLearner p = learner then Some (Some p)
                     else GetDown_loop learner peerID ds)
      else GetDown_loop learner peerID ds)"

definition RegionInfo_GetDownVoter :: "RegionInfo \<Rightarrow> u64 \<Rightarrow> metapb_Peer option option" where
  "RegionInfo_GetDownVoter r peerID = GetDown_loop False peerID (ri_downPeers r)"

definition RegionInfo_GetDownLearner :: "RegionInfo \<Rightarrow> u64 \<Rightarrow> metapb_Peer option option" where
  "RegionInfo_GetDownLearner r peerID = GetDown_loop True peerID (ri_downPeers r)"

definition RegionInfo_GetPendingPeer :: "RegionInfo \<Rightarrow> u64 \<Rightarrow> metapb_Peer option" where
  "RegionInfo_GetPendingPeer r peerID =
     List.find (\<lambda>peer. Peer_Id peer = peerID) (ri_pendingPeers r)"

definition RegionInfo_GetPendingVoter :: "RegionInfo \<Rightarrow> u64 \<Rightarrow> metapb_Peer option" where
  "RegionInfo_GetPendingVoter r peerID =
     List.find (\<lambda>peer. Peer_Id peer = peerID \<and> \<not> Peer_IsLearner peer) (ri_pendingPeers r)"

definition RegionInfo_GetPendingLearner :: "RegionInfo \<Rightarrow> u64 \<Rightarrow> metapb_Peer option" where
  "RegionInfo_GetPendingLearner r peerID =
     List.find (\<lambda>peer. Peer_Id peer = peerID \<and> Peer_IsLearner peer) (ri_pendingPeers r)"

definition RegionInfo_GetStorePeer :: "RegionInfo \<Rightarrow> u64 \<Rightarrow> metapb_Peer option" where
  "RegionInfo_GetStorePeer r storeID =
     List.find (\<lambda>peer. Peer_StoreId peer = storeID) (Region_Peers (ri_meta r))"

definition RegionInfo_GetStoreVoter :: "RegionInfo \<Rightarrow> u64 \<Rightarrow> metapb_Peer option" where
  "RegionInfo_GetStoreVoter r storeID =
     List.find (\<lambda>peer. Peer_StoreId peer = storeID) (ri_voters r)"

definition RegionInfo_GetStoreLearner :: "RegionInfo \<Rightarrow> u64 \<Rightarrow> metapb_Peer option" where
  "RegionInfo_GetStoreLearner r storeID =
     List.find (\<lambda>peer. Peer_StoreId peer = storeID) (ri_learners r)"

definition RegionInfo_GetStoreIds :: "RegionInfo \<Rightarrow> u64 fset" where
  "RegionInfo_GetStoreIds r = fset_of_list (map Peer_StoreId (Region_Peers (ri_meta r)))"

definition is_follower :: "RegionInfo \<Rightarrow> metapb_Peer \<Rightarrow> bool" where
  "is_follower r peer \<longleftrightarrow> ri_leader r = None \<or> Peer_GetId (ri_leader r) \<noteq> Peer_Id peer"

definition RegionInfo_GetFollowers :: "RegionInfo \<Rightarrow> (u64, metapb_Peer) fmap" where
  "RegionInfo_GetFollowers r =
     fold (\<lambda>peer followers. if is_follower r peer
             then fmupd (Peer_StoreId peer) peer followers else followers)
       (ri_voters r) fmempty"

definition RegionInfo_GetFollower :: "RegionInfo \<Rightarrow> metapb_Peer option" where
  "RegionInfo_GetFollower r = List.find (is_follower r) (ri_voters r)"

definition RegionInfo_GetDiffFollowers ::
    "u64 list \<Rightarrow> RegionInfo \<Rightarrow> RegionInfo \<Rightarrow> metapb_Peer list" where
  "RegionInfo_GetDiffFollowers order r other =
     filter (\<lambda>p. \<not> fBex (fmran (RegionInfo_GetFollowers other))
                  (\<lambda>o'. Peer_StoreId p = Peer_StoreId o'))
       (range_values order (RegionInfo_GetFollowers r))"

subsection \<open>Options (region\_option.go)\<close>

definition HealthRegion :: RegionOption where
  "HealthRegion region \<longleftrightarrow>
     ri_downPeers region = [] \<and> ri_pendingPeers region = [] \<and> ri_learners region = []"

definition HealthRegionAllowPending :: RegionOption where
  "HealthRegionAllowPending region \<longleftrightarrow> ri_downPeers region = [] \<and> ri_learners region = []"

definition WithDownPeers :: "pdpb_PeerStats list \<Rightarrow> RegionCreateOption" where
  "WithDownPeers downPeers region = region\<lparr>ri_downPeers := downPeers\<rparr>"

definition WithPendingPeers :: "metapb_Peer list \<Rightarrow> RegionCreateOption" where
  "WithPendingPeers pendingPeers region = region\<lparr>ri_pendingPeers := pendingPeers\<rparr>"

definition WithLearners :: "metapb_Peer list \<Rightarrow> RegionCreateOption" where
  "WithLearners learners region = region\<lparr>ri_learners := learners\<rparr>"

definition WithLeader :: "metapb_Peer option \<Rightarrow> RegionCreateOption" where
  "WithLeader leader region = region\<lparr>ri_leader := leader\<rparr>"

abbreviation upd_meta :: "(metapb_Region \<Rightarrow> metapb_Region) \<Rightarrow> RegionInfo \<Rightarrow> RegionInfo" where
  "upd_meta f region \<equiv> region\<lparr>ri_meta := f (ri_meta region)\<rparr>"

definition WithStartKey :: "bytes \<Rightarrow> RegionCreateOption" where
  "WithStartKey key region = upd_meta (\<lambda>m. m\<lparr>Region_StartKey := key\<rparr>) region"

definition WithEndKey :: "bytes \<Rightarrow> RegionCreateOption" where
  "WithEndKey key region = upd_meta (\<lambda>m. m\<lparr>Region_EndKey := key\<rparr>) region"

definition WithNewRegionID :: "u64 \<Rightarrow> RegionCreateOption" where
  "WithNewRegionID i region = upd_meta (\<lambda>m. m\<lparr>Region_Id := i\<rparr>) region"

definition WithNewPeerIds :: "u64 list \<Rightarrow> RegionCreateOption" where
  "WithNewPeerIds peerIds region =
     (if length peerIds \<noteq> length (Region_Peers (ri_meta region)) then region
      else upd_meta (\<lambda>m. m\<lparr>Region_Peers :=
             map2 (\<lambda>p i. p\<lparr>Peer_Id := i\<rparr>) (Region_Peers m) peerIds\<rparr>) region)"

abbreviation upd_epoch ::
    "(metapb_RegionEpoch \<Rightarrow> metapb_RegionEpoch) \<Rightarrow> RegionInfo \<Rightarrow> RegionInfo" where
  "upd_epoch f region \<equiv>
     upd_meta (\<lambda>m. m\<lparr>Region_RegionEpoch := map_option f (Region_RegionEpoch m)\<rparr>) region"

definition WithIncVersion :: RegionCreateOption where
  "WithIncVersion region = upd_epoch (\<lambda>e. e\<lparr>Epoch_Version := Epoch_Version e + 1\<rparr>) region"

definition WithDecVersion :: RegionCreateOption where
  "WithDecVersion region = upd_epoch (\<lambda>e. e\<lparr>Epoch_Version := Epoch_Version e - 1\<rparr>) region"

definition WithIncConfVer :: RegionCreateOption where
  "WithIncConfVer region = upd_epoch (\<lambda>e. e\<lparr>Epoch_ConfVer := Epoch_ConfVer e + 1\<rparr>) region"

definition WithDecConfVer :: RegionCreateOption where
  "WithDecConfVer region = upd_epoch (\<lambda>e. e\<lparr>Epoch_ConfVer := Epoch_ConfVer e - 1\<rparr>) region"

definition SetWrittenBytes :: "u64 \<Rightarrow> RegionCreateOption" where
  "SetWrittenBytes v region = region\<lparr>ri_writtenBytes := v\<rparr>"

definition WithRemoveStorePeer :: "u64 \<Rightarrow> RegionCreateOption" where
  "WithRemoveStorePeer storeID region =
     upd_meta (\<lambda>m. m\<lparr>Region_Peers :=
       filter (\<lambda>peer. Peer_StoreId peer \<noteq> storeID) (Region_Peers m)\<rparr>) region"

definition SetReadBytes :: "u64 \<Rightarrow> RegionCreateOption" where
  "SetReadBytes v region = region\<lparr>ri_readBytes := v\<rparr>"

definition SetApproximateSize :: "i64 \<Rightarrow> RegionCreateOption" where
  "SetApproximateSize v region = region\<lparr>ri_approximateSize := v\<rparr>"

definition SetApproximateKeys :: "i64 \<Rightarrow> RegionCreateOption" where
  "SetApproximateKeys v region = region\<lparr>ri_approximateKeys := v\<rparr>"

definition SetRegionConfVer :: "u64 \<Rightarrow> RegionCreateOption" where
  "SetRegionConfVer confVer region =
     upd_meta (\<lambda>m. m\<lparr>Region_RegionEpoch := Some (case Region_RegionEpoch m of
         None \<Rightarrow> \<lparr>Epoch_ConfVer = confVer, Epoch_Version = 1\<rparr>
       | Some e \<Rightarrow> e\<lparr>Epoch_ConfVer := confVer\<rparr>)\<rparr>) region"

definition SetRegionVersion :: "u64 \<Rightarrow> RegionCreateOption" where
  "SetRegionVersion version region =
     upd_meta (\<lambda>m. m\<lparr>Region_RegionEpoch := Some (case Region_RegionEpoch m of
         None \<Rightarrow> \<lparr>Epoch_ConfVer = 1, Epoch_Version = version\<rparr>
       | Some e \<Rightarrow> e\<lparr>Epoch_Version := version\<rparr>)\<rparr>) region"

definition SetPeers :: "metapb_Peer list \<Rightarrow> RegionCreateOption" where
  "SetPeers peers region = upd_meta (\<lambda>m. m\<lparr>Region_Peers := peers\<rparr>) region"

definition WithAddPeer :: "metapb_Peer \<Rightarrow> RegionCreateOption" where
  "WithAddPeer peer region =
     (let region = upd_meta (\<lambda>m. m\<lparr>Region_Peers := Region_Peers m @ [peer]\<rparr>) region
      in if Peer_IsLearner peer then region\<lparr>ri_learners := ri_learners region @ [peer]\<rparr>
         else region\<lparr>ri_voters := ri_voters region @ [peer]\<rparr>)"

definition WithPromoteLearner :: "u64 \<Rightarrow> RegionCreateOption" where
  "WithPromoteLearner peerID region =
     upd_meta (\<lambda>m. m\<lparr>Region_Peers :=
       map (\<lambda>p. if Peer_Id p = peerID then p\<lparr>Peer_IsLearner := False\<rparr> else p)
         (Region_Peers m)\<rparr>) region"

lemmas region_option_defs =
  WithDownPeers_def WithPendingPeers_def WithLearners_def WithLeader_def WithStartKey_def
  WithEndKey_def WithNewRegionID_def WithNewPeerIds_def WithIncVersion_def WithDecVersion_def
  WithIncConfVer_def WithDecConfVer_def SetWrittenBytes_def WithRemoveStorePeer_def
  SetReadBytes_def SetApproximateSize_def SetApproximateKeys_def SetRegionConfVer_def
  SetRegionVersion_def SetPeers_def WithAddPeer_def WithPromoteLearner_def

subsection \<open>The classification invariant\<close>

text \<open>\<open>voters\<close> and \<open>learners\<close> split the peers of the metadata, in order.\<close>

definition region_classified :: "RegionInfo \<Rightarrow> bool" where
  "region_classified r \<longleftrightarrow>
     ri_voters r = filter (\<lambda>p. \<not> Peer_IsLearner p) (Region_Peers (ri_meta r)) \<and>
     ri_learners r = filter Peer_IsLearner (Region_Peers (ri_meta r))"

lemma classify_loop_eq:
  "classify_loop ls vs ps = (ls @ filter Peer_IsLearner ps, vs @ filter (\<lambda>p. \<not> Peer_IsLearner p) ps)"
  by (induction ps arbitrary: ls vs) auto

lemma classifyVoterAndLearner_eq:
  "classifyVoterAndLearner r = r
     \<lparr>ri_learners := filter Peer_IsLearner (Region_Peers (ri_meta r)),
      ri_voters := filter (\<lambda>p. \<not> Peer_IsLearner p) (Region_Peers (ri_meta r))\<rparr>"
  by (simp add: classifyVoterAndLearner_def classify_loop_eq)

lemma classifyVoterAndLearner_classified: "region_classified (classifyVoterAndLearner r)"
  by (simp add: classifyVoterAndLearner_eq region_classified_def)

lemma Clone_classified: "region_classified (RegionInfo_Clone r opts)"
  by (simp add: RegionInfo_Clone_def classifyVoterAndLearner_classified)

lemma NewRegionInfo_classified: "region_classified (NewRegionInfo m l opts)"
  by (simp add: NewRegionInfo_def classifyVoterAndLearner_classified)

lemma RegionFromHeartbeat_classified: "RegionFromHeartbeat hb = Some r \<Longrightarrow> region_classified r"
  by (auto simp: RegionFromHeartbeat_def Let_def classifyVoterAndLearner_classified
      split: option.splits)

lemma classified_voters_subset: "region_classified r \<Longrightarrow> p \<in> set (ri_voters r) \<Longrightarrow>
    p \<in> set (Region_Peers (ri_meta r))"
  by (auto simp: region_classified_def)

lemma classified_learners_subset: "region_classified r \<Longrightarrow> p \<in> set (ri_learners r) \<Longrightarrow>
    p \<in> set (Region_Peers (ri_meta r))"
  by (auto simp: region_classified_def)

end
