(* ===== verification/RegionTree.thy ===== *)
theory RegionTree
  imports Ordered_Tree Region
begin

text \<open>
  \<open>server/core/region_tree.go\<close>: the index from keys to regions, a B-tree of region metadata
  ordered by start key. The B-tree package is the argument \<open>bt\<close> of every operation.

  A region covers the keys from its start key up to, and excluding, its end key; an empty end
  key means no upper bound. The invariant \<open>tree_inv\<close> says that the tree is in order, that every
  range is non-empty and that ranges do not overlap; under it \<open>update\<close> evicts exactly the
  overlapping regions, and the searches return exactly the region that covers a key.
\<close>

subsection \<open>The code\<close>

datatype regionItem = RegionItem (item_region: metapb_Region)

definition regionItem_Less :: "regionItem \<Rightarrow> regionItem \<Rightarrow> bool" where
  "regionItem_Less r other \<longleftrightarrow>
     (let left = Region_StartKey (item_region r);
          right = Region_StartKey (item_region other)
      in bytes_Compare left right < 0)"

definition regionItem_Contains :: "regionItem \<Rightarrow> bytes \<Rightarrow> bool" where
  "regionItem_Contains r key \<longleftrightarrow>
     (let start = Region_StartKey (item_region r); end' = Region_EndKey (item_region r)
      in bytes_Compare key start \<ge> 0 \<and> (length end' = 0 \<or> bytes_Compare key end' < 0))"

definition defaultBTreeDegree :: nat where
  "defaultBTreeDegree = 64"

text \<open>A probe item: a region of which only the start key is set.\<close>

definition key_region :: "bytes \<Rightarrow> metapb_Region" where
  "key_region key = \<lparr>Region_Id = 0, Region_StartKey = key, Region_EndKey = [],
     Region_RegionEpoch = None, Region_Peers = []\<rparr>"

type_synonym 't region_btree = "('t, regionItem) btree"

definition newRegionTree :: "'t region_btree \<Rightarrow> 't" where
  "newRegionTree bt = bt_New bt defaultBTreeDegree"

definition regionTree_length :: "'t region_btree \<Rightarrow> 't \<Rightarrow> nat" where
  "regionTree_length bt t = bt_Len bt t"

definition regionTree_find :: "'t region_btree \<Rightarrow> 't \<Rightarrow> metapb_Region \<Rightarrow> regionItem option" where
  "regionTree_find bt t region =
     (let item = RegionItem region;
          result = (case bt_DescendLessOrEqual bt t item of [] \<Rightarrow> None | i # _ \<Rightarrow> Some i)
      in case result of
           None \<Rightarrow> None
         | Some i \<Rightarrow> if \<not> regionItem_Contains i (Region_StartKey region) then None else Some i)"

text \<open>The callback of \<open>getOverlaps\<close> over the items still to be visited.\<close>

fun overlaps_loop :: "metapb_Region \<Rightarrow> metapb_Region list \<Rightarrow> regionItem list \<Rightarrow> metapb_Region list" where
  "overlaps_loop region overlaps [] = overlaps"
| "overlaps_loop region overlaps (over # is) =
     (if length (Region_EndKey region) > 0 \<and>
         bytes_Compare (Region_EndKey region) (Region_StartKey (item_region over)) \<le> 0
      then overlaps
      else overlaps_loop region (overlaps @ [item_region over]) is)"

definition regionTree_getOverlaps :: "'t region_btree \<Rightarrow> 't \<Rightarrow> metapb_Region \<Rightarrow> metapb_Region list" where
  "regionTree_getOverlaps bt t region =
     (let item = RegionItem region;
          result = (case regionTree_find bt t region of None \<Rightarrow> item | Some i \<Rightarrow> i)
      in overlaps_loop region [] (bt_AscendGreaterOrEqual bt t result))"

definition regionTree_update ::
    "'t region_btree \<Rightarrow> 't \<Rightarrow> metapb_Region \<Rightarrow> 't \<times> metapb_Region list" where
  "regionTree_update bt t region =
     (let overlaps = regionTree_getOverlaps bt t region;
          t = fold (\<lambda>item t. bt_Delete bt t (RegionItem item)) overlaps t;
          t = bt_ReplaceOrInsert bt t (RegionItem region)
      in (t, overlaps))"

definition regionTree_remove :: "'t region_btree \<Rightarrow> 't \<Rightarrow> metapb_Region \<Rightarrow> 't" where
  "regionTree_remove bt t region =
     (case regionTree_find bt t region of
        None \<Rightarrow> t
      | Some result \<Rightarrow> if Region_Id (item_region result) \<noteq> Region_Id region then t
                       else bt_Delete bt t result)"

definition regionTree_search :: "'t region_btree \<Rightarrow> 't \<Rightarrow> bytes \<Rightarrow> metapb_Region option" where
  "regionTree_search bt t regionKey =
     (case regionTree_find bt t (key_region regionKey) of
        None \<Rightarrow> None
      | Some result \<Rightarrow> Some (item_region result))"

text \<open>The first item visited whose start key differs from the pivot's.\<close>

definition first_other :: "bytes \<Rightarrow> regionItem list \<Rightarrow> regionItem option" where
  "first_other key is =
     (case dropWhile (\<lambda>i. key = Region_StartKey (item_region i)) is of
        [] \<Rightarrow> None | i # _ \<Rightarrow> Some i)"

definition regionTree_getAdjacentRegions ::
    "'t region_btree \<Rightarrow> 't \<Rightarrow> metapb_Region \<Rightarrow> regionItem option \<times> regionItem option" where
  "regionTree_getAdjacentRegions bt t region =
     (let item = RegionItem (key_region (Region_StartKey region));
          next = first_other (Region_StartKey region) (bt_AscendGreaterOrEqual bt t item);
          prev = first_other (Region_StartKey region) (bt_DescendLessOrEqual bt t item)
      in (prev, next))"

definition regionTree_searchPrev :: "'t region_btree \<Rightarrow> 't \<Rightarrow> bytes \<Rightarrow> metapb_Region option" where
  "regionTree_searchPrev bt t regionKey =
     (case regionTree_find bt t (key_region regionKey) of
        None \<Rightarrow> None
      | Some curRegionItem \<Rightarrow>
          (case fst (regionTree_getAdjacentRegions bt t (item_region curRegionItem)) of
             None \<Rightarrow> None
           | Some prevRegionItem \<Rightarrow>
               if Region_EndKey (item_region prevRegionItem) \<noteq>
                  Region_StartKey (item_region curRegionItem)
               then None else Some (item_region prevRegionItem)))"

text \<open>
  \<open>scanRange\<close> feeds a callback with state \<open>'s\<close>, which says after each region whether to go on.
\<close>

fun scan_loop :: "('s \<Rightarrow> metapb_Region \<Rightarrow> 's \<times> bool) \<Rightarrow> 's \<Rightarrow> regionItem list \<Rightarrow> 's" where
  "scan_loop f s [] = s"
| "scan_loop f s (i # is) =
     (case f s (item_region i) of (s, continue) \<Rightarrow> if continue then scan_loop f s is else s)"

definition regionTree_scanRange ::
    "'t region_btree \<Rightarrow> 't \<Rightarrow> bytes \<Rightarrow> ('s \<Rightarrow> metapb_Region \<Rightarrow> 's \<times> bool) \<Rightarrow> 's \<Rightarrow> 's" where
  "regionTree_scanRange bt t startKey f s =
     scan_loop f s (bt_AscendGreaterOrEqual bt t (RegionItem (key_region startKey)))"

subsection \<open>Ranges\<close>

definition range_ok :: "metapb_Region \<Rightarrow> bool" where
  "range_ok r \<longleftrightarrow> Region_EndKey r = [] \<or> Region_StartKey r < Region_EndKey r"

definition covers :: "metapb_Region \<Rightarrow> bytes \<Rightarrow> bool" where
  "covers r k \<longleftrightarrow> Region_StartKey r \<le> k \<and> (Region_EndKey r = [] \<or> k < Region_EndKey r)"

text \<open>\<open>ends_before a b\<close>: everything \<open>a\<close> covers is below the start of \<open>b\<close>.\<close>

definition ends_before :: "metapb_Region \<Rightarrow> metapb_Region \<Rightarrow> bool" where
  "ends_before a b \<longleftrightarrow> Region_EndKey a \<noteq> [] \<and> Region_EndKey a \<le> Region_StartKey b"

definition overlaps :: "metapb_Region \<Rightarrow> metapb_Region \<Rightarrow> bool" where
  "overlaps a b \<longleftrightarrow> \<not> ends_before a b \<and> \<not> ends_before b a"

definition tree_regions :: "'t region_btree \<Rightarrow> 't \<Rightarrow> metapb_Region list" where
  "tree_regions bt t = map item_region (bt_Ascend bt t)"

definition tree_inv :: "'t region_btree \<Rightarrow> 't \<Rightarrow> bool" where
  "tree_inv bt t \<longleftrightarrow> sorted_wrt ends_before (tree_regions bt t) \<and> list_all range_ok (tree_regions bt t)"

lemma overlaps_iff_common_key:
  assumes "range_ok a" "range_ok b"
  shows "overlaps a b \<longleftrightarrow> (\<exists>k. covers a k \<and> covers b k)"
proof
  assume "overlaps a b"
  then have "covers a (max (Region_StartKey a) (Region_StartKey b)) \<and>
             covers b (max (Region_StartKey a) (Region_StartKey b))"
    using assms by (auto simp: overlaps_def ends_before_def covers_def range_ok_def max_def not_le)
  then show "\<exists>k. covers a k \<and> covers b k" ..
qed (auto simp: overlaps_def ends_before_def covers_def)

lemma overlaps_sym: "overlaps a b \<longleftrightarrow> overlaps b a"
  by (auto simp: overlaps_def)

lemma overlaps_refl: "range_ok a \<Longrightarrow> overlaps a a"
  by (auto simp: overlaps_def ends_before_def range_ok_def)

lemma ends_before_start: "range_ok a \<Longrightarrow> ends_before a b \<Longrightarrow> Region_StartKey a < Region_StartKey b"
  by (auto simp: ends_before_def range_ok_def)

lemma apart_below_iff:
  assumes "range_ok r" "range_ok x"
  shows "(\<not> overlaps r x \<and> Region_StartKey x < Region_StartKey r) = ends_before x r"
  using assms ends_before_start [of x r] ends_before_start [of r x] by (auto simp: overlaps_def)

lemma apart_above_iff:
  assumes "range_ok r" "range_ok x"
  shows "(\<not> overlaps r x \<and> Region_StartKey r < Region_StartKey x) = ends_before r x"
  using assms ends_before_start [of x r] ends_before_start [of r x] by (auto simp: overlaps_def)

lemma Contains_covers: "regionItem_Contains i k \<longleftrightarrow> covers (item_region i) k"
  by (auto simp: regionItem_Contains_def covers_def bytes_simps Let_def)

lemma Less_start: "regionItem_Less a b \<longleftrightarrow>
    Region_StartKey (item_region a) < Region_StartKey (item_region b)"
  by (simp add: regionItem_Less_def bytes_simps Let_def)

lemma key_region_simps [simp]:
  "Region_StartKey (key_region k) = k" "Region_EndKey (key_region k) = []"
  by (simp_all add: key_region_def)

lemma overlaps_loop_takeWhile:
  "overlaps_loop r acc is = acc @ takeWhile (\<lambda>x. \<not> ends_before r x) (map item_region is)"
  by (induction "is" arbitrary: acc) (auto simp: ends_before_def bytes_simps)

text \<open>The list of non-overlapping ranges is determined by its set.\<close>

lemma ends_before_sorted_filter:
  "sorted_wrt ends_before xs \<Longrightarrow> sorted_wrt ends_before (filter P xs)"
  by (rule sorted_wrt_filter)

lemma sorted_ends_before_inj:
  assumes "sorted_wrt ends_before xs" "list_all range_ok xs" "a \<in> set xs" "b \<in> set xs"
    and "covers a k" "covers b k"
  shows "a = b"
  using assms
proof (induction xs)
  case (Cons x xs)
  then show ?case
    by (auto simp: ends_before_def covers_def)
qed simp

lemma sorted_ends_before_start:
  assumes "sorted_wrt ends_before xs" "list_all range_ok xs"
  shows "sorted_wrt (\<lambda>a b. Region_StartKey a < Region_StartKey b) xs"
  using assms by (induction xs) (auto dest: ends_before_start)


lemma tree_inv_start_inj:
  assumes "tree_inv bt t" "a \<in> set (tree_regions bt t)" "b \<in> set (tree_regions bt t)"
    and "Region_StartKey a = Region_StartKey b"
  shows "a = b"
proof -
  have ok: "range_ok a" "range_ok b"
    using assms(1-3) by (auto simp: tree_inv_def list_all_iff)
  then have "covers a (Region_StartKey a)" "covers b (Region_StartKey a)"
    using assms(4) by (auto simp: covers_def range_ok_def)
  with assms show ?thesis
    unfolding tree_inv_def by (blast intro: sorted_ends_before_inj)
qed

lemma tree_inv_ends_before:
  assumes "tree_inv bt t" "a \<in> set (tree_regions bt t)" "b \<in> set (tree_regions bt t)"
    and "Region_StartKey a < Region_StartKey b"
  shows "ends_before a b"
proof -
  have "sorted_wrt ends_before xs \<Longrightarrow> list_all range_ok xs \<Longrightarrow> a \<in> set xs \<Longrightarrow> b \<in> set xs \<Longrightarrow>
      ends_before a b" for xs
    using assms(4)
  proof (induction xs)
    case (Cons x xs)
    then show ?case
      using ends_before_start [of x a] by (auto simp: list_all_iff)
  qed simp
  with assms(1-3) show ?thesis unfolding tree_inv_def by blast
qed

text \<open>When \<open>i\<close> covers the start of \<open>r\<close>, the regions from \<open>i\<close> on are those not wholly below \<open>r\<close>.\<close>

lemma covering_start_iff:
  assumes inv: "tree_inv bt t"
    and i: "i \<in> set (tree_regions bt t)" and x: "x \<in> set (tree_regions bt t)"
    and c: "covers i (Region_StartKey r)"
  shows "Region_StartKey i \<le> Region_StartKey x \<longleftrightarrow> \<not> ends_before x r"
proof (cases "Region_StartKey x" "Region_StartKey i" rule: linorder_cases)
  case less
  from tree_inv_ends_before [OF inv x i less] less c show ?thesis
    by (auto simp: ends_before_def covers_def)
next
  case equal
  with tree_inv_start_inj [OF inv x i equal] c show ?thesis
    by (auto simp: ends_before_def covers_def)
next
  case greater
  have "range_ok x" using inv x by (auto simp: tree_inv_def list_all_iff)
  with tree_inv_ends_before [OF inv i x greater] greater c show ?thesis
    by (auto simp: ends_before_def covers_def range_ok_def)
qed

subsection \<open>The contract of the index\<close>

text \<open>
  What the users of the tree rely on, in terms of the list of its regions. Every law is an
  equation for the list the operation leaves or returns.
\<close>

locale region_index =
  fixes bt :: "'t region_btree"
  assumes new_regions: "tree_regions bt (newRegionTree bt) = []"
    and length_regions: "tree_inv bt t \<Longrightarrow> regionTree_length bt t = length (tree_regions bt t)"
    and find_regions: "tree_inv bt t \<Longrightarrow>
      map_option item_region (regionTree_find bt t r) =
        List.find (\<lambda>x. covers x (Region_StartKey r)) (tree_regions bt t)"
    and getOverlaps_regions: "tree_inv bt t \<Longrightarrow> range_ok r \<Longrightarrow>
      regionTree_getOverlaps bt t r = filter (overlaps r) (tree_regions bt t)"
    and update_regions: "tree_inv bt t \<Longrightarrow> range_ok r \<Longrightarrow>
      tree_regions bt (fst (regionTree_update bt t r)) =
        filter (\<lambda>x. ends_before x r) (tree_regions bt t) @ r # filter (ends_before r) (tree_regions bt t)"
    and remove_regions: "tree_inv bt t \<Longrightarrow>
      tree_regions bt (regionTree_remove bt t r) =
        filter (\<lambda>x. \<not> (covers x (Region_StartKey r) \<and> Region_Id x = Region_Id r)) (tree_regions bt t)"
    and adjacent_regions: "tree_inv bt t \<Longrightarrow>
      map_prod (map_option item_region) (map_option item_region) (regionTree_getAdjacentRegions bt t r) =
        (List.find (\<lambda>x. Region_StartKey x < Region_StartKey r) (rev (tree_regions bt t)),
         List.find (\<lambda>x. Region_StartKey r < Region_StartKey x) (tree_regions bt t))"
    and scan_items: "tree_inv bt t \<Longrightarrow>
      bt_AscendGreaterOrEqual bt t (RegionItem (key_region k)) =
        map RegionItem (filter (\<lambda>x. k \<le> Region_StartKey x) (tree_regions bt t))"
begin

lemma new_inv: "tree_inv bt (newRegionTree bt)"
  by (simp add: tree_inv_def new_regions)

lemma update_inv:
  assumes "tree_inv bt t" "range_ok r"
  shows "tree_inv bt (fst (regionTree_update bt t r))"
proof -
  have "ends_before a b" if "ends_before a r" "ends_before r b" for a b
    using that assms(2) by (auto simp: ends_before_def range_ok_def)
  then show ?thesis
    using assms unfolding tree_inv_def update_regions [OF assms]
    by (auto simp: sorted_wrt_append sorted_wrt_filter list_all_iff)
qed

lemma update_overlaps:
  assumes "tree_inv bt t" "range_ok r"
  shows "snd (regionTree_update bt t r) = filter (overlaps r) (tree_regions bt t)"
  by (simp add: regionTree_update_def Let_def getOverlaps_regions [OF assms])

lemma set_update:
  assumes "tree_inv bt t" "range_ok r"
  shows "set (tree_regions bt (fst (regionTree_update bt t r))) =
    insert r {x \<in> set (tree_regions bt t). \<not> overlaps r x}"
  by (auto simp: update_regions [OF assms] overlaps_def)

lemma remove_inv: "tree_inv bt t \<Longrightarrow> tree_inv bt (regionTree_remove bt t r)"
  unfolding tree_inv_def by (auto simp: remove_regions tree_inv_def sorted_wrt_filter list_all_iff)

lemma remove_noop:
  assumes "tree_inv bt t"
    and "\<And>x. x \<in> set (tree_regions bt t) \<Longrightarrow> Region_Id x = Region_Id r \<Longrightarrow> \<not> covers x (Region_StartKey r)"
  shows "regionTree_remove bt t r = t"
proof (cases "regionTree_find bt t r")
  case (Some i)
  with find_regions [OF assms(1), of r]
  have "List.find (\<lambda>x. covers x (Region_StartKey r)) (tree_regions bt t) = Some (item_region i)" by simp
  from find_Some_set [OF this] assms(2) have "Region_Id (item_region i) \<noteq> Region_Id r" by blast
  with Some show ?thesis by (simp add: regionTree_remove_def)
qed (simp add: regionTree_remove_def)

lemma search_regions:
  "tree_inv bt t \<Longrightarrow>
     regionTree_search bt t k = List.find (\<lambda>x. covers x k) (tree_regions bt t)"
  using find_regions [of t "key_region k"]
  by (auto simp: regionTree_search_def split: option.splits)

text \<open>The search returns exactly the region that covers the key.\<close>

lemma search_iff:
  assumes "tree_inv bt t"
  shows "regionTree_search bt t k = Some r \<longleftrightarrow> r \<in> set (tree_regions bt t) \<and> covers r k"
proof
  assume "regionTree_search bt t k = Some r"
  then show "r \<in> set (tree_regions bt t) \<and> covers r k"
    unfolding search_regions [OF assms] by (rule find_Some_set)
next
  assume r: "r \<in> set (tree_regions bt t) \<and> covers r k"
  then obtain x where x: "List.find (\<lambda>x. covers x k) (tree_regions bt t) = Some x"
    by (metis find_None_iff not_None_eq)
  then have "x \<in> set (tree_regions bt t) \<and> covers x k" by (rule find_Some_set)
  with r assms have "x = r"
    unfolding tree_inv_def by (blast intro: sorted_ends_before_inj)
  with x show "regionTree_search bt t k = Some r" by (simp add: search_regions [OF assms])
qed

lemma search_None_iff:
  assumes "tree_inv bt t"
  shows "regionTree_search bt t k = None \<longleftrightarrow> (\<forall>r \<in> set (tree_regions bt t). \<not> covers r k)"
  by (auto simp: search_regions [OF assms] find_None_iff)

lemma find_search: "tree_inv bt t \<Longrightarrow>
    map_option item_region (regionTree_find bt t (key_region k)) = regionTree_search bt t k"
  by (simp add: search_regions find_regions)

lemma prev_iff:
  assumes "tree_inv bt t" "c \<in> set (tree_regions bt t)"
  shows "map_option item_region (fst (regionTree_getAdjacentRegions bt t c)) = Some p \<and>
      Region_EndKey p = Region_StartKey c \<longleftrightarrow>
    p \<in> set (tree_regions bt t) \<and> Region_EndKey p \<noteq> [] \<and> Region_EndKey p = Region_StartKey c"
proof -
  let ?P = "\<lambda>x. Region_StartKey x < Region_StartKey c"
  have fst: "map_option item_region (fst (regionTree_getAdjacentRegions bt t c)) =
      List.find ?P (rev (tree_regions bt t))"
    using adjacent_regions [OF assms(1), of c] by (metis fst_conv fst_map_prod)
  show ?thesis unfolding fst
  proof safe
    assume f: "List.find ?P (rev (tree_regions bt t)) = Some p"
    show "p \<in> set (tree_regions bt t)" using find_Some_set [OF f] by simp
    assume "Region_EndKey p = Region_StartKey c" "Region_EndKey p = []"
    then show False using find_Some_set [OF f] by simp
  next
    assume p: "p \<in> set (tree_regions bt t)" "Region_EndKey p \<noteq> []" "Region_EndKey p = Region_StartKey c"
    then have lt: "?P p" using assms(1) by (auto simp: tree_inv_def list_all_iff range_ok_def)
    then obtain q where q: "List.find ?P (rev (tree_regions bt t)) = Some q"
      using find_exists [of p "rev (tree_regions bt t)" ?P] p(1) by auto
    have "\<not> ends_before p q" using find_Some_set [OF q] p by (auto simp: ends_before_def)
    then have "p = q" using find_rev_sorted_last [OF _ q p(1) lt] assms(1) by (auto simp: tree_inv_def)
    with q show "List.find ?P (rev (tree_regions bt t)) = Some p" by simp
  qed
qed

lemma searchPrev_iff:
  assumes "tree_inv bt t"
  shows "regionTree_searchPrev bt t k = Some p \<longleftrightarrow>
    p \<in> set (tree_regions bt t) \<and>
    (\<exists>cur \<in> set (tree_regions bt t). covers cur k \<and>
       Region_EndKey p \<noteq> [] \<and> Region_EndKey p = Region_StartKey cur)"
proof (cases "regionTree_find bt t (key_region k)")
  case None
  then have "regionTree_search bt t k = None" by (simp add: regionTree_search_def)
  with None search_None_iff [OF assms] show ?thesis by (auto simp: regionTree_searchPrev_def)
next
  case (Some i)
  then have s: "regionTree_search bt t k = Some (item_region i)" by (simp add: regionTree_search_def)
  then have i: "item_region i \<in> set (tree_regions bt t)" "covers (item_region i) k"
    by (simp_all add: search_iff [OF assms])
  have "regionTree_searchPrev bt t k = Some p \<longleftrightarrow>
      map_option item_region (fst (regionTree_getAdjacentRegions bt t (item_region i))) = Some p \<and>
      Region_EndKey p = Region_StartKey (item_region i)"
    using Some by (auto simp: regionTree_searchPrev_def split: option.splits)
  also have "\<dots> \<longleftrightarrow> p \<in> set (tree_regions bt t) \<and> Region_EndKey p \<noteq> [] \<and>
      Region_EndKey p = Region_StartKey (item_region i)"
    by (rule prev_iff [OF assms i(1)])
  also have "\<dots> \<longleftrightarrow> p \<in> set (tree_regions bt t) \<and>
    (\<exists>cur \<in> set (tree_regions bt t). covers cur k \<and>
       Region_EndKey p \<noteq> [] \<and> Region_EndKey p = Region_StartKey cur)"
    using i s search_iff [OF assms, of k] by (metis option.inject)
  finally show ?thesis .
qed

end

subsection \<open>Every conforming B-tree gives the contract\<close>

locale region_tree = btree_contract bt regionItem_Less for bt :: "'t region_btree"
begin

lemma tree_inv_ordered: "tree_inv bt t \<Longrightarrow> bt_ordered bt regionItem_Less t"
  unfolding bt_ordered_def tree_inv_def tree_regions_def
  using sorted_ends_before_start [of "map item_region (bt_Ascend bt t)"]
  by (simp add: sorted_wrt_map Less_start [abs_def])

lemma find_item_covers:
  assumes "tree_inv bt t" "regionTree_find bt t r = Some i"
  shows "i \<in> set (bt_Ascend bt t)" "covers (item_region i) (Region_StartKey r)"
  using assms(2) DescendLessOrEqual_Cons(1) [OF tree_inv_ordered [OF assms(1)]]
  by (auto simp: regionTree_find_def Let_def Contains_covers split: list.splits if_splits)

lemma find_None_covers:
  assumes "tree_inv bt t" "regionTree_find bt t r = None" "x \<in> set (tree_regions bt t)"
  shows "\<not> covers x (Region_StartKey r)"
proof (cases "bt_DescendLessOrEqual bt t (RegionItem r)")
  case Nil
  then have "\<forall>i \<in> set (bt_Ascend bt t). regionItem_Less (RegionItem r) i"
    by (simp add: DescendLessOrEqual_Nil [OF tree_inv_ordered [OF assms(1)]])
  with assms(3) show ?thesis by (auto simp: tree_regions_def Less_start covers_def)
next
  case (Cons i tail)
  note D = DescendLessOrEqual_Cons [OF tree_inv_ordered [OF assms(1)] Cons]
  from Cons assms(2) have nc: "\<not> covers (item_region i) (Region_StartKey r)"
    by (simp add: regionTree_find_def Contains_covers split: if_splits)
  from assms(3) obtain j where j: "j \<in> set (bt_Ascend bt t)" "x = item_region j"
    by (auto simp: tree_regions_def)
  show ?thesis
  proof
    assume c: "covers x (Region_StartKey r)"
    then have "\<not> regionItem_Less (RegionItem r) j" by (simp add: Less_start j covers_def not_less)
    with D(3) [OF j(1)] c nc j(2) have "Region_StartKey x < Region_StartKey (item_region i)"
      by (auto simp: Less_start)
    then have "ends_before x (item_region i)"
      using tree_inv_ends_before [OF assms(1,3)] D(1) by (simp add: tree_regions_def)
    with D(2) c show False by (auto simp: ends_before_def covers_def Less_start)
  qed
qed

lemma find_spec:
  assumes "tree_inv bt t"
  shows "map_option item_region (regionTree_find bt t r) =
    List.find (\<lambda>x. covers x (Region_StartKey r)) (tree_regions bt t)"
proof (cases "regionTree_find bt t r")
  case None
  with find_None_covers [OF assms None] show ?thesis
    by (simp add: find_None_iff eq_commute [of None])
next
  case (Some i)
  note c = find_item_covers [OF assms Some]
  then have i: "item_region i \<in> set (tree_regions bt t)" by (simp add: tree_regions_def)
  with c obtain x where x: "List.find (\<lambda>x. covers x (Region_StartKey r)) (tree_regions bt t) = Some x"
    by (metis find_None_iff not_None_eq)
  with find_Some_set [OF x] c i assms have "x = item_region i"
    unfolding tree_inv_def by (blast intro: sorted_ends_before_inj)
  with x Some show ?thesis by simp
qed

lemma AscendGE_regions:
  assumes "tree_inv bt t"
  shows "map item_region (bt_AscendGreaterOrEqual bt t i) =
    filter (\<lambda>x. Region_StartKey (item_region i) \<le> Region_StartKey x) (tree_regions bt t)"
  by (simp add: AscendGreaterOrEqual [OF tree_inv_ordered [OF assms]] tree_regions_def filter_map
      comp_def Less_start not_less)

lemma getOverlaps_spec:
  assumes "tree_inv bt t" "range_ok r"
  shows "regionTree_getOverlaps bt t r = filter (overlaps r) (tree_regions bt t)"
proof -
  define res where "res = (case regionTree_find bt t r of None \<Rightarrow> RegionItem r | Some i \<Rightarrow> i)"
  let ?s = "Region_StartKey (item_region res)"
  have ok: "range_ok x" if "x \<in> set (tree_regions bt t)" for x
    using that assms(1) by (auto simp: tree_inv_def list_all_iff)
  have "takeWhile (\<lambda>x. \<not> ends_before r x) (filter (\<lambda>x. ?s \<le> Region_StartKey x) (tree_regions bt t))
      = filter (\<lambda>x. \<not> ends_before r x) (filter (\<lambda>x. ?s \<le> Region_StartKey x) (tree_regions bt t))"
    using sorted_ends_before_start [of "tree_regions bt t"] assms(1)
    by (intro takeWhile_filter_sorted [where R = "\<lambda>a b. Region_StartKey a < Region_StartKey b"])
      (auto simp: tree_inv_def sorted_wrt_filter ends_before_def)
  then have "regionTree_getOverlaps bt t r =
      filter (\<lambda>x. \<not> ends_before r x \<and> ?s \<le> Region_StartKey x) (tree_regions bt t)"
    by (simp add: regionTree_getOverlaps_def overlaps_loop_takeWhile AscendGE_regions [OF assms(1)]
        Let_def res_def [symmetric] conj_commute)
  also have "\<dots> = filter (overlaps r) (tree_regions bt t)"
  proof (rule filter_cong [OF refl])
    fix x assume x: "x \<in> set (tree_regions bt t)"
    have "?s \<le> Region_StartKey x \<longleftrightarrow> \<not> ends_before x r"
    proof (cases "regionTree_find bt t r")
      case None
      with find_None_covers [OF assms(1) None x] ok [OF x] show ?thesis
        by (auto simp: res_def covers_def ends_before_def range_ok_def)
    next
      case (Some i)
      note c = find_item_covers [OF assms(1) Some]
      have i: "item_region i \<in> set (tree_regions bt t)" using c(1) by (simp add: tree_regions_def)
      from covering_start_iff [OF assms(1) i x c(2)] Some show ?thesis by (simp add: res_def)
    qed
    then show "(\<not> ends_before r x \<and> ?s \<le> Region_StartKey x) = overlaps r x"
      by (auto simp: overlaps_def)
  qed
  finally show ?thesis .
qed

lemma fold_Delete:
  assumes "bt_ordered bt regionItem_Less t"
  shows "bt_ordered bt regionItem_Less (fold (\<lambda>d t. bt_Delete bt t (RegionItem d)) ds t)"
    and "map item_region (bt_Ascend bt (fold (\<lambda>d t. bt_Delete bt t (RegionItem d)) ds t)) =
      filter (\<lambda>x. Region_StartKey x \<notin> Region_StartKey ` set ds) (map item_region (bt_Ascend bt t))"
proof -
  have "bt_ordered bt regionItem_Less (fold (\<lambda>d t. bt_Delete bt t (RegionItem d)) ds t) \<and>
    map item_region (bt_Ascend bt (fold (\<lambda>d t. bt_Delete bt t (RegionItem d)) ds t)) =
      filter (\<lambda>x. Region_StartKey x \<notin> Region_StartKey ` set ds) (map item_region (bt_Ascend bt t))"
    using assms
  proof (induction ds arbitrary: t)
    case (Cons d ds)
    have "map item_region (bt_Ascend bt (bt_Delete bt t (RegionItem d))) =
        filter (\<lambda>x. Region_StartKey x \<noteq> Region_StartKey d) (map item_region (bt_Ascend bt t))"
      by (auto simp: Delete [OF Cons.prems] filter_map comp_def Less_start neq_iff
          intro!: arg_cong [where f = "map item_region"] filter_cong)
    with Cons.IH [OF ordered_Delete [OF Cons.prems, of "RegionItem d"]] show ?case
      by (simp add: conj_commute)
  qed simp
  then show "bt_ordered bt regionItem_Less (fold (\<lambda>d t. bt_Delete bt t (RegionItem d)) ds t)"
    and "map item_region (bt_Ascend bt (fold (\<lambda>d t. bt_Delete bt t (RegionItem d)) ds t)) =
      filter (\<lambda>x. Region_StartKey x \<notin> Region_StartKey ` set ds) (map item_region (bt_Ascend bt t))"
    by blast+
qed

lemma update_spec:
  assumes "tree_inv bt t" "range_ok r"
  shows "tree_regions bt (fst (regionTree_update bt t r)) =
    filter (\<lambda>x. ends_before x r) (tree_regions bt t) @ r # filter (ends_before r) (tree_regions bt t)"
proof -
  let ?xs = "tree_regions bt t"
  define t' where "t' = fold (\<lambda>d t. bt_Delete bt t (RegionItem d)) (filter (overlaps r) ?xs) t"
  note D = fold_Delete [OF tree_inv_ordered [OF assms(1)], of "filter (overlaps r) ?xs",
      folded t'_def]
  have ok: "range_ok x" if "x \<in> set ?xs" for x
    using that assms(1) by (auto simp: tree_inv_def list_all_iff)
  have "tree_regions bt t' =
      filter (\<lambda>x. Region_StartKey x \<notin> Region_StartKey ` set (filter (overlaps r) ?xs)) ?xs"
    using D(2) by (simp only: tree_regions_def)
  also have "\<dots> = filter (\<lambda>x. \<not> overlaps r x) ?xs"
  proof (rule filter_cong [OF refl])
    fix x assume x: "x \<in> set ?xs"
    have "overlaps r x" if "y \<in> set ?xs" "overlaps r y" "Region_StartKey x = Region_StartKey y" for y
      using tree_inv_start_inj [OF assms(1) x that(1,3)] that(2) by simp
    with x show "(Region_StartKey x \<notin> Region_StartKey ` set (filter (overlaps r) ?xs)) = (\<not> overlaps r x)"
      by auto
  qed
  finally have rest: "tree_regions bt t' = filter (\<lambda>x. \<not> overlaps r x) ?xs" .
  have "tree_regions bt (bt_ReplaceOrInsert bt t' (RegionItem r)) =
      filter (\<lambda>x. Region_StartKey x < Region_StartKey r) (tree_regions bt t') @ r #
      filter (\<lambda>x. Region_StartKey r < Region_StartKey x) (tree_regions bt t')"
    by (simp add: tree_regions_def ReplaceOrInsert [OF D(1)] filter_map comp_def Less_start [abs_def])
  also have "filter (\<lambda>x. Region_StartKey x < Region_StartKey r) (tree_regions bt t') =
      filter (\<lambda>x. ends_before x r) ?xs"
    unfolding rest filter_filter
    by (rule filter_cong [OF refl], rule apart_below_iff [OF assms(2) ok])
  also have "filter (\<lambda>x. Region_StartKey r < Region_StartKey x) (tree_regions bt t') =
      filter (ends_before r) ?xs"
    unfolding rest filter_filter
    by (rule filter_cong [OF refl], rule apart_above_iff [OF assms(2) ok])
  finally show ?thesis
    by (simp add: regionTree_update_def Let_def getOverlaps_spec [OF assms] t'_def)
qed

lemma remove_spec:
  assumes "tree_inv bt t"
  shows "tree_regions bt (regionTree_remove bt t r) =
    filter (\<lambda>x. \<not> (covers x (Region_StartKey r) \<and> Region_Id x = Region_Id r)) (tree_regions bt t)"
proof (cases "regionTree_find bt t r")
  case None
  with find_None_covers [OF assms None] show ?thesis
    by (auto simp: regionTree_remove_def intro!: filter_True [symmetric])
next
  case (Some i)
  note c = find_item_covers [OF assms Some]
  then have i: "item_region i \<in> set (tree_regions bt t)" by (simp add: tree_regions_def)
  have only: "x = item_region i" if "x \<in> set (tree_regions bt t)" "covers x (Region_StartKey r)" for x
    using assms that i c(2) unfolding tree_inv_def by (blast intro: sorted_ends_before_inj)
  have "tree_regions bt (bt_Delete bt t i) =
      filter (\<lambda>x. Region_StartKey x \<noteq> Region_StartKey (item_region i)) (tree_regions bt t)"
    by (auto simp: tree_regions_def Delete [OF tree_inv_ordered [OF assms]] filter_map comp_def
        Less_start neq_iff intro!: arg_cong [where f = "map item_region"] filter_cong)
  also have "\<dots> = filter (\<lambda>x. \<not> covers x (Region_StartKey r)) (tree_regions bt t)"
  proof (rule filter_cong [OF refl])
    fix x assume "x \<in> set (tree_regions bt t)"
    then show "(Region_StartKey x \<noteq> Region_StartKey (item_region i)) = (\<not> covers x (Region_StartKey r))"
      using only [of x] c(2) tree_inv_start_inj [OF assms _ i, of x] by metis
  qed
  finally have del: "tree_regions bt (bt_Delete bt t i) =
      filter (\<lambda>x. \<not> covers x (Region_StartKey r)) (tree_regions bt t)" .
  show ?thesis
  proof (cases "Region_Id (item_region i) = Region_Id r")
    case True
    have "filter (\<lambda>x. \<not> covers x (Region_StartKey r)) (tree_regions bt t) =
        filter (\<lambda>x. \<not> (covers x (Region_StartKey r) \<and> Region_Id x = Region_Id r)) (tree_regions bt t)"
      using only True by (intro filter_cong [OF refl]) blast
    with True Some del show ?thesis by (simp add: regionTree_remove_def)
  next
    case False
    have "filter (\<lambda>x. \<not> (covers x (Region_StartKey r) \<and> Region_Id x = Region_Id r)) (tree_regions bt t) =
        tree_regions bt t"
      using only False by (intro filter_True) blast
    with False Some show ?thesis by (simp add: regionTree_remove_def)
  qed
qed

lemma first_other_find:
  "map_option item_region (first_other k xs) =
     List.find (\<lambda>x. k \<noteq> Region_StartKey x) (map item_region xs)"
  by (induction xs) (auto simp: first_other_def)

lemma adjacent_spec:
  assumes "tree_inv bt t"
  shows "map_prod (map_option item_region) (map_option item_region)
      (regionTree_getAdjacentRegions bt t r) =
    (List.find (\<lambda>x. Region_StartKey x < Region_StartKey r) (rev (tree_regions bt t)),
     List.find (\<lambda>x. Region_StartKey r < Region_StartKey x) (tree_regions bt t))"
proof -
  let ?k = "Region_StartKey r"
  have find_filter: "List.find P (filter Q xs) = List.find (\<lambda>x. Q x \<and> P x) xs"
    for P Q and xs :: "metapb_Region list"
    by (induction xs) auto
  have "map item_region (bt_DescendLessOrEqual bt t (RegionItem (key_region ?k))) =
      rev (filter (\<lambda>x. Region_StartKey x \<le> ?k) (tree_regions bt t))"
    by (simp add: DescendLessOrEqual [OF tree_inv_ordered [OF assms]] tree_regions_def filter_map
        comp_def Less_start not_less rev_map)
  moreover have "(a \<le> b \<and> b \<noteq> a) = (a < b)" "(a \<le> b \<and> a \<noteq> b) = (a < b)" for a b :: bytes
    by auto
  ultimately show ?thesis
    by (simp add: regionTree_getAdjacentRegions_def Let_def first_other_find
        AscendGE_regions [OF assms] find_filter rev_filter)
qed

lemma scan_spec:
  assumes "tree_inv bt t"
  shows "bt_AscendGreaterOrEqual bt t (RegionItem (key_region k)) =
    map RegionItem (filter (\<lambda>x. k \<le> Region_StartKey x) (tree_regions bt t))"
proof -
  have items: "map RegionItem (map item_region xs) = xs" for xs by (induction xs) auto
  show ?thesis
    using arg_cong [OF AscendGE_regions [OF assms, of "RegionItem (key_region k)"],
        of "map RegionItem"]
    by (simp only: items key_region_simps regionItem.sel)
qed

end

sublocale region_tree \<subseteq> region_index bt
proof
  show "tree_regions bt (newRegionTree bt) = []"
    by (simp add: tree_regions_def newRegionTree_def New)
  show "tree_inv bt t \<Longrightarrow> regionTree_length bt t = length (tree_regions bt t)" for t
    by (simp add: regionTree_length_def tree_regions_def Len tree_inv_ordered)
qed (simp_all only: find_spec getOverlaps_spec update_spec remove_spec adjacent_spec scan_spec)

text \<open>
  The order of the items discharges the ordering laws of the package; with the sorted-list
  reading of the package the whole contract is inhabited.
\<close>

lemma region_treeI: "btree_contract bt regionItem_Less \<Longrightarrow> region_tree bt"
  by (simp add: region_tree_def)

interpretation region_list: region_tree "list_btree regionItem_Less"
  by (rule region_treeI, rule list_btree_contract) (auto simp: Less_start)

context region_tree
begin

lemma is_region_index: "region_index bt"
  by (rule region_index_axioms)

end

lemma region_tree_index: "btree_contract bt regionItem_Less \<Longrightarrow> region_index bt"
  by (rule region_tree.is_region_index [OF region_treeI])

subsection \<open>Histories\<close>

text \<open>The two operations that change a tree; a history is a sequence of them on a new tree.\<close>

datatype tree_op = TreeUpdate metapb_Region | TreeRemove metapb_Region

fun tree_apply :: "'t region_btree \<Rightarrow> tree_op \<Rightarrow> 't \<Rightarrow> 't" where
  "tree_apply bt (TreeUpdate r) t = fst (regionTree_update bt t r)"
| "tree_apply bt (TreeRemove r) t = regionTree_remove bt t r"

fun tree_op_ok :: "tree_op \<Rightarrow> bool" where
  "tree_op_ok (TreeUpdate r) \<longleftrightarrow> range_ok r"
| "tree_op_ok (TreeRemove r) \<longleftrightarrow> True"

definition tree_history :: "'t region_btree \<Rightarrow> tree_op list \<Rightarrow> 't" where
  "tree_history bt ops = fold (tree_apply bt) ops (newRegionTree bt)"

lemma tree_history_inv:
  assumes "btree_contract bt regionItem_Less" "list_all tree_op_ok ops"
  shows "tree_inv bt (tree_history bt ops)"
proof -
  note ri = region_tree_index [OF assms(1)]
  have "tree_inv bt t \<Longrightarrow> tree_op_ok op \<Longrightarrow> tree_inv bt (tree_apply bt op t)" for t op
    by (cases op) (simp_all add: region_index.update_inv [OF ri] region_index.remove_inv [OF ri])
  then have "tree_inv bt t \<Longrightarrow> tree_inv bt (fold (tree_apply bt) ops t)" for t
    using assms(2) by (induction ops arbitrary: t) simp_all
  then show ?thesis by (simp add: tree_history_def region_index.new_inv [OF ri])
qed

text \<open>Regions with only an id and a range, for closed instances.\<close>

definition sample_region :: "u64 \<Rightarrow> bytes \<Rightarrow> bytes \<Rightarrow> metapb_Region" where
  "sample_region i s e = \<lparr>Region_Id = i, Region_StartKey = s, Region_EndKey = e,
     Region_RegionEpoch = None, Region_Peers = []\<rparr>"

lemma list_region_contract: "btree_contract (list_btree regionItem_Less) regionItem_Less"
  by (rule list_btree_contract) (auto simp: Less_start)

subsection \<open>Properties\<close>

text \<open>
  (C14) \<open>regionTree.update\<close> on a well-formed tree and a non-empty range: the tree stays
  well formed, the regions returned are exactly the old ones that share a key with the new
  region, in key order, and the new tree holds the new region and every old one that shares no
  key with it.
\<close>
theorem regionTree_update_correct:
  assumes "btree_contract bt regionItem_Less" "tree_inv bt t" "range_ok r"
  shows "tree_inv bt (fst (regionTree_update bt t r)) \<and>
    snd (regionTree_update bt t r) =
      filter (\<lambda>x. overlaps r x) (tree_regions bt t) \<and>
    (\<forall>x. x \<in> set (tree_regions bt (fst (regionTree_update bt t r))) \<longleftrightarrow>
       x = r \<or> (x \<in> set (tree_regions bt t) \<and> (\<nexists>k. covers r k \<and> covers x k)))"
proof -
  note ri = region_tree_index [OF assms(1)]
  have "overlaps r x \<longleftrightarrow> (\<exists>k. covers r k \<and> covers x k)" if "x \<in> set (tree_regions bt t)" for x
    using that assms(2,3) by (intro overlaps_iff_common_key) (auto simp: tree_inv_def list_all_iff)
  then show ?thesis
    using region_index.update_inv [OF ri assms(2,3)] region_index.set_update [OF ri assms(2,3)]
      region_index.update_overlaps [OF ri assms(2,3)] by blast
qed

theorem regionTree_update_correct_witness:
  "let bt = list_btree regionItem_Less;
       t = [RegionItem (sample_region 1 [] [5]), RegionItem (sample_region 2 [5] [])];
       r = sample_region 3 [2] [7]
   in tree_inv bt t \<and> range_ok r \<and> tree_inv bt (fst (regionTree_update bt t r)) \<and>
      snd (regionTree_update bt t r) = [sample_region 1 [] [5], sample_region 2 [5] []]"
proof -
  let ?bt = "list_btree regionItem_Less"
  let ?t = "[RegionItem (sample_region 1 [] [5]), RegionItem (sample_region 2 [5] [])]"
  let ?r = "sample_region 3 [2] [7]"
  have h: "tree_inv ?bt ?t" "range_ok ?r" by code_simp+
  have "filter (\<lambda>x. overlaps ?r x) (tree_regions ?bt ?t) =
      [sample_region 1 [] [5], sample_region 2 [5] []]" by code_simp
  with regionTree_update_correct [OF list_region_contract h] h show ?thesis by simp
qed

text \<open>
  (C15) After any history of updates with non-empty ranges and of removals on a new tree,
  \<open>search\<close> returns a region exactly when it is stored and covers the key, and nothing exactly
  when no stored region covers it.
\<close>
theorem regionTree_search_history:
  assumes "btree_contract bt regionItem_Less" "list_all tree_op_ok ops"
  shows "(regionTree_search bt (tree_history bt ops) k = Some r \<longleftrightarrow>
      r \<in> set (tree_regions bt (tree_history bt ops)) \<and> covers r k) \<and>
    (regionTree_search bt (tree_history bt ops) k = None \<longleftrightarrow>
      \<not> (\<exists>r. r \<in> set (tree_regions bt (tree_history bt ops)) \<and> covers r k))"
  using region_index.search_iff [OF region_tree_index [OF assms(1)] tree_history_inv [OF assms]]
    region_index.search_None_iff [OF region_tree_index [OF assms(1)] tree_history_inv [OF assms]]
  by blast

theorem regionTree_search_history_witness:
  "regionTree_search (list_btree regionItem_Less)
     (tree_history (list_btree regionItem_Less)
        [TreeUpdate (sample_region 1 [] []), TreeUpdate (sample_region 2 [4] [8]),
         TreeRemove (sample_region 2 [4] [8]), TreeUpdate (sample_region 3 [1] [])]) [9] =
   Some (sample_region 3 [1] [])"
proof -
  let ?ops = "[TreeUpdate (sample_region 1 [] []), TreeUpdate (sample_region 2 [4] [8]),
     TreeRemove (sample_region 2 [4] [8]), TreeUpdate (sample_region 3 [1] [])]"
  have ok: "list_all tree_op_ok ?ops" by code_simp
  have "sample_region 3 [1] [] \<in> set (tree_regions (list_btree regionItem_Less)
      (tree_history (list_btree regionItem_Less) ?ops)) \<and> covers (sample_region 3 [1] []) [9]"
    by code_simp
  with regionTree_search_history [OF list_region_contract ok] show ?thesis by blast
qed

text \<open>
  \<open>searchPrev\<close> returns a region exactly when it ends where the region covering the key
  starts: a hole between the two yields nothing.
\<close>
theorem regionTree_searchPrev_correct:
  assumes "btree_contract bt regionItem_Less" "tree_inv bt t"
  shows "regionTree_searchPrev bt t k = Some p \<longleftrightarrow>
    p \<in> set (tree_regions bt t) \<and>
    (\<exists>cur \<in> set (tree_regions bt t). covers cur k \<and>
       Region_EndKey p \<noteq> [] \<and> Region_EndKey p = Region_StartKey cur)"
  by (rule region_index.searchPrev_iff [OF region_tree_index [OF assms(1)] assms(2)])

theorem regionTree_searchPrev_correct_witness:
  "let bt = list_btree regionItem_Less;
       t = [RegionItem (sample_region 1 [] [5]), RegionItem (sample_region 2 [5] [7]),
            RegionItem (sample_region 3 [8] [])]
   in regionTree_searchPrev bt t [6] = Some (sample_region 1 [] [5]) \<and>
      regionTree_searchPrev bt t [9] \<noteq> Some (sample_region 2 [5] [7])"
proof -
  let ?bt = "list_btree regionItem_Less"
  let ?t = "[RegionItem (sample_region 1 [] [5]), RegionItem (sample_region 2 [5] [7]),
     RegionItem (sample_region 3 [8] [])]"
  have h: "tree_inv ?bt ?t" by code_simp
  note C = regionTree_searchPrev_correct [OF list_region_contract h]
  have "sample_region 1 [] [5] \<in> set (tree_regions ?bt ?t) \<and>
    (\<exists>cur \<in> set (tree_regions ?bt ?t). covers cur [6] \<and>
       Region_EndKey (sample_region 1 [] [5]) \<noteq> [] \<and>
       Region_EndKey (sample_region 1 [] [5]) = Region_StartKey cur)" by code_simp
  moreover have "\<not> (\<exists>cur \<in> set (tree_regions ?bt ?t). covers cur [9] \<and>
       Region_EndKey (sample_region 2 [5] [7]) \<noteq> [] \<and>
       Region_EndKey (sample_region 2 [5] [7]) = Region_StartKey cur)" by code_simp
  ultimately show ?thesis unfolding Let_def C by blast
qed

end
