(* ===== verification/RegionMap.thy ===== *)
theory RegionMap
  imports Region
begin

text \<open>
  \<open>regionMap\<close> of \<open>server/core/region.go\<close>: a map from region id to region that can also pick
  a random region. Beside the map it keeps the slice \<open>ids\<close> of its keys; every entry records the
  position of its id in the slice, so that \<open>Delete\<close> can fill the hole with the last id. It also
  keeps running totals of size and keys, 64-bit and wrapping.

  The invariant \<open>regionMap_inv\<close> ties the four fields together. Under it \<open>Delete\<close> never indexes
  out of range and the totals are the sums over the regions held; the locale \<open>region_container\<close>
  is what the users of the map rely on.
\<close>

subsection \<open>The code\<close>

record regionEntry =
  re_RegionInfo :: RegionInfo
  re_pos :: nat

record regionMap =
  rm_m :: "(u64, regionEntry) fmap"
  rm_ids :: "u64 list"
  rm_totalSize :: i64
  rm_totalKeys :: i64

definition newRegionMap :: regionMap where
  "newRegionMap = \<lparr>rm_m = fmempty, rm_ids = [], rm_totalSize = 0, rm_totalKeys = 0\<rparr>"

text \<open>\<open>Len\<close>, \<open>Get\<close>, \<open>Delete\<close> and \<open>TotalSize\<close> accept a nil receiver (\<open>None\<close>).\<close>

definition regionMap_Len :: "regionMap option \<Rightarrow> nat" where
  "regionMap_Len rm = (case rm of None \<Rightarrow> 0 | Some rm \<Rightarrow> fmlen (rm_m rm))"

definition regionMap_Get :: "regionMap option \<Rightarrow> u64 \<Rightarrow> RegionInfo option" where
  "regionMap_Get rm rid =
     (case rm of None \<Rightarrow> None | Some rm \<Rightarrow> map_option re_RegionInfo (fmlookup (rm_m rm) rid))"

definition regionMap_Put :: "regionMap \<Rightarrow> RegionInfo \<Rightarrow> regionMap" where
  "regionMap_Put rm region =
     (let rid = RegionInfo_GetID region in
      case fmlookup (rm_m rm) rid of
        Some old \<Rightarrow>
          rm\<lparr>rm_totalSize := rm_totalSize rm +
               (ri_approximateSize region - ri_approximateSize (re_RegionInfo old)),
             rm_totalKeys := rm_totalKeys rm +
               (ri_approximateKeys region - ri_approximateKeys (re_RegionInfo old)),
             rm_m := fmupd rid (old\<lparr>re_RegionInfo := region\<rparr>) (rm_m rm)\<rparr>
      | None \<Rightarrow>
          rm\<lparr>rm_m := fmupd rid \<lparr>re_RegionInfo = region, re_pos = length (rm_ids rm)\<rparr> (rm_m rm),
             rm_ids := rm_ids rm @ [rid],
             rm_totalSize := rm_totalSize rm + ri_approximateSize region,
             rm_totalKeys := rm_totalKeys rm + ri_approximateKeys region\<rparr>)"

text \<open>The random index is an argument, below \<open>Len\<close>.\<close>

definition regionMap_RandomRegion :: "nat \<Rightarrow> regionMap option \<Rightarrow> RegionInfo option option" where
  "regionMap_RandomRegion rnd rm =
     (if regionMap_Len rm = 0 then Some None
      else case rm of None \<Rightarrow> None
        | Some rm' \<Rightarrow> if rnd < length (rm_ids rm') then Some (regionMap_Get rm (rm_ids rm' ! rnd)) else None)"

text \<open>
  \<open>Delete\<close> indexes \<open>ids\<close> and dereferences the entry of the last id; either panics when the
  fields disagree.
\<close>

definition regionMap_Delete :: "regionMap \<Rightarrow> u64 \<Rightarrow> regionMap option" where
  "regionMap_Delete rm rid =
     (case fmlookup (rm_m rm) rid of
        None \<Rightarrow> Some rm
      | Some old \<Rightarrow>
          (let len = fmlen (rm_m rm) in
           if len = 0 \<or> length (rm_ids rm) \<le> len - 1 then None
           else let lastID = rm_ids rm ! (len - 1) in
             (case fmlookup (rm_m rm) lastID of
                None \<Rightarrow> None
              | Some last' \<Rightarrow>
                  let last' = last'\<lparr>re_pos := re_pos old\<rparr> in
                  if length (rm_ids rm) \<le> re_pos last' then None
                  else Some (rm
                    \<lparr>rm_m := fmdrop rid (fmupd lastID last' (rm_m rm)),
                     rm_ids := take (len - 1)
                       ((rm_ids rm)[re_pos last' := RegionInfo_GetID (re_RegionInfo last')]),
                     rm_totalSize := rm_totalSize rm - ri_approximateSize (re_RegionInfo old),
                     rm_totalKeys := rm_totalKeys rm - ri_approximateKeys (re_RegionInfo old)\<rparr>))))"

definition regionMap_TotalSize :: "regionMap option \<Rightarrow> i64" where
  "regionMap_TotalSize rm =
     (if regionMap_Len rm = 0 then 0 else case rm of None \<Rightarrow> 0 | Some rm \<Rightarrow> rm_totalSize rm)"

definition randomRegionMaxRetry :: nat where
  "randomRegionMaxRetry = 10"

text \<open>\<open>randRegion\<close> draws at most \<open>randomRegionMaxRetry\<close> times; the draws are an argument.\<close>

fun randRegion_loop :: "nat list \<Rightarrow> regionMap option \<Rightarrow> RegionOption list \<Rightarrow> RegionInfo option option" where
  "randRegion_loop [] regions opts = Some None"
| "randRegion_loop (rnd # rnds) regions opts =
     (case regionMap_RandomRegion rnd regions of
        None \<Rightarrow> None
      | Some None \<Rightarrow> Some None
      | Some (Some region) \<Rightarrow>
          if list_all (\<lambda>opt. opt region) opts then Some (Some region)
          else randRegion_loop rnds regions opts)"

definition randRegion :: "nat list \<Rightarrow> regionMap option \<Rightarrow> RegionOption list \<Rightarrow> RegionInfo option option" where
  "randRegion rnds regions opts = randRegion_loop (take randomRegionMaxRetry rnds) regions opts"

subsection \<open>The invariant\<close>

definition entry_size :: "regionEntry \<Rightarrow> i64" where
  "entry_size e = ri_approximateSize (re_RegionInfo e)"

definition entry_keys :: "regionEntry \<Rightarrow> i64" where
  "entry_keys e = ri_approximateKeys (re_RegionInfo e)"

text \<open>The sum of \<open>f\<close> over the entries of a map.\<close>

definition map_total :: "('v \<Rightarrow> i64) \<Rightarrow> ('k, 'v) fmap \<Rightarrow> i64" where
  "map_total f m = (\<Sum>k \<in> fset (fmdom m). f (the (fmlookup m k)))"

definition regionMap_inv :: "regionMap \<Rightarrow> bool" where
  "regionMap_inv rm \<longleftrightarrow>
     distinct (rm_ids rm) \<and>
     (\<forall>rid. rid \<in> set (rm_ids rm) \<longleftrightarrow> fmlookup (rm_m rm) rid \<noteq> None) \<and>
     (\<forall>rid e. fmlookup (rm_m rm) rid = Some e \<longrightarrow>
        RegionInfo_GetID (re_RegionInfo e) = rid \<and>
        re_pos e < length (rm_ids rm) \<and> rm_ids rm ! re_pos e = rid) \<and>
     rm_totalSize rm = map_total entry_size (rm_m rm) \<and>
     rm_totalKeys rm = map_total entry_keys (rm_m rm)"

lemma map_total_empty [simp]: "map_total f fmempty = 0"
  by (simp add: map_total_def)

lemma map_total_fmdrop:
  assumes "fmlookup m k = Some v"
  shows "map_total f (fmdrop k m) = map_total f m - f v"
proof -
  have "k \<in> fset (fmdom m)" using assms by (simp add: fmlookup_dom_iff)
  then have "map_total f m = f v + (\<Sum>j \<in> fset (fmdom m) - {k}. f (the (fmlookup m j)))"
    unfolding map_total_def by (simp add: sum.remove [of _ k] assms)
  moreover have "map_total f (fmdrop k m) = (\<Sum>j \<in> fset (fmdom m) - {k}. f (the (fmlookup m j)))"
    unfolding map_total_def by (rule sum.cong) auto
  ultimately show ?thesis by simp
qed

lemma map_total_fmupd_new:
  assumes "fmlookup m k = None"
  shows "map_total f (fmupd k v m) = map_total f m + f v"
proof -
  have "k \<notin> fset (fmdom m)" using assms by (simp add: fmdom_notI)
  moreover have "(\<Sum>j \<in> fset (fmdom m). f (the (fmlookup (fmupd k v m) j))) = map_total f m"
    unfolding map_total_def by (rule sum.cong) (use \<open>k \<notin> fset (fmdom m)\<close> in auto)
  ultimately show ?thesis by (simp add: map_total_def)
qed

lemma map_total_fmupd:
  "map_total f (fmupd k v m) =
     (case fmlookup m k of None \<Rightarrow> map_total f m + f v | Some w \<Rightarrow> map_total f m + (f v - f w))"
proof (cases "fmlookup m k")
  case (Some w)
  have "fmupd k v m = fmupd k v (fmdrop k m)" by (rule fmap_ext) auto
  then have "map_total f (fmupd k v m) = map_total f (fmdrop k m) + f v"
    by (simp add: map_total_fmupd_new)
  with Some show ?thesis by (simp add: map_total_fmdrop)
qed (simp add: map_total_fmupd_new)

lemma map_total_move:
  assumes "fmlookup m a = Some l" "fmlookup m k = Some old" "f l' = f l"
  shows "map_total f (fmdrop k (fmupd a l' m)) = map_total f m - f old"
proof -
  have "fmlookup (fmupd a l' m) k = Some (if k = a then l' else old)" using assms(2) by simp
  from map_total_fmdrop [OF this] show ?thesis
    using assms by (auto simp: map_total_fmupd)
qed

lemma regionMap_invD:
  assumes "regionMap_inv rm"
  shows "distinct (rm_ids rm)"
    and "rid \<in> set (rm_ids rm) \<longleftrightarrow> fmlookup (rm_m rm) rid \<noteq> None"
    and "fmlookup (rm_m rm) rid = Some e \<Longrightarrow> Region_Id (ri_meta (re_RegionInfo e)) = rid"
    and "fmlookup (rm_m rm) rid = Some e \<Longrightarrow> re_pos e < length (rm_ids rm)"
    and "fmlookup (rm_m rm) rid = Some e \<Longrightarrow> rm_ids rm ! re_pos e = rid"
    and "rm_totalSize rm = map_total entry_size (rm_m rm)"
    and "rm_totalKeys rm = map_total entry_keys (rm_m rm)"
    and "fmlen (rm_m rm) = length (rm_ids rm)"
  using assms map_order_length [of "rm_ids rm" "rm_m rm"]
  by (auto simp: regionMap_inv_def map_order_iff)

lemma newRegionMap_inv: "regionMap_inv newRegionMap"
  by (simp add: regionMap_inv_def newRegionMap_def)

lemma regionMap_Put_inv:
  assumes "regionMap_inv rm"
  shows "regionMap_inv (regionMap_Put rm region)"
proof (cases "fmlookup (rm_m rm) (Region_Id (ri_meta region))")
  case None
  then have "Region_Id (ri_meta region) \<notin> set (rm_ids rm)" by (simp add: regionMap_invD(2) [OF assms])
  with None assms show ?thesis
    by (auto simp: regionMap_inv_def regionMap_Put_def Let_def map_total_fmupd entry_size_def
        entry_keys_def nth_append intro: less_SucI)
next
  case (Some old)
  with assms show ?thesis
    by (auto simp: regionMap_inv_def regionMap_Put_def Let_def map_total_fmupd entry_size_def
        entry_keys_def)
qed

text \<open>Moving the last element into position \<open>i\<close> removes exactly the element that was there.\<close>

lemma swap_remove:
  assumes "distinct xs" "i < length xs" "xs' = take (length xs - 1) (xs[i := xs ! (length xs - 1)])"
  shows "distinct xs'" and "set xs' = set xs - {xs ! i}"
    and "j < length xs - 1 \<Longrightarrow> xs' ! j = (if j = i then xs ! (length xs - 1) else xs ! j)"
proof -
  let ?n = "length xs - 1"
  show nth: "j < ?n \<Longrightarrow> xs' ! j = (if j = i then xs ! ?n else xs ! j)" for j
    using assms(2,3) by (auto simp: nth_list_update)
  have len: "length xs' = ?n" using assms by simp
  show d: "distinct xs'"
    unfolding distinct_conv_nth using assms(1,2) len
    by (auto simp: nth nth_eq_iff_index_eq)
  show "set xs' = set xs - {xs ! i}"
  proof (intro set_eqI iffI)
    fix x assume "x \<in> set xs'"
    then obtain j where j: "j < ?n" "x = xs' ! j" unfolding in_set_conv_nth len by auto
    with assms(1,2) show "x \<in> set xs - {xs ! i}" by (auto simp: nth nth_eq_iff_index_eq)
  next
    fix x assume x: "x \<in> set xs - {xs ! i}"
    then obtain j where j: "j < length xs" "x = xs ! j" "j \<noteq> i" by (auto simp: in_set_conv_nth)
    show "x \<in> set xs'"
    proof (cases "j = ?n")
      case True
      with j assms(2) have "i < ?n" by simp
      with nth [of i] True j(2) len show ?thesis by (metis nth_mem)
    next
      case False
      with j have "j < ?n" by simp
      with nth [of j] j len show ?thesis by (metis nth_mem)
    qed
  qed
qed

lemma regionMap_Delete_absent:
  "fmlookup (rm_m rm) rid = None \<Longrightarrow> regionMap_Delete rm rid = Some rm"
  by (simp add: regionMap_Delete_def)

lemma regionMap_Delete_present:
  assumes inv: "regionMap_inv rm" and old: "fmlookup (rm_m rm) rid = Some old"
  shows "\<exists>rm'. regionMap_Delete rm rid = Some rm' \<and> regionMap_inv rm' \<and>
    (\<forall>i. map_option re_RegionInfo (fmlookup (rm_m rm') i) =
       (if i = rid then None else map_option re_RegionInfo (fmlookup (rm_m rm) i)))"
proof -
  note D = regionMap_invD [OF inv]
  let ?ids = "rm_ids rm" and ?n = "length (rm_ids rm) - 1"
  have pos: "re_pos old < length ?ids" "?ids ! re_pos old = rid" using D(4,5) [OF old] by auto
  then have "?ids ! ?n \<in> set ?ids" by (intro nth_mem) linarith
  then obtain l where l: "fmlookup (rm_m rm) (?ids ! ?n) = Some l" using D(2) by blast
  have lpos: "re_pos l = ?n"
    using D(4,5) [OF l] D(1) pos(1) by (metis diff_less length_pos_if_in_set nth_eq_iff_index_eq
        nth_mem zero_less_one)
  define ids' where "ids' = take ?n (?ids[re_pos old := ?ids ! ?n])"
  define m' where "m' = fmdrop rid (fmupd (?ids ! ?n) (l\<lparr>re_pos := re_pos old\<rparr>) (rm_m rm))"
  note S = swap_remove [OF D(1) pos(1) ids'_def]
  have del: "regionMap_Delete rm rid = Some (rm\<lparr>rm_m := m', rm_ids := ids',
      rm_totalSize := rm_totalSize rm - entry_size old,
      rm_totalKeys := rm_totalKeys rm - entry_keys old\<rparr>)"
    using old l pos D(3) [OF l] D(8)
    by (auto simp: regionMap_Delete_def Let_def m'_def ids'_def entry_size_def entry_keys_def)
  have total: "map_total f m' = map_total f (rm_m rm) - f old"
    if "\<And>e p. f (e\<lparr>re_pos := p\<rparr>) = f e" for f :: "regionEntry \<Rightarrow> i64"
    unfolding m'_def by (rule map_total_move [OF l old]) (rule that)
  have look: "fmlookup m' i = (if i = rid then None else if i = ?ids ! ?n
      then Some (l\<lparr>re_pos := re_pos old\<rparr>) else fmlookup (rm_m rm) i)" for i
    by (simp add: m'_def)
  have "Region_Id (ri_meta (re_RegionInfo e)) = i \<and> re_pos e < length ids' \<and> ids' ! re_pos e = i"
    if e: "fmlookup m' i = Some e" for i e
  proof (cases "i = ?ids ! ?n")
    case True
    with e have "rid \<noteq> ?ids ! ?n" "e = l\<lparr>re_pos := re_pos old\<rparr>" by (auto simp: look split: if_splits)
    moreover from this pos have "re_pos old < ?n" by (metis One_nat_def Suc_pred diff_Suc_1'
          length_pos_if_in_set less_Suc_eq nth_mem)
    ultimately show ?thesis using True D(3) [OF l] S(3) [of "re_pos old"] pos by (simp add: ids'_def)
  next
    case False
    with e have e0: "i \<noteq> rid" "fmlookup (rm_m rm) i = Some e" by (auto simp: look split: if_splits)
    note E = D(3-5) [OF e0(2)]
    have "re_pos e \<noteq> ?n" "re_pos e \<noteq> re_pos old" using E(3) False e0(1) pos(2) by auto
    with E S(3) [of "re_pos e"] show ?thesis by (simp add: ids'_def)
  qed
  moreover have "i \<in> set ids' \<longleftrightarrow> fmlookup m' i \<noteq> None" for i
    using S(2) pos(2) D(2) [of i] l by (auto simp: look)
  ultimately have "regionMap_inv (rm\<lparr>rm_m := m', rm_ids := ids',
      rm_totalSize := rm_totalSize rm - entry_size old,
      rm_totalKeys := rm_totalKeys rm - entry_keys old\<rparr>)"
    using S(1) D(6,7) total [of entry_size] total [of entry_keys]
    by (simp add: regionMap_inv_def entry_size_def entry_keys_def)
  with del l show ?thesis by (auto simp: look)
qed

subsection \<open>The contract of the map\<close>

text \<open>
  A container of regions keyed by id: \<open>view\<close> is the finite map it stands for. Deletion returns,
  which for the implementation means that it does not panic.
\<close>

locale region_container =
  fixes new :: 'm and put :: "'m \<Rightarrow> RegionInfo \<Rightarrow> 'm" and del :: "'m \<Rightarrow> u64 \<Rightarrow> 'm option"
    and view :: "'m \<Rightarrow> (u64, RegionInfo) fmap" and inv :: "'m \<Rightarrow> bool"
  assumes new_inv: "inv new"
    and new_view: "view new = fmempty"
    and put_inv: "inv m \<Longrightarrow> inv (put m r)"
    and put_view: "inv m \<Longrightarrow> view (put m r) = fmupd (Region_Id (ri_meta r)) r (view m)"
    and del_ok: "inv m \<Longrightarrow> \<exists>m'. del m i = Some m' \<and> inv m' \<and> view m' = fmdrop i (view m)"

datatype map_op = MapPut RegionInfo | MapDelete u64

fun map_op_view :: "map_op \<Rightarrow> (u64, RegionInfo) fmap \<Rightarrow> (u64, RegionInfo) fmap" where
  "map_op_view (MapPut r) v = fmupd (Region_Id (ri_meta r)) r v"
| "map_op_view (MapDelete i) v = fmdrop i v"

fun map_run :: "('m \<Rightarrow> RegionInfo \<Rightarrow> 'm) \<Rightarrow> ('m \<Rightarrow> u64 \<Rightarrow> 'm option) \<Rightarrow> map_op list \<Rightarrow> 'm \<Rightarrow> 'm option" where
  "map_run put del [] m = Some m"
| "map_run put del (MapPut r # ops) m = map_run put del ops (put m r)"
| "map_run put del (MapDelete i # ops) m =
     (case del m i of None \<Rightarrow> None | Some m \<Rightarrow> map_run put del ops m)"

context region_container
begin

lemma run_ok:
  assumes "inv m"
  shows "\<exists>m'. map_run put del ops m = Some m' \<and> inv m' \<and> view m' = fold map_op_view ops (view m)"
  using assms
proof (induction ops arbitrary: m)
  case (Cons op ops)
  show ?case
  proof (cases op)
    case (MapPut r)
    with Cons.IH [OF put_inv [OF Cons.prems]] put_view [OF Cons.prems] show ?thesis by simp
  next
    case (MapDelete i)
    obtain m' where "del m i = Some m'" "inv m'" "view m' = fmdrop i (view m)"
      using del_ok [OF Cons.prems] by blast
    with Cons.IH [of m'] MapDelete show ?thesis by simp
  qed
qed simp

lemma history_ok:
  "\<exists>m. map_run put del ops new = Some m \<and> inv m \<and> view m = fold map_op_view ops fmempty"
  using run_ok [OF new_inv] new_view by simp

end

definition regionMap_view :: "regionMap \<Rightarrow> (u64, RegionInfo) fmap" where
  "regionMap_view rm = fmmap re_RegionInfo (rm_m rm)"

lemma lookup_view [simp]: "fmlookup (regionMap_view rm) i = regionMap_Get (Some rm) i"
  by (simp add: regionMap_view_def regionMap_Get_def)

lemma regionMap_Put_view:
  "regionMap_view (regionMap_Put rm r) = fmupd (Region_Id (ri_meta r)) r (regionMap_view rm)"
  by (rule fmap_ext)
    (auto simp: regionMap_Get_def regionMap_Put_def Let_def split: option.splits)

interpretation rmap: region_container newRegionMap regionMap_Put regionMap_Delete regionMap_view regionMap_inv
proof
  show "\<exists>m'. regionMap_Delete m i = Some m' \<and> regionMap_inv m' \<and>
      regionMap_view m' = fmdrop i (regionMap_view m)" if "regionMap_inv m" for m i
  proof (cases "fmlookup (rm_m m) i")
    case None
    then have "regionMap_view m = fmdrop i (regionMap_view m)"
      by (intro fmap_ext) (auto simp: regionMap_Get_def)
    with None that show ?thesis by (simp add: regionMap_Delete_absent)
  next
    case (Some old)
    from regionMap_Delete_present [OF that this] obtain rm' where
      "regionMap_Delete m i = Some rm'" "regionMap_inv rm'"
      "\<forall>j. regionMap_Get (Some rm') j = (if j = i then None else regionMap_Get (Some m) j)"
      by (auto simp: regionMap_Get_def)
    then show ?thesis by (auto intro: fmap_ext)
  qed
  show "regionMap_view newRegionMap = fmempty"
    by (simp add: regionMap_view_def newRegionMap_def)
qed (simp_all add: newRegionMap_inv regionMap_Put_inv regionMap_Put_view)

lemma regionMap_Len_view: "regionMap_Len (Some rm) = fmlen (regionMap_view rm)"
  by (simp add: regionMap_Len_def regionMap_view_def fmlen_def)

lemma regionMap_TotalSize_view:
  assumes "regionMap_inv rm"
  shows "regionMap_TotalSize (Some rm) = map_total ri_approximateSize (regionMap_view rm)"
proof -
  have "map_total entry_size (rm_m rm) = map_total ri_approximateSize (regionMap_view rm)"
    unfolding map_total_def regionMap_view_def
    by (rule sum.cong) (auto simp: entry_size_def fmlookup_dom_iff)
  moreover have "map_total entry_size (rm_m rm) = 0" if "fmlen (rm_m rm) = 0"
    using that by (simp add: map_total_def fmlen_def)
  ultimately show ?thesis
    using regionMap_invD(6) [OF assms] by (auto simp: regionMap_TotalSize_def regionMap_Len_def)
qed

lemma regionMap_RandomRegion_in:
  assumes "regionMap_inv rm" "0 < regionMap_Len (Some rm)" "rnd < regionMap_Len (Some rm)"
  shows "\<exists>r. regionMap_RandomRegion rnd (Some rm) = Some (Some r) \<and>
    regionMap_Get (Some rm) (Region_Id (ri_meta r)) = Some r"
proof -
  have "rnd < length (rm_ids rm)" using assms regionMap_invD(8) [OF assms(1)]
    by (simp add: regionMap_Len_def)
  then have "rm_ids rm ! rnd \<in> set (rm_ids rm)" by simp
  then obtain e where "fmlookup (rm_m rm) (rm_ids rm ! rnd) = Some e"
    using regionMap_invD(2) [OF assms(1)] by blast
  with \<open>rnd < length (rm_ids rm)\<close> assms(2) regionMap_invD(3) [OF assms(1) this] show ?thesis
    by (simp add: regionMap_RandomRegion_def regionMap_Get_def)
qed

definition sample_map_ops :: "map_op list" where
  "sample_map_ops =
     (let r = (\<lambda>i s. NewRegionInfo \<lparr>Region_Id = i, Region_StartKey = [], Region_EndKey = [],
            Region_RegionEpoch = None, Region_Peers = []\<rparr> None [SetApproximateSize s])
      in [MapPut (r 1 10), MapPut (r 2 20), MapPut (r 3 30), MapPut (r 2 25), MapDelete 1])"

subsection \<open>Properties\<close>

text \<open>
  (C16) Any sequence of \<open>Put\<close> and \<open>Delete\<close> on a new \<open>regionMap\<close> runs without a panic and leaves a
  map that holds exactly what the same operations leave in an ordinary map; its length is the
  number of regions held, its total size is the (wrapping) sum of their sizes, and every random
  draw returns one of them.
\<close>
theorem regionMap_history_refines:
  fixes ops :: "map_op list"
  defines "v \<equiv> fold map_op_view ops fmempty"
  shows "\<exists>rm. map_run regionMap_Put regionMap_Delete ops newRegionMap = Some rm \<and>
    (\<forall>i. regionMap_Get (Some rm) i = fmlookup v i) \<and>
    regionMap_Len (Some rm) = fmlen v \<and>
    regionMap_TotalSize (Some rm) = map_total ri_approximateSize v \<and>
    (\<forall>rnd < fmlen v. \<exists>r. regionMap_RandomRegion rnd (Some rm) = Some (Some r) \<and>
       fmlookup v (RegionInfo_GetID r) = Some r)"
proof -
  obtain rm where rm: "map_run regionMap_Put regionMap_Delete ops newRegionMap = Some rm"
    "regionMap_inv rm" "regionMap_view rm = v"
    using rmap.history_ok [of ops] unfolding v_def by blast
  have get: "regionMap_Get (Some rm) i = fmlookup v i" for i
    using lookup_view [of rm i] rm(3) by simp
  have len: "regionMap_Len (Some rm) = fmlen v" using rm(3) by (simp add: regionMap_Len_view)
  show ?thesis
    using rm(1) get len regionMap_TotalSize_view [OF rm(2)] rm(3)
      regionMap_RandomRegion_in [OF rm(2)] by fastforce
qed

theorem regionMap_history_refines_witness:
  "fmlen (fold map_op_view sample_map_ops fmempty) = 2 \<and>
   (\<exists>rm. map_run regionMap_Put regionMap_Delete sample_map_ops newRegionMap = Some rm \<and>
      (\<exists>r. regionMap_RandomRegion 1 (Some rm) = Some (Some r)))"
proof -
  have "fmlen (fold map_op_view sample_map_ops fmempty) = 2" by code_simp
  moreover have "(1 :: nat) < 2" by simp
  ultimately show ?thesis using regionMap_history_refines [of sample_map_ops] by metis
qed

end
