(* ===== verification/RegionsInfo.thy ===== *)
theory RegionsInfo
  imports RegionTree RegionMap
begin

text \<open>
  \<open>RegionsInfo\<close> of \<open>server/core/region.go\<close>: the region cache. It keeps the tree of ranges, the
  map of all regions, and, per store, maps of the regions that have their leader, a follower, a
  learner or a pending peer there.

  The maps of one role are a Go map from store id to \<open>*regionMap\<close>; a missing store is a nil
  pointer, on which \<open>Delete\<close>, \<open>Get\<close>, \<open>Len\<close> and \<open>TotalSize\<close> do nothing. \<open>regionsInfo_inv\<close> says that
  the tree and the six maps all describe the same set of regions.
\<close>

subsection \<open>The code\<close>

type_synonym store_regions = "(u64, regionMap) fmap"

record 't RegionsInfo =
  rsi_tree :: 't
  rsi_regions :: regionMap
  rsi_leaders :: store_regions
  rsi_followers :: store_regions
  rsi_learners :: store_regions
  rsi_pendingPeers :: store_regions

definition NewRegionsInfo :: "'t region_btree \<Rightarrow> 't RegionsInfo" where
  "NewRegionsInfo bt =
     \<lparr>rsi_tree = newRegionTree bt, rsi_regions = newRegionMap, rsi_leaders = fmempty,
      rsi_followers = fmempty, rsi_learners = fmempty, rsi_pendingPeers = fmempty\<rparr>"

definition RegionsInfo_GetRegion :: "'t RegionsInfo \<Rightarrow> u64 \<Rightarrow> RegionInfo option" where
  "RegionsInfo_GetRegion r regionID = regionMap_Get (Some (rsi_regions r)) regionID"

text \<open>The four-line step \<open>AddRegion\<close> repeats: fetch or create the store's map, then \<open>Put\<close>.\<close>

definition store_Put :: "RegionInfo \<Rightarrow> u64 \<Rightarrow> store_regions \<Rightarrow> store_regions" where
  "store_Put region storeID stores =
     (let store = (case fmlookup stores storeID of None \<Rightarrow> newRegionMap | Some store \<Rightarrow> store)
      in fmupd storeID (regionMap_Put store region) stores)"

text \<open>\<open>r.leaders[storeID].Delete(id)\<close> and its siblings.\<close>

definition store_Delete :: "u64 \<Rightarrow> u64 \<Rightarrow> store_regions \<Rightarrow> store_regions option" where
  "store_Delete regionID storeID stores =
     (case fmlookup stores storeID of
        None \<Rightarrow> Some stores
      | Some store \<Rightarrow> (case regionMap_Delete store regionID of
          None \<Rightarrow> None
        | Some store \<Rightarrow> Some (fmupd storeID store stores)))"

fun RemoveRegion_peers :: "u64 \<Rightarrow> metapb_Peer list \<Rightarrow> 't RegionsInfo \<Rightarrow> 't RegionsInfo option" where
  "RemoveRegion_peers regionID [] r = Some r"
| "RemoveRegion_peers regionID (peer # peers) r =
     (let storeID = Peer_StoreId peer in
      do { leaders \<leftarrow> store_Delete regionID storeID (rsi_leaders r);
           followers \<leftarrow> store_Delete regionID storeID (rsi_followers r);
           learners \<leftarrow> store_Delete regionID storeID (rsi_learners r);
           pendingPeers \<leftarrow> store_Delete regionID storeID (rsi_pendingPeers r);
           RemoveRegion_peers regionID peers
             (r\<lparr>rsi_leaders := leaders, rsi_followers := followers,
                rsi_learners := learners, rsi_pendingPeers := pendingPeers\<rparr>) })"

definition RegionsInfo_RemoveRegion ::
    "'t region_btree \<Rightarrow> 't RegionsInfo \<Rightarrow> RegionInfo \<Rightarrow> 't RegionsInfo option" where
  "RegionsInfo_RemoveRegion bt r region =
     (let r = r\<lparr>rsi_tree := regionTree_remove bt (rsi_tree r) (ri_meta region)\<rparr> in
      do { regions \<leftarrow> regionMap_Delete (rsi_regions r) (RegionInfo_GetID region);
           RemoveRegion_peers (RegionInfo_GetID region) (Region_Peers (ri_meta region))
             (r\<lparr>rsi_regions := regions\<rparr>) })"

text \<open>
  The loop over the overlaps in \<open>AddRegion\<close>: \<open>RemoveRegion\<close> of an unknown region dereferences
  nil.
\<close>

fun AddRegion_evict ::
    "'t region_btree \<Rightarrow> metapb_Region list \<Rightarrow> 't RegionsInfo \<Rightarrow> 't RegionsInfo option" where
  "AddRegion_evict bt [] r = Some r"
| "AddRegion_evict bt (item # items) r =
     do { region \<leftarrow> RegionsInfo_GetRegion r (Region_Id item);
          r \<leftarrow> RegionsInfo_RemoveRegion bt r region;
          AddRegion_evict bt items r }"

definition AddRegion_voter :: "RegionInfo \<Rightarrow> metapb_Peer \<Rightarrow> 't RegionsInfo \<Rightarrow> 't RegionsInfo" where
  "AddRegion_voter region peer r =
     (if Peer_Id peer = Peer_GetId (ri_leader region)
      then r\<lparr>rsi_leaders := store_Put region (Peer_StoreId peer) (rsi_leaders r)\<rparr>
      else r\<lparr>rsi_followers := store_Put region (Peer_StoreId peer) (rsi_followers r)\<rparr>)"

definition AddRegion_learner :: "RegionInfo \<Rightarrow> metapb_Peer \<Rightarrow> 't RegionsInfo \<Rightarrow> 't RegionsInfo" where
  "AddRegion_learner region peer r =
     r\<lparr>rsi_learners := store_Put region (Peer_StoreId peer) (rsi_learners r)\<rparr>"

definition AddRegion_pending :: "RegionInfo \<Rightarrow> metapb_Peer \<Rightarrow> 't RegionsInfo \<Rightarrow> 't RegionsInfo" where
  "AddRegion_pending region peer r =
     r\<lparr>rsi_pendingPeers := store_Put region (Peer_StoreId peer) (rsi_pendingPeers r)\<rparr>"

definition RegionsInfo_AddRegion ::
    "'t region_btree \<Rightarrow> 't RegionsInfo \<Rightarrow> RegionInfo \<Rightarrow> ('t RegionsInfo \<times> metapb_Region list) option" where
  "RegionsInfo_AddRegion bt r region =
     (case regionTree_update bt (rsi_tree r) (ri_meta region) of
        (tree, overs) \<Rightarrow>
          do { r \<leftarrow> AddRegion_evict bt overs (r\<lparr>rsi_tree := tree\<rparr>);
               let r = r\<lparr>rsi_regions := regionMap_Put (rsi_regions r) region\<rparr>;
                   r = fold (AddRegion_voter region) (ri_voters region) r;
                   r = fold (AddRegion_learner region) (ri_learners region) r;
                   r = fold (AddRegion_pending region) (ri_pendingPeers region) r
               in Some (r, overs) })"

definition RegionsInfo_SetRegion ::
    "'t region_btree \<Rightarrow> 't RegionsInfo \<Rightarrow> RegionInfo \<Rightarrow> ('t RegionsInfo \<times> metapb_Region list) option" where
  "RegionsInfo_SetRegion bt r region =
     (case regionMap_Get (Some (rsi_regions r)) (RegionInfo_GetID region) of
        Some origin \<Rightarrow>
          do { r \<leftarrow> RegionsInfo_RemoveRegion bt r origin; RegionsInfo_AddRegion bt r region }
      | None \<Rightarrow> RegionsInfo_AddRegion bt r region)"

definition RegionsInfo_Length :: "'t RegionsInfo \<Rightarrow> nat" where
  "RegionsInfo_Length r = regionMap_Len (Some (rsi_regions r))"

definition RegionsInfo_TreeLength :: "'t region_btree \<Rightarrow> 't RegionsInfo \<Rightarrow> nat" where
  "RegionsInfo_TreeLength bt r = regionTree_length bt (rsi_tree r)"

definition RegionsInfo_GetOverlaps ::
    "'t region_btree \<Rightarrow> 't RegionsInfo \<Rightarrow> RegionInfo \<Rightarrow> metapb_Region list" where
  "RegionsInfo_GetOverlaps bt r region = regionTree_getOverlaps bt (rsi_tree r) (ri_meta region)"

definition RegionsInfo_SearchRegion ::
    "'t region_btree \<Rightarrow> 't RegionsInfo \<Rightarrow> bytes \<Rightarrow> RegionInfo option" where
  "RegionsInfo_SearchRegion bt r regionKey =
     (case regionTree_search bt (rsi_tree r) regionKey of
        None \<Rightarrow> None
      | Some metaRegion \<Rightarrow> RegionsInfo_GetRegion r (Region_Id metaRegion))"

definition RegionsInfo_SearchPrevRegion ::
    "'t region_btree \<Rightarrow> 't RegionsInfo \<Rightarrow> bytes \<Rightarrow> RegionInfo option" where
  "RegionsInfo_SearchPrevRegion bt r regionKey =
     (case regionTree_searchPrev bt (rsi_tree r) regionKey of
        None \<Rightarrow> None
      | Some metaRegion \<Rightarrow> RegionsInfo_GetRegion r (Region_Id metaRegion))"

text \<open>\<open>order\<close> is the order in which Go ranges over the map.\<close>

definition regionMap_range :: "u64 list \<Rightarrow> regionMap option \<Rightarrow> RegionInfo list" where
  "regionMap_range order rm =
     (case rm of None \<Rightarrow> [] | Some rm \<Rightarrow> map re_RegionInfo (range_values order (rm_m rm)))"

definition RegionsInfo_GetRegions :: "u64 list \<Rightarrow> 't RegionsInfo \<Rightarrow> RegionInfo list" where
  "RegionsInfo_GetRegions order r = regionMap_range order (Some (rsi_regions r))"

definition RegionsInfo_GetMetaRegions :: "u64 list \<Rightarrow> 't RegionsInfo \<Rightarrow> metapb_Region list" where
  "RegionsInfo_GetMetaRegions order r = map ri_meta (regionMap_range order (Some (rsi_regions r)))"

definition RegionsInfo_GetStoreRegions ::
    "u64 list \<Rightarrow> u64 list \<Rightarrow> 't RegionsInfo \<Rightarrow> u64 \<Rightarrow> RegionInfo list" where
  "RegionsInfo_GetStoreRegions order1 order2 r storeID =
     regionMap_range order1 (fmlookup (rsi_leaders r) storeID) @
     regionMap_range order2 (fmlookup (rsi_followers r) storeID)"

definition RegionsInfo_GetStoreLeaderRegionSize :: "'t RegionsInfo \<Rightarrow> u64 \<Rightarrow> i64" where
  "RegionsInfo_GetStoreLeaderRegionSize r storeID = regionMap_TotalSize (fmlookup (rsi_leaders r) storeID)"

definition RegionsInfo_GetStoreFollowerRegionSize :: "'t RegionsInfo \<Rightarrow> u64 \<Rightarrow> i64" where
  "RegionsInfo_GetStoreFollowerRegionSize r storeID = regionMap_TotalSize (fmlookup (rsi_followers r) storeID)"

definition RegionsInfo_GetStoreLearnerRegionSize :: "'t RegionsInfo \<Rightarrow> u64 \<Rightarrow> i64" where
  "RegionsInfo_GetStoreLearnerRegionSize r storeID = regionMap_TotalSize (fmlookup (rsi_learners r) storeID)"

definition RegionsInfo_GetStoreRegionSize :: "'t RegionsInfo \<Rightarrow> u64 \<Rightarrow> i64" where
  "RegionsInfo_GetStoreRegionSize r storeID =
     RegionsInfo_GetStoreLeaderRegionSize r storeID +
     RegionsInfo_GetStoreFollowerRegionSize r storeID +
     RegionsInfo_GetStoreLearnerRegionSize r storeID"

definition RegionsInfo_GetRegionCount :: "'t RegionsInfo \<Rightarrow> nat" where
  "RegionsInfo_GetRegionCount r = regionMap_Len (Some (rsi_regions r))"

definition RegionsInfo_GetStoreLeaderCount :: "'t RegionsInfo \<Rightarrow> u64 \<Rightarrow> nat" where
  "RegionsInfo_GetStoreLeaderCount r storeID = regionMap_Len (fmlookup (rsi_leaders r) storeID)"

definition RegionsInfo_GetStoreFollowerCount :: "'t RegionsInfo \<Rightarrow> u64 \<Rightarrow> nat" where
  "RegionsInfo_GetStoreFollowerCount r storeID = regionMap_Len (fmlookup (rsi_followers r) storeID)"

definition RegionsInfo_GetStoreLearnerCount :: "'t RegionsInfo \<Rightarrow> u64 \<Rightarrow> nat" where
  "RegionsInfo_GetStoreLearnerCount r storeID = regionMap_Len (fmlookup (rsi_learners r) storeID)"

definition RegionsInfo_GetStorePendingPeerCount :: "'t RegionsInfo \<Rightarrow> u64 \<Rightarrow> nat" where
  "RegionsInfo_GetStorePendingPeerCount r storeID = regionMap_Len (fmlookup (rsi_pendingPeers r) storeID)"

definition RegionsInfo_GetStoreRegionCount :: "'t RegionsInfo \<Rightarrow> u64 \<Rightarrow> nat" where
  "RegionsInfo_GetStoreRegionCount r storeID =
     RegionsInfo_GetStoreLeaderCount r storeID + RegionsInfo_GetStoreFollowerCount r storeID +
     RegionsInfo_GetStoreLearnerCount r storeID"

definition RegionsInfo_RandRegion ::
    "nat list \<Rightarrow> 't RegionsInfo \<Rightarrow> RegionOption list \<Rightarrow> RegionInfo option option" where
  "RegionsInfo_RandRegion rnds r opts = randRegion rnds (Some (rsi_regions r)) opts"

definition RegionsInfo_RandPendingRegion ::
    "nat list \<Rightarrow> 't RegionsInfo \<Rightarrow> u64 \<Rightarrow> RegionOption list \<Rightarrow> RegionInfo option option" where
  "RegionsInfo_RandPendingRegion rnds r storeID opts =
     randRegion rnds (fmlookup (rsi_pendingPeers r) storeID) opts"

definition RegionsInfo_RandLeaderRegion ::
    "nat list \<Rightarrow> 't RegionsInfo \<Rightarrow> u64 \<Rightarrow> RegionOption list \<Rightarrow> RegionInfo option option" where
  "RegionsInfo_RandLeaderRegion rnds r storeID opts =
     randRegion rnds (fmlookup (rsi_leaders r) storeID) opts"

definition RegionsInfo_RandFollowerRegion ::
    "nat list \<Rightarrow> 't RegionsInfo \<Rightarrow> u64 \<Rightarrow> RegionOption list \<Rightarrow> RegionInfo option option" where
  "RegionsInfo_RandFollowerRegion rnds r storeID opts =
     randRegion rnds (fmlookup (rsi_followers r) storeID) opts"

definition RegionsInfo_GetLeader :: "'t RegionsInfo \<Rightarrow> u64 \<Rightarrow> u64 \<Rightarrow> RegionInfo option" where
  "RegionsInfo_GetLeader r storeID regionID = regionMap_Get (fmlookup (rsi_leaders r) storeID) regionID"

definition RegionsInfo_GetFollower :: "'t RegionsInfo \<Rightarrow> u64 \<Rightarrow> u64 \<Rightarrow> RegionInfo option" where
  "RegionsInfo_GetFollower r storeID regionID = regionMap_Get (fmlookup (rsi_followers r) storeID) regionID"

text \<open>
  The results of \<open>ScanRange\<close> are pointers: a tree entry unknown to the map yields nil. The slice
  is made with capacity \<open>limit\<close>, which panics for a negative one.
\<close>

definition RegionsInfo_ScanRange ::
    "'t region_btree \<Rightarrow> 't RegionsInfo \<Rightarrow> bytes \<Rightarrow> int \<Rightarrow> RegionInfo option list option" where
  "RegionsInfo_ScanRange bt r startKey limit =
     (if limit < 0 then None
      else Some (regionTree_scanRange bt (rsi_tree r) startKey
        (\<lambda>res metaRegion. let res = res @ [RegionsInfo_GetRegion r (Region_Id metaRegion)]
                          in (res, int (length res) < limit)) []))"

definition RegionsInfo_ScanRangeWithEndKey ::
    "'t region_btree \<Rightarrow> 't RegionsInfo \<Rightarrow> bytes \<Rightarrow> bytes \<Rightarrow> RegionInfo list" where
  "RegionsInfo_ScanRangeWithEndKey bt r startKey endKey =
     regionTree_scanRange bt (rsi_tree r) startKey
       (\<lambda>regions meta.
          if length endKey > 0 \<and>
             (length (Region_EndKey meta) = 0 \<or> bytes_Compare (Region_EndKey meta) endKey \<ge> 0)
          then (regions, False)
          else (case RegionsInfo_GetRegion r (Region_Id meta) of
                  Some region \<Rightarrow> (regions @ [region], True)
                | None \<Rightarrow> (regions, True))) []"

definition RegionsInfo_ScanRangeWithIterator ::
    "'t region_btree \<Rightarrow> 't RegionsInfo \<Rightarrow> bytes \<Rightarrow> ('s \<Rightarrow> metapb_Region \<Rightarrow> 's \<times> bool) \<Rightarrow> 's \<Rightarrow> 's" where
  "RegionsInfo_ScanRangeWithIterator bt r startKey iterator s =
     regionTree_scanRange bt (rsi_tree r) startKey iterator s"

definition RegionsInfo_GetAdjacentRegions ::
    "'t region_btree \<Rightarrow> 't RegionsInfo \<Rightarrow> RegionInfo \<Rightarrow> RegionInfo option \<times> RegionInfo option" where
  "RegionsInfo_GetAdjacentRegions bt r region =
     (case regionTree_getAdjacentRegions bt (rsi_tree r) (ri_meta region) of
        (metaPrev, metaNext) \<Rightarrow>
          ((case metaPrev of
              Some i \<Rightarrow> if Region_EndKey (item_region i) = Region_StartKey (ri_meta region)
                        then RegionsInfo_GetRegion r (Region_Id (item_region i)) else None
            | None \<Rightarrow> None),
           (case metaNext of
              Some i \<Rightarrow> if Region_EndKey (ri_meta region) = Region_StartKey (item_region i)
                        then RegionsInfo_GetRegion r (Region_Id (item_region i)) else None
            | None \<Rightarrow> None)))"

definition RegionsInfo_GetAverageRegionSize :: "'t RegionsInfo \<Rightarrow> i64 option" where
  "RegionsInfo_GetAverageRegionSize r =
     (if regionMap_Len (Some (rsi_regions r)) = 0 then Some 0
      else go_sdiv (regionMap_TotalSize (Some (rsi_regions r)))
             (of_nat (regionMap_Len (Some (rsi_regions r)))))"

subsection \<open>The invariant\<close>

definition leader_stores :: "RegionInfo \<Rightarrow> u64 set" where
  "leader_stores r = Peer_StoreId ` set (filter (\<lambda>p. Peer_Id p = Peer_GetId (ri_leader r)) (ri_voters r))"

definition follower_stores :: "RegionInfo \<Rightarrow> u64 set" where
  "follower_stores r = Peer_StoreId ` set (filter (\<lambda>p. Peer_Id p \<noteq> Peer_GetId (ri_leader r)) (ri_voters r))"

definition learner_stores :: "RegionInfo \<Rightarrow> u64 set" where
  "learner_stores r = Peer_StoreId ` set (ri_learners r)"

definition pending_stores :: "RegionInfo \<Rightarrow> u64 set" where
  "pending_stores r = Peer_StoreId ` set (ri_pendingPeers r)"

definition peer_stores :: "RegionInfo \<Rightarrow> u64 set" where
  "peer_stores r = Peer_StoreId ` set (Region_Peers (ri_meta r))"

text \<open>
  What a region must satisfy to be cached consistently: a non-empty range, voters and learners
  split from its peers, and pending peers only on stores that have a peer.
\<close>

definition region_ok :: "RegionInfo \<Rightarrow> bool" where
  "region_ok r \<longleftrightarrow> range_ok (ri_meta r) \<and> region_classified r \<and> pending_stores r \<subseteq> peer_stores r"

definition store_Get :: "store_regions \<Rightarrow> u64 \<Rightarrow> u64 \<Rightarrow> RegionInfo option" where
  "store_Get stores s i = regionMap_Get (fmlookup stores s) i"

definition store_inv :: "store_regions \<Rightarrow> bool" where
  "store_inv stores \<longleftrightarrow> (\<forall>s rm. fmlookup stores s = Some rm \<longrightarrow> regionMap_inv rm)"

text \<open>The maps of a role hold a region at exactly the stores where it has that role.\<close>

definition role_exact ::
    "(RegionInfo \<Rightarrow> u64 set) \<Rightarrow> (u64, RegionInfo) fmap \<Rightarrow> store_regions \<Rightarrow> bool" where
  "role_exact f R stores \<longleftrightarrow> store_inv stores \<and>
     (\<forall>s i. store_Get stores s i =
        (case fmlookup R i of None \<Rightarrow> None | Some r \<Rightarrow> if s \<in> f r then Some r else None))"

definition known_regions :: "'t RegionsInfo \<Rightarrow> (u64, RegionInfo) fmap" where
  "known_regions r = regionMap_view (rsi_regions r)"

definition maps_inv :: "'t RegionsInfo \<Rightarrow> bool" where
  "maps_inv r \<longleftrightarrow> regionMap_inv (rsi_regions r) \<and>
     (\<forall>i x. fmlookup (known_regions r) i = Some x \<longrightarrow> region_ok x) \<and>
     role_exact leader_stores (known_regions r) (rsi_leaders r) \<and>
     role_exact follower_stores (known_regions r) (rsi_followers r) \<and>
     role_exact learner_stores (known_regions r) (rsi_learners r) \<and>
     role_exact pending_stores (known_regions r) (rsi_pendingPeers r)"

definition regionsInfo_inv :: "'t region_btree \<Rightarrow> 't RegionsInfo \<Rightarrow> bool" where
  "regionsInfo_inv bt r \<longleftrightarrow> maps_inv r \<and> tree_inv bt (rsi_tree r) \<and>
     (\<forall>m. m \<in> set (tree_regions bt (rsi_tree r)) \<longleftrightarrow>
        (\<exists>x. fmlookup (known_regions r) (Region_Id m) = Some x \<and> ri_meta x = m))"

subsection \<open>The maps of one role\<close>

lemma store_Get_None [simp]: "fmlookup stores s = None \<Longrightarrow> store_Get stores s i = None"
  by (simp add: store_Get_def regionMap_Get_def)

lemma Get_newRegionMap [simp]: "regionMap_Get (Some newRegionMap) i = None"
  by (simp add: regionMap_Get_def newRegionMap_def)

lemma Get_None [simp]: "regionMap_Get None i = None"
  by (simp add: regionMap_Get_def)

lemma Get_Put: "regionMap_inv rm \<Longrightarrow> regionMap_Get (Some (regionMap_Put rm x)) i =
    (if i = Region_Id (ri_meta x) then Some x else regionMap_Get (Some rm) i)"
  using arg_cong [OF rmap.put_view, of rm "\<lambda>m. fmlookup m i" x] by simp

lemma store_Put_ok:
  assumes "store_inv stores"
  shows "store_inv (store_Put x s stores)"
    and "store_Get (store_Put x s stores) s' i =
      (if s' = s \<and> i = Region_Id (ri_meta x) then Some x else store_Get stores s' i)"
  using assms
  by (auto simp: store_inv_def store_Put_def Let_def store_Get_def newRegionMap_inv
      regionMap_Put_inv Get_Put split: option.splits)

lemma store_Delete_ok:
  assumes "store_inv stores"
  shows "\<exists>stores'. store_Delete i s stores = Some stores' \<and> store_inv stores' \<and>
    (\<forall>s' j. store_Get stores' s' j = (if s' = s \<and> j = i then None else store_Get stores s' j))"
proof (cases "fmlookup stores s")
  case None
  with assms show ?thesis by (auto simp: store_Delete_def)
next
  case (Some rm)
  with assms have "regionMap_inv rm" by (auto simp: store_inv_def)
  from rmap.del_ok [OF this, of i] obtain rm' where
    rm': "regionMap_Delete rm i = Some rm'" "regionMap_inv rm'" "regionMap_view rm' = fmdrop i (regionMap_view rm)"
    by blast
  have "regionMap_Get (Some rm') j = (if j = i then None else regionMap_Get (Some rm) j)" for j
    using arg_cong [OF rm'(3), of "\<lambda>m. fmlookup m j"] by simp
  with Some rm' assms show ?thesis by (auto simp: store_Delete_def store_inv_def store_Get_def)
qed

lemma fold_store_Put_ok:
  assumes "store_inv stores"
  shows "store_inv (fold (store_Put x) ss stores) \<and>
    store_Get (fold (store_Put x) ss stores) s i =
      (if s \<in> set ss \<and> i = Region_Id (ri_meta x) then Some x else store_Get stores s i)"
  using assms
  by (induction ss arbitrary: stores) (auto simp: store_Put_ok)

lemma role_exact_add:
  assumes "role_exact f R stores" "fmlookup R (Region_Id (ri_meta x)) = None" "set ss = f x"
  shows "role_exact f (fmupd (Region_Id (ri_meta x)) x R) (fold (store_Put x) ss stores)"
  using assms fold_store_Put_ok [of stores x ss] by (auto simp: role_exact_def)

text \<open>\<open>m'\<close> is \<open>m\<close> with region \<open>i\<close> taken out at the stores \<open>S\<close>.\<close>

definition cleared :: "u64 \<Rightarrow> u64 set \<Rightarrow> store_regions \<Rightarrow> store_regions \<Rightarrow> bool" where
  "cleared i S m m' \<longleftrightarrow> store_inv m' \<and>
     (\<forall>s j. store_Get m' s j = (if s \<in> S \<and> j = i then None else store_Get m s j))"

lemma cleared_empty: "store_inv m \<Longrightarrow> cleared i {} m m"
  by (simp add: cleared_def)

lemma cleared_step: "cleared i {s} m m1 \<Longrightarrow> cleared i S m1 m2 \<Longrightarrow> cleared i (insert s S) m m2"
  by (auto simp: cleared_def)

lemma store_Delete_cleared:
  "store_inv m \<Longrightarrow> \<exists>m'. store_Delete i s m = Some m' \<and> cleared i {s} m m'"
  using store_Delete_ok [of m i s] by (auto simp: cleared_def)

lemma role_exact_remove:
  assumes "role_exact f R m" "fmlookup R i = Some x" "f x \<subseteq> S" "cleared i S m m'"
  shows "role_exact f (fmdrop i R) m'"
  using assms by (auto simp: role_exact_def cleared_def)

lemma RemoveRegion_peers_ok:
  assumes "store_inv (rsi_leaders r)" "store_inv (rsi_followers r)"
    and "store_inv (rsi_learners r)" "store_inv (rsi_pendingPeers r)"
  shows "\<exists>r'. RemoveRegion_peers i ps r = Some r' \<and>
    rsi_tree r' = rsi_tree r \<and> rsi_regions r' = rsi_regions r \<and>
    cleared i (Peer_StoreId ` set ps) (rsi_leaders r) (rsi_leaders r') \<and>
    cleared i (Peer_StoreId ` set ps) (rsi_followers r) (rsi_followers r') \<and>
    cleared i (Peer_StoreId ` set ps) (rsi_learners r) (rsi_learners r') \<and>
    cleared i (Peer_StoreId ` set ps) (rsi_pendingPeers r) (rsi_pendingPeers r')"
  using assms
proof (induction ps arbitrary: r)
  case Nil
  then show ?case by (simp add: cleared_empty)
next
  case (Cons p ps)
  let ?s = "Peer_StoreId p"
  obtain a b c d where D:
    "store_Delete i ?s (rsi_leaders r) = Some a" "cleared i {?s} (rsi_leaders r) a"
    "store_Delete i ?s (rsi_followers r) = Some b" "cleared i {?s} (rsi_followers r) b"
    "store_Delete i ?s (rsi_learners r) = Some c" "cleared i {?s} (rsi_learners r) c"
    "store_Delete i ?s (rsi_pendingPeers r) = Some d" "cleared i {?s} (rsi_pendingPeers r) d"
    using Cons.prems [THEN store_Delete_cleared] by metis
  let ?r = "r\<lparr>rsi_leaders := a, rsi_followers := b, rsi_learners := c, rsi_pendingPeers := d\<rparr>"
  obtain r' where R: "RemoveRegion_peers i ps ?r = Some r'" "rsi_tree r' = rsi_tree r"
    "rsi_regions r' = rsi_regions r"
    "cleared i (Peer_StoreId ` set ps) a (rsi_leaders r')"
    "cleared i (Peer_StoreId ` set ps) b (rsi_followers r')"
    "cleared i (Peer_StoreId ` set ps) c (rsi_learners r')"
    "cleared i (Peer_StoreId ` set ps) d (rsi_pendingPeers r')"
    using Cons.IH [of ?r] D by (auto simp: cleared_def)
  show ?case
    using R D(1,3,5,7) D(2,4,6,8) [THEN cleared_step]
    by (simp add: Let_def)
qed

lemma fold_voter_eq:
  "fold (AddRegion_voter x) vs r = r
     \<lparr>rsi_leaders := fold (store_Put x)
        (map Peer_StoreId (filter (\<lambda>p. Peer_Id p = Peer_GetId (ri_leader x)) vs)) (rsi_leaders r),
      rsi_followers := fold (store_Put x)
        (map Peer_StoreId (filter (\<lambda>p. Peer_Id p \<noteq> Peer_GetId (ri_leader x)) vs)) (rsi_followers r)\<rparr>"
  by (induction vs arbitrary: r) (simp_all add: AddRegion_voter_def)

lemma fold_learner_eq:
  "fold (AddRegion_learner x) ps r = r
     \<lparr>rsi_learners := fold (store_Put x) (map Peer_StoreId ps) (rsi_learners r)\<rparr>"
  by (induction ps arbitrary: r) (simp_all add: AddRegion_learner_def)

lemma fold_pending_eq:
  "fold (AddRegion_pending x) ps r = r
     \<lparr>rsi_pendingPeers := fold (store_Put x) (map Peer_StoreId ps) (rsi_pendingPeers r)\<rparr>"
  by (induction ps arbitrary: r) (simp_all add: AddRegion_pending_def)

subsection \<open>Removing and adding a region\<close>

lemma classified_stores:
  assumes "region_ok x"
  shows "leader_stores x \<subseteq> peer_stores x" "follower_stores x \<subseteq> peer_stores x"
    "learner_stores x \<subseteq> peer_stores x" "pending_stores x \<subseteq> peer_stores x"
  using assms by (auto simp: region_ok_def region_classified_def leader_stores_def
      follower_stores_def learner_stores_def peer_stores_def)

lemma RemoveRegion_maps:
  assumes "maps_inv r" "fmlookup (known_regions r) (Region_Id (ri_meta x)) = Some x"
  shows "\<exists>r'. RegionsInfo_RemoveRegion bt r x = Some r' \<and> maps_inv r' \<and>
    known_regions r' = fmdrop (Region_Id (ri_meta x)) (known_regions r) \<and>
    rsi_tree r' = regionTree_remove bt (rsi_tree r) (ri_meta x)"
proof -
  let ?i = "Region_Id (ri_meta x)"
  have inv: "regionMap_inv (rsi_regions r)" and ok: "region_ok x"
    and roles: "role_exact leader_stores (known_regions r) (rsi_leaders r)"
      "role_exact follower_stores (known_regions r) (rsi_followers r)"
      "role_exact learner_stores (known_regions r) (rsi_learners r)"
      "role_exact pending_stores (known_regions r) (rsi_pendingPeers r)"
    using assms unfolding maps_inv_def by blast+
  obtain rm where rm: "regionMap_Delete (rsi_regions r) ?i = Some rm" "regionMap_inv rm"
    "regionMap_view rm = fmdrop ?i (known_regions r)"
    using rmap.del_ok [OF inv] unfolding known_regions_def by blast
  let ?r = "r\<lparr>rsi_tree := regionTree_remove bt (rsi_tree r) (ri_meta x), rsi_regions := rm\<rparr>"
  obtain r' where R: "RemoveRegion_peers ?i (Region_Peers (ri_meta x)) ?r = Some r'"
    "rsi_tree r' = rsi_tree ?r" "rsi_regions r' = rm"
    "cleared ?i (peer_stores x) (rsi_leaders r) (rsi_leaders r')"
    "cleared ?i (peer_stores x) (rsi_followers r) (rsi_followers r')"
    "cleared ?i (peer_stores x) (rsi_learners r) (rsi_learners r')"
    "cleared ?i (peer_stores x) (rsi_pendingPeers r) (rsi_pendingPeers r')"
    using RemoveRegion_peers_ok [of ?r ?i "Region_Peers (ri_meta x)"] roles
    by (auto simp: role_exact_def peer_stores_def)
  have known: "known_regions r' = fmdrop ?i (known_regions r)"
    using rm(3) R(3) by (simp add: known_regions_def)
  have "maps_inv r'"
    unfolding maps_inv_def known
    using assms(1) rm(2) R(3) roles [THEN role_exact_remove, OF assms(2)] classified_stores [OF ok] R(4-7)
    by (simp add: maps_inv_def)
  with R rm known show ?thesis by (auto simp: RegionsInfo_RemoveRegion_def Let_def)
qed

definition AddRegion_maps :: "RegionInfo \<Rightarrow> 't RegionsInfo \<Rightarrow> 't RegionsInfo" where
  "AddRegion_maps x r =
     fold (AddRegion_pending x) (ri_pendingPeers x)
       (fold (AddRegion_learner x) (ri_learners x)
         (fold (AddRegion_voter x) (ri_voters x)
           (r\<lparr>rsi_regions := regionMap_Put (rsi_regions r) x\<rparr>)))"

lemma AddRegion_eq:
  "RegionsInfo_AddRegion bt r x =
     (case regionTree_update bt (rsi_tree r) (ri_meta x) of (tree, overs) \<Rightarrow>
        map_option (\<lambda>r. (AddRegion_maps x r, overs)) (AddRegion_evict bt overs (r\<lparr>rsi_tree := tree\<rparr>)))"
  by (auto simp: RegionsInfo_AddRegion_def AddRegion_maps_def Let_def split: prod.splits bind_splits)

lemma AddRegion_maps_ok:
  assumes "maps_inv r" "fmlookup (known_regions r) (Region_Id (ri_meta x)) = None" "region_ok x"
  shows "maps_inv (AddRegion_maps x r)"
    and "known_regions (AddRegion_maps x r) = fmupd (Region_Id (ri_meta x)) x (known_regions r)"
    and "rsi_tree (AddRegion_maps x r) = rsi_tree r"
proof -
  note eqs = AddRegion_maps_def fold_voter_eq fold_learner_eq fold_pending_eq
  have inv: "regionMap_inv (rsi_regions r)" using assms(1) by (simp add: maps_inv_def)
  show known: "known_regions (AddRegion_maps x r) = fmupd (Region_Id (ri_meta x)) x (known_regions r)"
    by (simp add: eqs known_regions_def rmap.put_view [OF inv])
  show "rsi_tree (AddRegion_maps x r) = rsi_tree r" by (simp add: eqs)
  show "maps_inv (AddRegion_maps x r)"
    unfolding maps_inv_def known
    using assms(1,3) regionMap_Put_inv [OF inv, of x] role_exact_add [OF _ assms(2)]
    by (auto simp: eqs maps_inv_def leader_stores_def follower_stores_def learner_stores_def
        pending_stores_def)
qed

lemma known_id:
  assumes "maps_inv r" "fmlookup (known_regions r) i = Some x"
  shows "Region_Id (ri_meta x) = i"
  using assms regionMap_invD(3) [of "rsi_regions r" i]
  by (auto simp: maps_inv_def known_regions_def regionMap_Get_def)

lemma GetRegion_known: "RegionsInfo_GetRegion r i = fmlookup (known_regions r) i"
  by (simp add: RegionsInfo_GetRegion_def known_regions_def)

lemma AddRegion_evict_ok:
  assumes "maps_inv r" "distinct (map Region_Id os)"
    and "\<And>o'. o' \<in> set os \<Longrightarrow> \<exists>y. fmlookup (known_regions r) (Region_Id o') = Some y \<and> ri_meta y = o'"
    and "\<And>o'. o' \<in> set os \<Longrightarrow> regionTree_remove bt (rsi_tree r) o' = rsi_tree r"
  shows "\<exists>r'. AddRegion_evict bt os r = Some r' \<and> maps_inv r' \<and> rsi_tree r' = rsi_tree r \<and>
    (\<forall>i. fmlookup (known_regions r') i =
       (if i \<in> Region_Id ` set os then None else fmlookup (known_regions r) i))"
  using assms
proof (induction os arbitrary: r)
  case (Cons o' os)
  obtain y where y: "fmlookup (known_regions r) (Region_Id o') = Some y" "ri_meta y = o'"
    using Cons.prems(3) by auto
  obtain r1 where r1: "RegionsInfo_RemoveRegion bt r y = Some r1" "maps_inv r1"
    "known_regions r1 = fmdrop (Region_Id o') (known_regions r)" "rsi_tree r1 = rsi_tree r"
    using RemoveRegion_maps [OF Cons.prems(1), of y bt] y Cons.prems(4) [of o'] by auto
  have "\<exists>r'. AddRegion_evict bt os r1 = Some r' \<and> maps_inv r' \<and> rsi_tree r' = rsi_tree r1 \<and>
    (\<forall>i. fmlookup (known_regions r') i =
       (if i \<in> Region_Id ` set os then None else fmlookup (known_regions r1) i))"
    using Cons.prems r1 by (intro Cons.IH) (auto simp: rev_image_eqI)
  with r1 y show ?case by (auto simp: GetRegion_known)
qed simp

context region_index
begin

lemma RemoveRegion_inv:
  assumes inv: "regionsInfo_inv bt r" and x: "fmlookup (known_regions r) (Region_Id (ri_meta x)) = Some x"
  shows "\<exists>r'. RegionsInfo_RemoveRegion bt r x = Some r' \<and> regionsInfo_inv bt r' \<and>
    known_regions r' = fmdrop (Region_Id (ri_meta x)) (known_regions r) \<and>
    set (tree_regions bt (rsi_tree r')) = set (tree_regions bt (rsi_tree r)) - {ri_meta x}"
proof -
  have M: "maps_inv r" and T: "tree_inv bt (rsi_tree r)"
    and S: "\<And>m. m \<in> set (tree_regions bt (rsi_tree r)) \<longleftrightarrow>
        (\<exists>x. fmlookup (known_regions r) (Region_Id m) = Some x \<and> ri_meta x = m)"
    using inv by (auto simp: regionsInfo_inv_def)
  obtain r' where r': "RegionsInfo_RemoveRegion bt r x = Some r'" "maps_inv r'"
    "known_regions r' = fmdrop (Region_Id (ri_meta x)) (known_regions r)"
    "rsi_tree r' = regionTree_remove bt (rsi_tree r) (ri_meta x)"
    using RemoveRegion_maps [OF M x] by blast
  have "range_ok (ri_meta x)" using M x unfolding maps_inv_def region_ok_def by blast
  then have "covers (ri_meta x) (Region_StartKey (ri_meta x))" by (auto simp: covers_def range_ok_def)
  with x have set': "set (tree_regions bt (rsi_tree r')) = set (tree_regions bt (rsi_tree r)) - {ri_meta x}"
    unfolding r'(4) remove_regions [OF T] by (auto simp: S)
  have "tree_inv bt (rsi_tree r')" unfolding r'(4) by (rule remove_inv [OF T])
  with r'(2) x have "regionsInfo_inv bt r'"
    unfolding regionsInfo_inv_def set' r'(3) by (auto simp: S)
  with r' set' show ?thesis by blast
qed

lemma tree_known:
  "regionsInfo_inv bt r \<Longrightarrow> m \<in> set (tree_regions bt (rsi_tree r)) \<Longrightarrow>
    \<exists>x. fmlookup (known_regions r) (Region_Id m) = Some x \<and> ri_meta x = m"
  unfolding regionsInfo_inv_def by blast

lemma known_tree:
  assumes "regionsInfo_inv bt r" "fmlookup (known_regions r) i = Some x"
  shows "ri_meta x \<in> set (tree_regions bt (rsi_tree r)) \<and> Region_Id (ri_meta x) = i"
proof -
  have "Region_Id (ri_meta x) = i" using assms known_id by (auto simp: regionsInfo_inv_def)
  with assms show ?thesis unfolding regionsInfo_inv_def by blast
qed

lemma tree_ids_inj:
  assumes "regionsInfo_inv bt r" "a \<in> set (tree_regions bt (rsi_tree r))"
    "b \<in> set (tree_regions bt (rsi_tree r))" "Region_Id a = Region_Id b"
  shows "a = b"
  using tree_known [OF assms(1,2)] tree_known [OF assms(1,3)] assms(4) by (metis option.inject)

lemma tree_ids_distinct:
  assumes "regionsInfo_inv bt r"
  shows "distinct (map Region_Id (filter P (tree_regions bt (rsi_tree r))))"
proof -
  have T: "tree_inv bt (rsi_tree r)" using assms by (simp add: regionsInfo_inv_def)
  have "sorted_wrt (\<lambda>a b. Region_StartKey a < Region_StartKey b) (tree_regions bt (rsi_tree r))"
    using T by (auto simp: tree_inv_def intro: sorted_ends_before_start)
  then have "distinct (tree_regions bt (rsi_tree r))"
    by (rule sorted_wrt_distinct) simp
  then show ?thesis
    using tree_ids_inj [OF assms] by (auto simp: distinct_map inj_on_def)
qed

lemma AddRegion_evict_overlaps:
  assumes inv: "regionsInfo_inv bt r" and new: "fmlookup (known_regions r) (Region_Id (ri_meta x)) = None"
    and ok: "region_ok x"
  defines "t' \<equiv> fst (regionTree_update bt (rsi_tree r) (ri_meta x))"
    and "ov \<equiv> filter (overlaps (ri_meta x)) (tree_regions bt (rsi_tree r))"
  shows "\<exists>r'. AddRegion_evict bt ov (r\<lparr>rsi_tree := t'\<rparr>) = Some r' \<and> maps_inv r' \<and> rsi_tree r' = t' \<and>
    (\<forall>i. fmlookup (known_regions r') i =
       (if i \<in> Region_Id ` set ov then None else fmlookup (known_regions r) i))"
proof -
  let ?r = "r\<lparr>rsi_tree := t'\<rparr>"
  have M: "maps_inv r" and T: "tree_inv bt (rsi_tree r)"
    and S: "\<And>m. m \<in> set (tree_regions bt (rsi_tree r)) \<Longrightarrow>
        \<exists>x. fmlookup (known_regions r) (Region_Id m) = Some x \<and> ri_meta x = m"
    using inv by (auto simp: regionsInfo_inv_def)
  have rok: "range_ok (ri_meta x)" using ok by (simp add: region_ok_def)
  have known: "known_regions ?r = known_regions r" by (simp add: known_regions_def)
  have "regionTree_remove bt t' o' = t'" if o': "o' \<in> set ov" for o'
  proof (rule remove_noop)
    show "tree_inv bt t'" unfolding t'_def by (rule update_inv [OF T rok])
    fix y assume y: "y \<in> set (tree_regions bt t')" "Region_Id y = Region_Id o'"
    from o' have ot: "o' \<in> set (tree_regions bt (rsi_tree r))" "overlaps (ri_meta x) o'"
      by (auto simp: ov_def)
    with S [OF ot(1)] y(2) new have "y \<noteq> ri_meta x" by auto
    with y(1) have "y \<in> set (tree_regions bt (rsi_tree r))" "\<not> overlaps (ri_meta x) y"
      unfolding t'_def set_update [OF T rok] by auto
    with ot y(2) tree_ids_inj [OF inv, of y o'] show "\<not> covers y (Region_StartKey o')" by auto
  qed
  moreover have "maps_inv ?r" using M by (simp add: maps_inv_def known)
  ultimately have "\<exists>r'. AddRegion_evict bt ov ?r = Some r' \<and> maps_inv r' \<and> rsi_tree r' = rsi_tree ?r \<and>
    (\<forall>i. fmlookup (known_regions r') i =
       (if i \<in> Region_Id ` set ov then None else fmlookup (known_regions ?r) i))"
    using S by (intro AddRegion_evict_ok)
      (auto simp: known ov_def tree_ids_distinct [OF inv])
  then show ?thesis unfolding known by simp
qed

lemma overlap_ids:
  assumes inv: "regionsInfo_inv bt r"
  shows "i \<in> Region_Id ` set (filter (overlaps m) (tree_regions bt (rsi_tree r))) \<longleftrightarrow>
      (\<exists>y. fmlookup (known_regions r) i = Some y \<and> overlaps m (ri_meta y))"
proof
  assume "i \<in> Region_Id ` set (filter (overlaps m) (tree_regions bt (rsi_tree r)))"
  then obtain o' where "o' \<in> set (tree_regions bt (rsi_tree r))" "overlaps m o'" "i = Region_Id o'"
    by auto
  with tree_known [OF inv, of o'] show "\<exists>y. fmlookup (known_regions r) i = Some y \<and> overlaps m (ri_meta y)"
    by metis
next
  assume "\<exists>y. fmlookup (known_regions r) i = Some y \<and> overlaps m (ri_meta y)"
  then obtain y where y: "fmlookup (known_regions r) i = Some y" "overlaps m (ri_meta y)" by blast
  note t = known_tree [OF inv y(1)]
  with y(2) have "ri_meta y \<in> set (filter (overlaps m) (tree_regions bt (rsi_tree r)))" by simp
  with t show "i \<in> Region_Id ` set (filter (overlaps m) (tree_regions bt (rsi_tree r)))"
    by (metis imageI)
qed

lemma AddRegion_inv:
  assumes inv: "regionsInfo_inv bt r" and new: "fmlookup (known_regions r) (Region_Id (ri_meta x)) = None"
    and ok: "region_ok x"
  shows "\<exists>r'. RegionsInfo_AddRegion bt r x =
      Some (r', filter (overlaps (ri_meta x)) (tree_regions bt (rsi_tree r))) \<and>
    regionsInfo_inv bt r' \<and>
    (\<forall>i. fmlookup (known_regions r') i = (if i = Region_Id (ri_meta x) then Some x else
       case fmlookup (known_regions r) i of None \<Rightarrow> None
       | Some y \<Rightarrow> if overlaps (ri_meta x) (ri_meta y) then None else Some y))"
proof -
  let ?t = "fst (regionTree_update bt (rsi_tree r) (ri_meta x))"
  let ?ov = "filter (overlaps (ri_meta x)) (tree_regions bt (rsi_tree r))"
  have M: "maps_inv r" and T: "tree_inv bt (rsi_tree r)"
    and S: "\<And>m. m \<in> set (tree_regions bt (rsi_tree r)) \<longleftrightarrow>
        (\<exists>x. fmlookup (known_regions r) (Region_Id m) = Some x \<and> ri_meta x = m)"
    using inv by (auto simp: regionsInfo_inv_def)
  have rok: "range_ok (ri_meta x)" using ok by (simp add: region_ok_def)
  obtain r1 where r1: "AddRegion_evict bt ?ov (r\<lparr>rsi_tree := ?t\<rparr>) = Some r1" "maps_inv r1"
    "rsi_tree r1 = ?t" "\<And>i. fmlookup (known_regions r1) i =
       (if i \<in> Region_Id ` set ?ov then None else fmlookup (known_regions r) i)"
    using AddRegion_evict_overlaps [OF inv new ok] by blast
  note ids = overlap_ids [OF inv, of _ "ri_meta x"]
  have new1: "fmlookup (known_regions r1) (Region_Id (ri_meta x)) = None" using r1(4) new by simp
  note A = AddRegion_maps_ok [OF r1(2) new1 ok]
  have look: "fmlookup (known_regions (AddRegion_maps x r1)) i =
      (if i = Region_Id (ri_meta x) then Some x else
       case fmlookup (known_regions r) i of None \<Rightarrow> None
       | Some y \<Rightarrow> if overlaps (ri_meta x) (ri_meta y) then None else Some y)" for i
    unfolding A(2) fmupd_lookup r1(4) ids by (auto split: option.splits)
  have "regionsInfo_inv bt (AddRegion_maps x r1)"
    unfolding regionsInfo_inv_def A(3) r1(3) set_update [OF T rok] look
    using A(1) update_inv [OF T rok] new by (auto simp: S split: option.splits if_splits)
  moreover have "RegionsInfo_AddRegion bt r x = Some (AddRegion_maps x r1, ?ov)"
    using r1(1) update_overlaps [OF T rok]
    by (cases "regionTree_update bt (rsi_tree r) (ri_meta x)") (auto simp: AddRegion_eq)
  ultimately show ?thesis using look by blast
qed

lemma SetRegion_inv:
  assumes inv: "regionsInfo_inv bt r" and ok: "region_ok x"
  shows "\<exists>r' ov. RegionsInfo_SetRegion bt r x = Some (r', ov) \<and> regionsInfo_inv bt r' \<and>
    (\<forall>m. m \<in> set ov \<longleftrightarrow> m \<in> set (tree_regions bt (rsi_tree r)) \<and>
       Region_Id m \<noteq> Region_Id (ri_meta x) \<and> overlaps (ri_meta x) m) \<and>
    (\<forall>i. fmlookup (known_regions r') i = (if i = Region_Id (ri_meta x) then Some x else
       case fmlookup (known_regions r) i of None \<Rightarrow> None
       | Some y \<Rightarrow> if overlaps (ri_meta x) (ri_meta y) then None else Some y))"
proof (cases "fmlookup (known_regions r) (Region_Id (ri_meta x))")
  case None
  have "Region_Id m \<noteq> Region_Id (ri_meta x)" if "m \<in> set (tree_regions bt (rsi_tree r))" for m
    using tree_known [OF inv that] None by auto
  with AddRegion_inv [OF inv None ok] None show ?thesis
    by (auto simp: RegionsInfo_SetRegion_def GetRegion_known [unfolded RegionsInfo_GetRegion_def])
next
  case (Some y)
  then have id: "Region_Id (ri_meta y) = Region_Id (ri_meta x)"
    using inv by (auto simp: regionsInfo_inv_def intro: known_id)
  obtain r1 where r1: "RegionsInfo_RemoveRegion bt r y = Some r1" "regionsInfo_inv bt r1"
    "known_regions r1 = fmdrop (Region_Id (ri_meta x)) (known_regions r)"
    "set (tree_regions bt (rsi_tree r1)) = set (tree_regions bt (rsi_tree r)) - {ri_meta y}"
    using RemoveRegion_inv [OF inv, of y] Some unfolding id by blast
  have tree: "m \<in> set (tree_regions bt (rsi_tree r1)) \<longleftrightarrow>
      m \<in> set (tree_regions bt (rsi_tree r)) \<and> Region_Id m \<noteq> Region_Id (ri_meta x)" for m
    unfolding r1(4) using tree_known [OF inv, of m] known_tree [OF inv Some] id Some
    by (auto dest: tree_ids_inj [OF inv])
  have "fmlookup (known_regions r1) (Region_Id (ri_meta x)) = None" by (simp add: r1(3))
  from AddRegion_inv [OF r1(2) this ok] obtain r' where r':
    "RegionsInfo_AddRegion bt r1 x = Some (r', filter (overlaps (ri_meta x)) (tree_regions bt (rsi_tree r1)))"
    "regionsInfo_inv bt r'" "\<And>i. fmlookup (known_regions r') i = (if i = Region_Id (ri_meta x) then Some x else
       case fmlookup (known_regions r1) i of None \<Rightarrow> None
       | Some y \<Rightarrow> if overlaps (ri_meta x) (ri_meta y) then None else Some y)" by blast
  have "RegionsInfo_SetRegion bt r x =
      Some (r', filter (overlaps (ri_meta x)) (tree_regions bt (rsi_tree r1)))"
    using Some r1(1) r'(1) by (simp add: RegionsInfo_SetRegion_def
        GetRegion_known [unfolded RegionsInfo_GetRegion_def])
  then show ?thesis using r'(2,3) by (auto simp: tree r1(3))
qed

lemma New_inv: "regionsInfo_inv bt (NewRegionsInfo bt)"
proof -
  have "known_regions (NewRegionsInfo bt) = fmempty"
    by (simp add: known_regions_def NewRegionsInfo_def rmap.new_view)
  then show ?thesis
    by (simp add: regionsInfo_inv_def maps_inv_def role_exact_def store_inv_def newRegionMap_inv
        new_inv new_regions NewRegionsInfo_def)
qed

lemma SearchRegion_iff:
  assumes inv: "regionsInfo_inv bt r"
  shows "RegionsInfo_SearchRegion bt r k = Some x \<longleftrightarrow>
    RegionsInfo_GetRegion r (Region_Id (ri_meta x)) = Some x \<and> covers (ri_meta x) k"
proof -
  have T: "tree_inv bt (rsi_tree r)" and S: "\<And>m. m \<in> set (tree_regions bt (rsi_tree r)) \<longleftrightarrow>
        (\<exists>x. fmlookup (known_regions r) (Region_Id m) = Some x \<and> ri_meta x = m)"
    using inv by (auto simp: regionsInfo_inv_def)
  show ?thesis
  proof (cases "regionTree_search bt (rsi_tree r) k")
    case None
    then have "\<not> (fmlookup (known_regions r) (Region_Id (ri_meta x)) = Some x \<and> covers (ri_meta x) k)"
      using search_None_iff [OF T, of k] S [of "ri_meta x"] by blast
    with None show ?thesis by (simp add: RegionsInfo_SearchRegion_def GetRegion_known)
  next
    case (Some m)
    with search_iff [OF T] have m: "m \<in> set (tree_regions bt (rsi_tree r))" "covers m k" by auto
    then obtain y where y: "fmlookup (known_regions r) (Region_Id m) = Some y" "ri_meta y = m"
      using S by blast
    have "x = y" if "fmlookup (known_regions r) (Region_Id (ri_meta x)) = Some x" "covers (ri_meta x) k"
    proof -
      have "ri_meta x \<in> set (tree_regions bt (rsi_tree r))" using S that(1) by blast
      then have "ri_meta x = m" using search_iff [OF T, of k] that(2) Some by (metis option.inject)
      with y that(1) show ?thesis by simp
    qed
    with Some m y show ?thesis by (auto simp: RegionsInfo_SearchRegion_def GetRegion_known)
  qed
qed

lemma adjacent_known:
  assumes inv: "regionsInfo_inv bt r" and x: "RegionsInfo_GetRegion r (Region_Id (ri_meta x)) = Some x"
  shows "fst (RegionsInfo_GetAdjacentRegions bt r x) = Some p \<longleftrightarrow>
      RegionsInfo_GetRegion r (Region_Id (ri_meta p)) = Some p \<and>
      Region_EndKey (ri_meta p) \<noteq> [] \<and> Region_EndKey (ri_meta p) = Region_StartKey (ri_meta x)"
proof -
  have T: "tree_inv bt (rsi_tree r)" using inv by (simp add: regionsInfo_inv_def)
  have xt: "ri_meta x \<in> set (tree_regions bt (rsi_tree r))"
    using known_tree [OF inv] x by (auto simp: GetRegion_known)
  let ?a = "map_option item_region (fst (regionTree_getAdjacentRegions bt (rsi_tree r) (ri_meta x)))"
  have "fst (RegionsInfo_GetAdjacentRegions bt r x) = Some p \<longleftrightarrow>
      (\<exists>m. ?a = Some m \<and> Region_EndKey m = Region_StartKey (ri_meta x) \<and>
        fmlookup (known_regions r) (Region_Id m) = Some p)"
    by (auto simp: RegionsInfo_GetAdjacentRegions_def GetRegion_known split: prod.splits option.splits)
  also have "\<dots> \<longleftrightarrow> (\<exists>m. m \<in> set (tree_regions bt (rsi_tree r)) \<and> Region_EndKey m \<noteq> [] \<and>
      Region_EndKey m = Region_StartKey (ri_meta x) \<and> fmlookup (known_regions r) (Region_Id m) = Some p)"
    using prev_iff [OF T xt] by blast
  also have "\<dots> \<longleftrightarrow> fmlookup (known_regions r) (Region_Id (ri_meta p)) = Some p \<and>
      Region_EndKey (ri_meta p) \<noteq> [] \<and> Region_EndKey (ri_meta p) = Region_StartKey (ri_meta x)"
    using tree_known [OF inv] known_tree [OF inv] by (metis option.inject)
  finally show ?thesis by (simp add: GetRegion_known)
qed

lemma next_iff:
  assumes T: "tree_inv bt t" and x: "x \<in> set (tree_regions bt t)"
  shows "map_option item_region (snd (regionTree_getAdjacentRegions bt t x)) = Some n \<and>
      Region_EndKey x = Region_StartKey n \<longleftrightarrow>
    n \<in> set (tree_regions bt t) \<and> Region_EndKey x \<noteq> [] \<and> Region_EndKey x = Region_StartKey n"
proof -
  let ?P = "\<lambda>y. Region_StartKey x < Region_StartKey y"
  have snd: "map_option item_region (snd (regionTree_getAdjacentRegions bt t x)) =
      List.find ?P (tree_regions bt t)"
    using adjacent_regions [OF T, of x] by (metis snd_conv snd_map_prod)
  show ?thesis unfolding snd
  proof safe
    assume f: "List.find ?P (tree_regions bt t) = Some n"
    show "n \<in> set (tree_regions bt t)" using find_Some_set [OF f] by simp
    assume "Region_EndKey x = Region_StartKey n" "Region_EndKey x = []"
    then show False using find_Some_set [OF f] by simp
  next
    assume n: "n \<in> set (tree_regions bt t)" "Region_EndKey x \<noteq> []" "Region_EndKey x = Region_StartKey n"
    have "range_ok x" using T x by (auto simp: tree_inv_def list_all_iff)
    with n have lt: "?P n" by (auto simp: range_ok_def)
    then obtain q where q: "List.find ?P (tree_regions bt t) = Some q" using find_exists n(1) by fastforce
    have "ends_before x q"
      using tree_inv_ends_before [OF T x, of q] find_Some_set [OF q] by blast
    then have "\<not> ends_before q n"
      using n(3) find_Some_set [OF q] T ends_before_start [of q n]
      by (auto simp: ends_before_def tree_inv_def list_all_iff)
    then have "n = q" using find_sorted_first [OF _ q n(1) lt, of ends_before] T
      by (auto simp: tree_inv_def)
    with q show "List.find ?P (tree_regions bt t) = Some n" by simp
  qed
qed

lemma adjacent_next_known:
  assumes inv: "regionsInfo_inv bt r" and x: "RegionsInfo_GetRegion r (Region_Id (ri_meta x)) = Some x"
  shows "snd (RegionsInfo_GetAdjacentRegions bt r x) = Some n \<longleftrightarrow>
      RegionsInfo_GetRegion r (Region_Id (ri_meta n)) = Some n \<and>
      Region_EndKey (ri_meta x) \<noteq> [] \<and> Region_EndKey (ri_meta x) = Region_StartKey (ri_meta n)"
proof -
  have T: "tree_inv bt (rsi_tree r)" using inv by (simp add: regionsInfo_inv_def)
  have xt: "ri_meta x \<in> set (tree_regions bt (rsi_tree r))"
    using known_tree [OF inv] x by (auto simp: GetRegion_known)
  let ?a = "map_option item_region (snd (regionTree_getAdjacentRegions bt (rsi_tree r) (ri_meta x)))"
  have "snd (RegionsInfo_GetAdjacentRegions bt r x) = Some n \<longleftrightarrow>
      (\<exists>m. ?a = Some m \<and> Region_EndKey (ri_meta x) = Region_StartKey m \<and>
        fmlookup (known_regions r) (Region_Id m) = Some n)"
    by (auto simp: RegionsInfo_GetAdjacentRegions_def GetRegion_known split: prod.splits option.splits)
  also have "\<dots> \<longleftrightarrow> (\<exists>m. m \<in> set (tree_regions bt (rsi_tree r)) \<and> Region_EndKey (ri_meta x) \<noteq> [] \<and>
      Region_EndKey (ri_meta x) = Region_StartKey m \<and> fmlookup (known_regions r) (Region_Id m) = Some n)"
    using next_iff [OF T xt] by blast
  also have "\<dots> \<longleftrightarrow> fmlookup (known_regions r) (Region_Id (ri_meta n)) = Some n \<and>
      Region_EndKey (ri_meta x) \<noteq> [] \<and> Region_EndKey (ri_meta x) = Region_StartKey (ri_meta n)"
    using tree_known [OF inv] known_tree [OF inv] by (metis option.inject)
  finally show ?thesis by (simp add: GetRegion_known)
qed

lemma scan_collect:
  "scan_loop (\<lambda>res m. let res = res @ [g m] in (res, int (length res) < limit)) acc (map RegionItem xs) =
     acc @ map g (take (max 1 (nat limit - length acc)) xs)"
proof (induction xs arbitrary: acc)
  case (Cons x xs)
  show ?case
  proof (cases "int (Suc (length acc)) < limit")
    case True
    then have "nat limit - length acc = Suc (max 1 (nat limit - Suc (length acc)))" by simp
    with True Cons.IH [of "acc @ [g x]"] show ?thesis by (simp add: Let_def max_def)
  next
    case False
    then have "max 1 (nat limit - length acc) = 1" by simp
    with False show ?thesis by (simp add: Let_def)
  qed
qed simp

lemma ScanRange_spec:
  assumes inv: "regionsInfo_inv bt r" and "0 \<le> limit"
  shows "\<exists>xs. RegionsInfo_ScanRange bt r k limit = Some (map Some xs) \<and>
    map ri_meta xs = take (max 1 (nat limit))
      (filter (\<lambda>m. k \<le> Region_StartKey m) (tree_regions bt (rsi_tree r))) \<and>
    (\<forall>x \<in> set xs. RegionsInfo_GetRegion r (Region_Id (ri_meta x)) = Some x)"
proof -
  have T: "tree_inv bt (rsi_tree r)" using inv by (simp add: regionsInfo_inv_def)
  let ?ms = "take (max 1 (nat limit)) (filter (\<lambda>m. k \<le> Region_StartKey m) (tree_regions bt (rsi_tree r)))"
  let ?g = "\<lambda>m. RegionsInfo_GetRegion r (Region_Id m)"
  let ?xs = "map (\<lambda>m. the (?g m)) ?ms"
  have g: "?g m = Some (the (?g m)) \<and> ri_meta (the (?g m)) = m" if "m \<in> set ?ms" for m
  proof -
    have "m \<in> set (tree_regions bt (rsi_tree r))" using in_set_takeD [OF that] by simp
    from tree_known [OF inv this] show ?thesis by (auto simp: GetRegion_known)
  qed
  have "RegionsInfo_ScanRange bt r k limit = Some (map ?g ?ms)"
    using assms(2) scan_collect [of ?g limit "[]"]
    by (simp add: RegionsInfo_ScanRange_def regionTree_scanRange_def scan_items [OF T])
  moreover have "map ?g ?ms = map Some ?xs" using g by simp
  moreover have "map ri_meta ?xs = ?ms" using g by (simp add: map_idI)
  moreover have "RegionsInfo_GetRegion r (Region_Id (ri_meta x)) = Some x" if "x \<in> set ?xs" for x
  proof -
    from that obtain m where m: "m \<in> set ?ms" "x = the (?g m)" by auto
    from g [OF m(1)] have "ri_meta x = m" "?g m = Some x" unfolding m(2) by auto
    then show ?thesis by simp
  qed
  ultimately show ?thesis by metis
qed

end

subsection \<open>Counts and sizes per store\<close>

text \<open>The ids of the regions that have the role \<open>f\<close> at store \<open>s\<close>.\<close>

definition role_ids :: "(RegionInfo \<Rightarrow> u64 set) \<Rightarrow> 't RegionsInfo \<Rightarrow> u64 \<Rightarrow> u64 set" where
  "role_ids f r s = {i. \<exists>x. RegionsInfo_GetRegion r i = Some x \<and> s \<in> f x}"

definition region_size :: "'t RegionsInfo \<Rightarrow> u64 \<Rightarrow> i64" where
  "region_size r i = ri_approximateSize (the (RegionsInfo_GetRegion r i))"

lemma role_exact_totals:
  assumes "role_exact f (known_regions r) stores"
  shows "regionMap_Len (fmlookup stores s) = card (role_ids f r s)"
    and "regionMap_TotalSize (fmlookup stores s) = (\<Sum>i \<in> role_ids f r s. region_size r i)"
proof -
  have get: "regionMap_Get (fmlookup stores s) i = Some x \<longleftrightarrow>
      RegionsInfo_GetRegion r i = Some x \<and> s \<in> f x" for i x
    using assms by (auto simp: role_exact_def store_Get_def GetRegion_known split: option.splits)
  have "regionMap_Len (fmlookup stores s) = card (role_ids f r s) \<and>
    regionMap_TotalSize (fmlookup stores s) = (\<Sum>i \<in> role_ids f r s. region_size r i)"
  proof (cases "fmlookup stores s")
    case None
    then have "role_ids f r s = {}" using get by (simp add: role_ids_def)
    with None show ?thesis by (simp add: regionMap_Len_def regionMap_TotalSize_def)
  next
    case (Some rm)
    have inv: "regionMap_inv rm" using assms Some by (auto simp: role_exact_def store_inv_def)
    have dom: "fset (fmdom (regionMap_view rm)) = role_ids f r s"
      using get Some by (auto simp: role_ids_def fmlookup_dom_iff)
    have "regionMap_TotalSize (Some rm) = (\<Sum>i \<in> role_ids f r s. region_size r i)"
      unfolding regionMap_TotalSize_view [OF inv] map_total_def dom
      by (rule sum.cong [OF refl]) (use get Some in \<open>force simp: role_ids_def region_size_def\<close>)
    moreover have "regionMap_Len (Some rm) = card (role_ids f r s)"
      unfolding regionMap_Len_view fmlen_def fcard.rep_eq dom ..
    ultimately show ?thesis using Some by simp
  qed
  then show "regionMap_Len (fmlookup stores s) = card (role_ids f r s)"
    and "regionMap_TotalSize (fmlookup stores s) = (\<Sum>i \<in> role_ids f r s. region_size r i)" by auto
qed

subsection \<open>Histories\<close>

fun SetRegions :: "'t region_btree \<Rightarrow> RegionInfo list \<Rightarrow> 't RegionsInfo \<Rightarrow> 't RegionsInfo option" where
  "SetRegions bt [] r = Some r"
| "SetRegions bt (x # xs) r =
     do { (r, _) \<leftarrow> RegionsInfo_SetRegion bt r x; SetRegions bt xs r }"

lemma SetRegions_inv:
  assumes "btree_contract bt regionItem_Less" "list_all region_ok xs" "regionsInfo_inv bt r"
  shows "\<exists>r'. SetRegions bt xs r = Some r' \<and> regionsInfo_inv bt r'"
  using assms(2,3)
proof (induction xs arbitrary: r)
  case (Cons x xs)
  then obtain r1 ov where "RegionsInfo_SetRegion bt r x = Some (r1, ov)" "regionsInfo_inv bt r1"
    using region_index.SetRegion_inv [OF region_tree_index [OF assms(1)], of r x] by auto
  with Cons.IH [of r1] Cons.prems show ?case by simp
qed simp

lemma SetRegions_new:
  assumes "btree_contract bt regionItem_Less" "list_all region_ok xs"
  shows "\<exists>r. SetRegions bt xs (NewRegionsInfo bt) = Some r \<and> regionsInfo_inv bt r"
  by (rule SetRegions_inv [OF assms region_index.New_inv [OF region_tree_index [OF assms(1)]]])

definition sample_info :: "u64 \<Rightarrow> bytes \<Rightarrow> bytes \<Rightarrow> RegionInfo" where
  "sample_info i s e =
     (let leader = \<lparr>Peer_Id = 10 * i, Peer_StoreId = 1, Peer_IsLearner = False\<rparr>;
          follower = \<lparr>Peer_Id = 10 * i + 1, Peer_StoreId = 2, Peer_IsLearner = False\<rparr>
      in NewRegionInfo \<lparr>Region_Id = i, Region_StartKey = s, Region_EndKey = e,
           Region_RegionEpoch = None, Region_Peers = [leader, follower]\<rparr> (Some leader)
           [SetApproximateSize 7, WithPendingPeers [follower]])"

subsection \<open>Properties\<close>

text \<open>
  (C11) \<open>SetRegion\<close> on a consistent cache and a well-formed region never panics and leaves a
  consistent cache, in which the tree, the region map and the leader, follower, learner and
  pending maps describe the same regions: the new region is known by its id, the old regions
  whose range meets its range are gone, all others are as before. The regions it returns are
  the evicted ones, except an older version of the region itself.
\<close>
theorem SetRegion_correct:
  assumes "btree_contract bt regionItem_Less" "regionsInfo_inv bt r" "region_ok x"
  shows "\<exists>r' ov. RegionsInfo_SetRegion bt r x = Some (r', ov) \<and> regionsInfo_inv bt r' \<and>
    (\<forall>m. m \<in> set ov \<longleftrightarrow> m \<in> set (tree_regions bt (rsi_tree r)) \<and>
       Region_Id m \<noteq> RegionInfo_GetID x \<and> overlaps (ri_meta x) m) \<and>
    (\<forall>i. RegionsInfo_GetRegion r' i =
       (if i = RegionInfo_GetID x then Some x else
        case RegionsInfo_GetRegion r i of None \<Rightarrow> None
        | Some y \<Rightarrow> if overlaps (ri_meta x) (ri_meta y) then None else Some y))"
  unfolding GetRegion_known RegionInfo_GetID_def
  by (rule region_index.SetRegion_inv [OF region_tree_index [OF assms(1)] assms(2,3)])

theorem SetRegion_correct_witness:
  "\<exists>r' ov. RegionsInfo_SetRegion (list_btree regionItem_Less)
      (NewRegionsInfo (list_btree regionItem_Less)) (sample_info 1 [] [5]) = Some (r', ov) \<and>
    RegionsInfo_GetRegion r' 1 = Some (sample_info 1 [] [5])"
proof -
  have "region_ok (sample_info 1 [] [5])" by code_simp
  moreover have "RegionInfo_GetID (sample_info 1 [] [5]) = 1" by code_simp
  ultimately show ?thesis
    using SetRegion_correct [OF list_region_contract region_list.New_inv] by fastforce
qed

text \<open>
  (C12) After any sequence of \<open>SetRegion\<close> calls with well-formed regions on a new cache,
  \<open>SearchRegion\<close> finds exactly the cached region whose range covers the key, so at most one
  cached region covers any key.
\<close>
theorem SearchRegion_history:
  assumes "btree_contract bt regionItem_Less" "list_all region_ok xs"
  shows "\<exists>r. SetRegions bt xs (NewRegionsInfo bt) = Some r \<and>
    (\<forall>k x. RegionsInfo_SearchRegion bt r k = Some x \<longleftrightarrow>
       RegionsInfo_GetRegion r (RegionInfo_GetID x) = Some x \<and> covers (ri_meta x) k)"
proof -
  obtain r where "SetRegions bt xs (NewRegionsInfo bt) = Some r" "regionsInfo_inv bt r"
    using SetRegions_new [OF assms] by blast
  with region_index.SearchRegion_iff [OF region_tree_index [OF assms(1)]] show ?thesis by simp
qed

theorem SearchRegion_history_witness:
  "\<exists>r. SetRegions (list_btree regionItem_Less)
        [sample_info 1 [] [], sample_info 2 [3] [], sample_info 1 [] [3]]
        (NewRegionsInfo (list_btree regionItem_Less)) = Some r"
proof -
  have "list_all region_ok [sample_info 1 [] [], sample_info 2 [3] [], sample_info 1 [] [3]]"
    by code_simp
  from SearchRegion_history [OF list_region_contract this] show ?thesis by blast
qed



text \<open>
  (C17) For a cached region, \<open>GetAdjacentRegions\<close> returns as previous exactly the cached region
  that ends where it starts, and as next exactly the cached region that starts where it ends;
  a hole in the key space or the edge of the key space yields nil.
\<close>
theorem GetAdjacentRegions_correct:
  assumes "btree_contract bt regionItem_Less" "regionsInfo_inv bt r"
    and "RegionsInfo_GetRegion r (RegionInfo_GetID x) = Some x"
  shows "(fst (RegionsInfo_GetAdjacentRegions bt r x) = Some p \<longleftrightarrow>
      RegionsInfo_GetRegion r (RegionInfo_GetID p) = Some p \<and>
      RegionInfo_GetEndKey p \<noteq> [] \<and> RegionInfo_GetEndKey p = RegionInfo_GetStartKey x) \<and>
    (snd (RegionsInfo_GetAdjacentRegions bt r x) = Some n \<longleftrightarrow>
      RegionsInfo_GetRegion r (RegionInfo_GetID n) = Some n \<and>
      RegionInfo_GetEndKey x \<noteq> [] \<and> RegionInfo_GetEndKey x = RegionInfo_GetStartKey n)"
  using region_index.adjacent_known [OF region_tree_index [OF assms(1)] assms(2), of x p]
    region_index.adjacent_next_known [OF region_tree_index [OF assms(1)] assms(2), of x n] assms(3)
  by simp

theorem GetAdjacentRegions_correct_witness:
  "\<exists>r. SetRegions (list_btree regionItem_Less) [sample_info 1 [] [3], sample_info 2 [3] []]
        (NewRegionsInfo (list_btree regionItem_Less)) = Some r \<and>
     snd (RegionsInfo_GetAdjacentRegions (list_btree regionItem_Less) r (sample_info 1 [] [3])) =
       Some (sample_info 2 [3] [])"
proof -
  let ?bt = "list_btree regionItem_Less" and ?xs = "[sample_info 1 [] [3], sample_info 2 [3] []]"
  have "list_all region_ok ?xs" by code_simp
  then obtain r where r: "SetRegions ?bt ?xs (NewRegionsInfo ?bt) = Some r" "regionsInfo_inv ?bt r"
    using SetRegions_new [OF list_region_contract] by blast
  have "map_option (\<lambda>r. (RegionsInfo_GetRegion r 1, RegionsInfo_GetRegion r 2))
      (SetRegions ?bt ?xs (NewRegionsInfo ?bt)) = Some (Some (sample_info 1 [] [3]), Some (sample_info 2 [3] []))"
    by code_simp
  with r(1) have g: "RegionsInfo_GetRegion r 1 = Some (sample_info 1 [] [3])"
    "RegionsInfo_GetRegion r 2 = Some (sample_info 2 [3] [])" by auto
  have i: "RegionInfo_GetID (sample_info 1 [] [3]) = 1" "RegionInfo_GetID (sample_info 2 [3] []) = 2"
    "RegionInfo_GetEndKey (sample_info 1 [] [3]) = [3]"
    "RegionInfo_GetStartKey (sample_info 2 [3] []) = [3]" by code_simp+
  show ?thesis
    using r g i GetAdjacentRegions_correct [OF list_region_contract r(2), of "sample_info 1 [] [3]"
        _ "sample_info 2 [3] []"] by (metis not_Cons_self2)
qed



end
