(* ===== verification/Store.thy ===== *)
theory Store
  imports Prelude Complex_Main
begin

text \<open>
  \<open>server/core/store.go\<close>, \<open>server/core/store_option.go\<close>, \<open>server/core/errors.go\<close> and
  \<open>server/core/resource_kind.go\<close>: the stores of the cluster.

  A \<open>StoreInfo\<close> holds a pointer to its \<open>metapb.Store\<close>, \<open>Clone\<close> copies the pointer, and the
  options that set the address, labels, version or state write through it; \<open>MergeLabels\<close> writes
  through the pointers to the labels. So stores and labels live in an explicit heap, and an
  option transforms the heap together with the \<open>StoreInfo\<close>. Statistics messages are never
  written and are values.

  The weights are \<open>float64\<close> in the code; they are only stored here and are reals. The overload
  callback belongs to the rate limiter; the record holds the answer it currently gives.
\<close>

subsection \<open>Messages and the heap\<close>

datatype StoreState = Up | Offline | Tombstone

record metapb_StoreLabel =
  Label_Key :: string
  Label_Value :: string

type_synonym addr = nat

record metapb_Store =
  Store_Id :: u64
  Store_Address :: string
  Store_State :: StoreState
  Store_Labels :: "addr list"
  Store_Version :: string

record store_heap =
  sh_store :: "addr \<Rightarrow> metapb_Store"
  sh_label :: "addr \<Rightarrow> metapb_StoreLabel"

record pdpb_StoreStats =
  Stats_Capacity :: u64
  Stats_Available :: u64
  Stats_UsedSize :: u64
  Stats_BytesWritten :: u64
  Stats_BytesRead :: u64
  Stats_KeysWritten :: u64
  Stats_KeysRead :: u64
  Stats_IsBusy :: bool
  Stats_SendingSnapCount :: u32
  Stats_ReceivingSnapCount :: u32
  Stats_ApplyingSnapCount :: u32
  Stats_StartTime :: u32

definition empty_stats :: pdpb_StoreStats where
  "empty_stats = \<lparr>Stats_Capacity = 0, Stats_Available = 0, Stats_UsedSize = 0,
     Stats_BytesWritten = 0, Stats_BytesRead = 0, Stats_KeysWritten = 0, Stats_KeysRead = 0,
     Stats_IsBusy = False, Stats_SendingSnapCount = 0, Stats_ReceivingSnapCount = 0,
     Stats_ApplyingSnapCount = 0, Stats_StartTime = 0\<rparr>"

subsection \<open>StoreInfo and its options\<close>

record StoreInfo =
  si_meta :: addr
  si_stats :: pdpb_StoreStats
  si_blocked :: bool
  si_leaderCount :: int
  si_regionCount :: int
  si_leaderSize :: i64
  si_regionSize :: i64
  si_pendingPeerCount :: int
  si_lastHeartbeatTS :: time
  si_leaderWeight :: real
  si_regionWeight :: real
  si_overloaded :: "bool option"

type_synonym StoreCreateOption = "store_heap \<times> StoreInfo \<Rightarrow> store_heap \<times> StoreInfo"

definition apply_store_opts :: "StoreCreateOption list \<Rightarrow> store_heap \<times> StoreInfo \<Rightarrow> store_heap \<times> StoreInfo" where
  "apply_store_opts opts s = fold (\<lambda>opt s. opt s) opts s"

definition NewStoreInfo :: "store_heap \<Rightarrow> addr \<Rightarrow> StoreCreateOption list \<Rightarrow> store_heap \<times> StoreInfo" where
  "NewStoreInfo h store opts =
     apply_store_opts opts (h,
       \<lparr>si_meta = store, si_stats = empty_stats, si_blocked = False, si_leaderCount = 0,
        si_regionCount = 0, si_leaderSize = 0, si_regionSize = 0, si_pendingPeerCount = 0,
        si_lastHeartbeatTS = zero_time, si_leaderWeight = 1, si_regionWeight = 1,
        si_overloaded = None\<rparr>)"

definition StoreInfo_Clone :: "store_heap \<Rightarrow> StoreInfo \<Rightarrow> StoreCreateOption list \<Rightarrow> store_heap \<times> StoreInfo" where
  "StoreInfo_Clone h s opts =
     apply_store_opts opts (h,
       \<lparr>si_meta = si_meta s, si_stats = si_stats s, si_blocked = si_blocked s,
        si_leaderCount = si_leaderCount s, si_regionCount = si_regionCount s,
        si_leaderSize = si_leaderSize s, si_regionSize = si_regionSize s,
        si_pendingPeerCount = si_pendingPeerCount s, si_lastHeartbeatTS = si_lastHeartbeatTS s,
        si_leaderWeight = si_leaderWeight s, si_regionWeight = si_regionWeight s,
        si_overloaded = si_overloaded s\<rparr>)"

text \<open>A write through the pointer to the store message.\<close>

abbreviation upd_store :: "addr \<Rightarrow> (metapb_Store \<Rightarrow> metapb_Store) \<Rightarrow> store_heap \<Rightarrow> store_heap" where
  "upd_store a f h \<equiv> h\<lparr>sh_store := (sh_store h)(a := f (sh_store h a))\<rparr>"

definition SetStoreAddress :: "string \<Rightarrow> StoreCreateOption" where
  "SetStoreAddress address = (\<lambda>(h, s). (upd_store (si_meta s) (\<lambda>m. m\<lparr>Store_Address := address\<rparr>) h, s))"

definition SetStoreLabels :: "addr list \<Rightarrow> StoreCreateOption" where
  "SetStoreLabels labels = (\<lambda>(h, s). (upd_store (si_meta s) (\<lambda>m. m\<lparr>Store_Labels := labels\<rparr>) h, s))"

definition SetStoreVersion :: "string \<Rightarrow> StoreCreateOption" where
  "SetStoreVersion version = (\<lambda>(h, s). (upd_store (si_meta s) (\<lambda>m. m\<lparr>Store_Version := version\<rparr>) h, s))"

definition SetStoreState :: "StoreState \<Rightarrow> StoreCreateOption" where
  "SetStoreState state = (\<lambda>(h, s). (upd_store (si_meta s) (\<lambda>m. m\<lparr>Store_State := state\<rparr>) h, s))"

definition SetStoreBlock :: StoreCreateOption where
  "SetStoreBlock = (\<lambda>(h, s). (h, s\<lparr>si_blocked := True\<rparr>))"

definition SetStoreUnBlock :: StoreCreateOption where
  "SetStoreUnBlock = (\<lambda>(h, s). (h, s\<lparr>si_blocked := False\<rparr>))"

definition SetLeaderCount :: "int \<Rightarrow> StoreCreateOption" where
  "SetLeaderCount leaderCount = (\<lambda>(h, s). (h, s\<lparr>si_leaderCount := leaderCount\<rparr>))"

definition SetRegionCount :: "int \<Rightarrow> StoreCreateOption" where
  "SetRegionCount regionCount = (\<lambda>(h, s). (h, s\<lparr>si_regionCount := regionCount\<rparr>))"

definition SetPendingPeerCount :: "int \<Rightarrow> StoreCreateOption" where
  "SetPendingPeerCount pendingPeerCount = (\<lambda>(h, s). (h, s\<lparr>si_pendingPeerCount := pendingPeerCount\<rparr>))"

definition SetLeaderSize :: "i64 \<Rightarrow> StoreCreateOption" where
  "SetLeaderSize leaderSize = (\<lambda>(h, s). (h, s\<lparr>si_leaderSize := leaderSize\<rparr>))"

definition SetRegionSize :: "i64 \<Rightarrow> StoreCreateOption" where
  "SetRegionSize regionSize = (\<lambda>(h, s). (h, s\<lparr>si_regionSize := regionSize\<rparr>))"

definition SetLeaderWeight :: "real \<Rightarrow> StoreCreateOption" where
  "SetLeaderWeight leaderWeight = (\<lambda>(h, s). (h, s\<lparr>si_leaderWeight := leaderWeight\<rparr>))"

definition SetRegionWeight :: "real \<Rightarrow> StoreCreateOption" where
  "SetRegionWeight regionWeight = (\<lambda>(h, s). (h, s\<lparr>si_regionWeight := regionWeight\<rparr>))"

definition SetLastHeartbeatTS :: "time \<Rightarrow> StoreCreateOption" where
  "SetLastHeartbeatTS lastHeartbeatTS = (\<lambda>(h, s). (h, s\<lparr>si_lastHeartbeatTS := lastHeartbeatTS\<rparr>))"

definition SetStoreStats :: "pdpb_StoreStats \<Rightarrow> StoreCreateOption" where
  "SetStoreStats stats = (\<lambda>(h, s). (h, s\<lparr>si_stats := stats\<rparr>))"

definition SetOverloadStatus :: "bool option \<Rightarrow> StoreCreateOption" where
  "SetOverloadStatus f = (\<lambda>(h, s). (h, s\<lparr>si_overloaded := f\<rparr>))"

lemmas store_option_defs =
  SetStoreAddress_def SetStoreLabels_def SetStoreVersion_def SetStoreState_def SetStoreBlock_def
  SetStoreUnBlock_def SetLeaderCount_def SetRegionCount_def SetPendingPeerCount_def
  SetLeaderSize_def SetRegionSize_def SetLeaderWeight_def SetRegionWeight_def
  SetLastHeartbeatTS_def SetStoreStats_def SetOverloadStatus_def apply_store_opts_def

subsection \<open>Accessors\<close>

definition StoreInfo_GetMeta :: "store_heap \<Rightarrow> StoreInfo \<Rightarrow> metapb_Store" where [simp]:
  "StoreInfo_GetMeta h s = sh_store h (si_meta s)"

definition StoreInfo_GetState :: "store_heap \<Rightarrow> StoreInfo \<Rightarrow> StoreState" where [simp]:
  "StoreInfo_GetState h s = Store_State (sh_store h (si_meta s))"

definition StoreInfo_GetAddress :: "store_heap \<Rightarrow> StoreInfo \<Rightarrow> string" where [simp]:
  "StoreInfo_GetAddress h s = Store_Address (sh_store h (si_meta s))"

definition StoreInfo_GetVersion :: "store_heap \<Rightarrow> StoreInfo \<Rightarrow> string" where [simp]:
  "StoreInfo_GetVersion h s = Store_Version (sh_store h (si_meta s))"

definition StoreInfo_GetLabels :: "store_heap \<Rightarrow> StoreInfo \<Rightarrow> addr list" where [simp]:
  "StoreInfo_GetLabels h s = Store_Labels (sh_store h (si_meta s))"

definition StoreInfo_GetID :: "store_heap \<Rightarrow> StoreInfo \<Rightarrow> u64" where [simp]:
  "StoreInfo_GetID h s = Store_Id (sh_store h (si_meta s))"

definition StoreInfo_IsBlocked :: "StoreInfo \<Rightarrow> bool" where
  "StoreInfo_IsBlocked s \<longleftrightarrow> si_blocked s"

definition StoreInfo_IsOverloaded :: "StoreInfo \<Rightarrow> bool" where
  "StoreInfo_IsOverloaded s \<longleftrightarrow> (case si_overloaded s of None \<Rightarrow> False | Some b \<Rightarrow> b)"

definition StoreInfo_IsUp :: "store_heap \<Rightarrow> StoreInfo \<Rightarrow> bool" where
  "StoreInfo_IsUp h s \<longleftrightarrow> StoreInfo_GetState h s = Up"

definition StoreInfo_IsOffline :: "store_heap \<Rightarrow> StoreInfo \<Rightarrow> bool" where
  "StoreInfo_IsOffline h s \<longleftrightarrow> StoreInfo_GetState h s = Offline"

definition StoreInfo_IsTombstone :: "store_heap \<Rightarrow> StoreInfo \<Rightarrow> bool" where
  "StoreInfo_IsTombstone h s \<longleftrightarrow> StoreInfo_GetState h s = Tombstone"

text \<open>\<open>now\<close> is the clock reading the call makes.\<close>

definition StoreInfo_DownTime :: "time \<Rightarrow> StoreInfo \<Rightarrow> duration" where
  "StoreInfo_DownTime now s = time_Sub now (si_lastHeartbeatTS s)"

definition storeDisconnectDuration :: duration where
  "storeDisconnectDuration = 20 * Second"

definition storeUnhealthDuration :: duration where
  "storeUnhealthDuration = 10 * Minute"

definition StoreInfo_IsDisconnected :: "time \<Rightarrow> StoreInfo \<Rightarrow> bool" where
  "StoreInfo_IsDisconnected now s \<longleftrightarrow> StoreInfo_DownTime now s > storeDisconnectDuration"

definition StoreInfo_IsUnhealth :: "time \<Rightarrow> StoreInfo \<Rightarrow> bool" where
  "StoreInfo_IsUnhealth now s \<longleftrightarrow> StoreInfo_DownTime now s > storeUnhealthDuration"

definition StoreInfo_GetStartTS :: "StoreInfo \<Rightarrow> time" where
  "StoreInfo_GetStartTS s = int (unat (Stats_StartTime (si_stats s))) * Second"

definition StoreInfo_GetUptime :: "StoreInfo \<Rightarrow> duration" where
  "StoreInfo_GetUptime s =
     (let uptime = time_Sub (si_lastHeartbeatTS s) (StoreInfo_GetStartTS s)
      in if uptime > 0 then uptime else 0)"

subsection \<open>Resources\<close>

datatype ResourceKind = LeaderKind | RegionKind

fun ResourceKind_String :: "ResourceKind \<Rightarrow> string" where
  "ResourceKind_String LeaderKind = ''leader''"
| "ResourceKind_String RegionKind = ''region''"

fun StoreInfo_ResourceCount :: "StoreInfo \<Rightarrow> ResourceKind \<Rightarrow> u64" where
  "StoreInfo_ResourceCount s LeaderKind = word_of_int (si_leaderCount s)"
| "StoreInfo_ResourceCount s RegionKind = word_of_int (si_regionCount s)"

fun StoreInfo_ResourceSize :: "StoreInfo \<Rightarrow> ResourceKind \<Rightarrow> i64" where
  "StoreInfo_ResourceSize s LeaderKind = si_leaderSize s"
| "StoreInfo_ResourceSize s RegionKind = si_regionSize s"

subsection \<open>Labels\<close>

fun GetLabelValue_loop :: "store_heap \<Rightarrow> string \<Rightarrow> addr list \<Rightarrow> string" where
  "GetLabelValue_loop h key [] = []"
| "GetLabelValue_loop h key (label # labels) =
     (if strings_EqualFold (Label_Key (sh_label h label)) key then Label_Value (sh_label h label)
      else GetLabelValue_loop h key labels)"

definition StoreInfo_GetLabelValue :: "store_heap \<Rightarrow> StoreInfo \<Rightarrow> string \<Rightarrow> string" where
  "StoreInfo_GetLabelValue h s key = GetLabelValue_loop h key (StoreInfo_GetLabels h s)"

fun CompareLocation_loop :: "store_heap \<Rightarrow> StoreInfo \<Rightarrow> StoreInfo \<Rightarrow> int \<Rightarrow> string list \<Rightarrow> int" where
  "CompareLocation_loop h s other i [] = -1"
| "CompareLocation_loop h s other i (key # keys) =
     (let v1 = StoreInfo_GetLabelValue h s key; v2 = StoreInfo_GetLabelValue h other key
      in if v1 \<noteq> [] \<and> v2 \<noteq> [] \<and> \<not> strings_EqualFold v1 v2 then i
         else CompareLocation_loop h s other (i + 1) keys)"

definition StoreInfo_CompareLocation :: "store_heap \<Rightarrow> StoreInfo \<Rightarrow> StoreInfo \<Rightarrow> string list \<Rightarrow> int" where
  "StoreInfo_CompareLocation h s other labels = CompareLocation_loop h s other 0 labels"

text \<open>
  \<open>MergeLabels\<close>: the inner loop overwrites the value of the first label with an equal key; without
  one the new label is appended. The result is the label slice; the heap is changed.
\<close>

fun MergeLabels_find :: "store_heap \<Rightarrow> string \<Rightarrow> addr list \<Rightarrow> addr option" where
  "MergeLabels_find h key [] = None"
| "MergeLabels_find h key (label # labels) =
     (if strings_EqualFold (Label_Key (sh_label h label)) key then Some label
      else MergeLabels_find h key labels)"

fun MergeLabels_loop :: "store_heap \<Rightarrow> addr list \<Rightarrow> addr list \<Rightarrow> store_heap \<times> addr list" where
  "MergeLabels_loop h storeLabels [] = (h, storeLabels)"
| "MergeLabels_loop h storeLabels (newLabel # labels) =
     (case MergeLabels_find h (Label_Key (sh_label h newLabel)) storeLabels of
        Some label \<Rightarrow>
          MergeLabels_loop
            (h\<lparr>sh_label := (sh_label h)(label :=
                (sh_label h label)\<lparr>Label_Value := Label_Value (sh_label h newLabel)\<rparr>)\<rparr>)
            storeLabels labels
      | None \<Rightarrow> MergeLabels_loop h (storeLabels @ [newLabel]) labels)"

definition StoreInfo_MergeLabels :: "store_heap \<Rightarrow> StoreInfo \<Rightarrow> addr list \<Rightarrow> store_heap \<times> addr list" where
  "StoreInfo_MergeLabels h s labels = MergeLabels_loop h (StoreInfo_GetLabels h s) labels"

subsection \<open>StoresInfo\<close>

datatype store_error = StoreNotFoundErr u64 | StoreBlockedErr u64 | StoreTombstonedErr u64

type_synonym StoresInfo = "(u64, StoreInfo) fmap"

definition NewStoresInfo :: StoresInfo where
  "NewStoresInfo = fmempty"

definition StoresInfo_GetStore :: "StoresInfo \<Rightarrow> u64 \<Rightarrow> StoreInfo option" where
  "StoresInfo_GetStore stores storeID = fmlookup stores storeID"

definition StoresInfo_TakeStore :: "StoresInfo \<Rightarrow> u64 \<Rightarrow> StoreInfo option" where
  "StoresInfo_TakeStore stores storeID = fmlookup stores storeID"

definition StoresInfo_SetStore :: "store_heap \<Rightarrow> StoresInfo \<Rightarrow> StoreInfo \<Rightarrow> StoresInfo" where
  "StoresInfo_SetStore h stores store = fmupd (StoreInfo_GetID h store) store stores"

definition StoresInfo_BlockStore ::
    "store_heap \<Rightarrow> StoresInfo \<Rightarrow> u64 \<Rightarrow> store_error + (store_heap \<times> StoresInfo)" where
  "StoresInfo_BlockStore h stores storeID =
     (case fmlookup stores storeID of
        None \<Rightarrow> Inl (StoreNotFoundErr storeID)
      | Some store \<Rightarrow>
          if StoreInfo_IsBlocked store then Inl (StoreBlockedErr storeID)
          else (case StoreInfo_Clone h store [SetStoreBlock] of
                  (h, store) \<Rightarrow> Inr (h, fmupd storeID store stores)))"

text \<open>\<open>UnblockStore\<close> of an unknown store ends the process (\<open>None\<close>).\<close>

definition StoresInfo_UnblockStore ::
    "store_heap \<Rightarrow> StoresInfo \<Rightarrow> u64 \<Rightarrow> (store_heap \<times> StoresInfo) option" where
  "StoresInfo_UnblockStore h stores storeID =
     (case fmlookup stores storeID of
        None \<Rightarrow> None
      | Some store \<Rightarrow> (case StoreInfo_Clone h store [SetStoreUnBlock] of
                  (h, store) \<Rightarrow> Some (h, fmupd storeID store stores)))"

text \<open>The setters clone the store with one option when it is known and do nothing otherwise.\<close>

definition StoresInfo_set ::
    "StoreCreateOption list \<Rightarrow> store_heap \<Rightarrow> StoresInfo \<Rightarrow> u64 \<Rightarrow> store_heap \<times> StoresInfo" where
  "StoresInfo_set opts h stores storeID =
     (case fmlookup stores storeID of
        None \<Rightarrow> (h, stores)
      | Some store \<Rightarrow> (case StoreInfo_Clone h store opts of
                  (h, store) \<Rightarrow> (h, fmupd storeID store stores)))"

definition StoresInfo_AttachOverloadStatus ::
    "store_heap \<Rightarrow> StoresInfo \<Rightarrow> u64 \<Rightarrow> bool option \<Rightarrow> store_heap \<times> StoresInfo" where
  "StoresInfo_AttachOverloadStatus h stores storeID f =
     StoresInfo_set [SetOverloadStatus f] h stores storeID"

definition StoresInfo_SetLeaderCount ::
    "store_heap \<Rightarrow> StoresInfo \<Rightarrow> u64 \<Rightarrow> int \<Rightarrow> store_heap \<times> StoresInfo" where
  "StoresInfo_SetLeaderCount h stores storeID leaderCount =
     StoresInfo_set [SetLeaderCount leaderCount] h stores storeID"

definition StoresInfo_SetRegionCount ::
    "store_heap \<Rightarrow> StoresInfo \<Rightarrow> u64 \<Rightarrow> int \<Rightarrow> store_heap \<times> StoresInfo" where
  "StoresInfo_SetRegionCount h stores storeID regionCount =
     StoresInfo_set [SetRegionCount regionCount] h stores storeID"

definition StoresInfo_SetPendingPeerCount ::
    "store_heap \<Rightarrow> StoresInfo \<Rightarrow> u64 \<Rightarrow> int \<Rightarrow> store_heap \<times> StoresInfo" where
  "StoresInfo_SetPendingPeerCount h stores storeID pendingPeerCount =
     StoresInfo_set [SetPendingPeerCount pendingPeerCount] h stores storeID"

definition StoresInfo_SetLeaderSize ::
    "store_heap \<Rightarrow> StoresInfo \<Rightarrow> u64 \<Rightarrow> i64 \<Rightarrow> store_heap \<times> StoresInfo" where
  "StoresInfo_SetLeaderSize h stores storeID leaderSize =
     StoresInfo_set [SetLeaderSize leaderSize] h stores storeID"

definition StoresInfo_SetRegionSize ::
    "store_heap \<Rightarrow> StoresInfo \<Rightarrow> u64 \<Rightarrow> i64 \<Rightarrow> store_heap \<times> StoresInfo" where
  "StoresInfo_SetRegionSize h stores storeID regionSize =
     StoresInfo_set [SetRegionSize regionSize] h stores storeID"

text \<open>\<open>UpdateStoreStatusLocked\<close> stores the clone under the id its message has.\<close>

definition StoresInfo_UpdateStoreStatusLocked ::
    "store_heap \<Rightarrow> StoresInfo \<Rightarrow> u64 \<Rightarrow> int \<Rightarrow> int \<Rightarrow> int \<Rightarrow> i64 \<Rightarrow> i64 \<Rightarrow> store_heap \<times> StoresInfo" where
  "StoresInfo_UpdateStoreStatusLocked h stores storeID leaderCount regionCount pendingPeerCount
       leaderSize regionSize =
     (case fmlookup stores storeID of
        None \<Rightarrow> (h, stores)
      | Some store \<Rightarrow>
          (case StoreInfo_Clone h store [SetLeaderCount leaderCount, SetRegionCount regionCount,
                  SetPendingPeerCount pendingPeerCount, SetLeaderSize leaderSize,
                  SetRegionSize regionSize] of
             (h, newStore) \<Rightarrow> (h, StoresInfo_SetStore h stores newStore)))"

definition StoresInfo_GetStores :: "u64 list \<Rightarrow> StoresInfo \<Rightarrow> StoreInfo list" where
  "StoresInfo_GetStores order stores = range_values order stores"

definition StoresInfo_GetMetaStores :: "u64 list \<Rightarrow> store_heap \<Rightarrow> StoresInfo \<Rightarrow> metapb_Store list" where
  "StoresInfo_GetMetaStores order h stores = map (StoreInfo_GetMeta h) (range_values order stores)"

definition StoresInfo_DeleteStore :: "store_heap \<Rightarrow> StoresInfo \<Rightarrow> StoreInfo \<Rightarrow> StoresInfo" where
  "StoresInfo_DeleteStore h stores store = fmdrop (StoreInfo_GetID h store) stores"

definition StoresInfo_GetStoreCount :: "StoresInfo \<Rightarrow> nat" where
  "StoresInfo_GetStoreCount stores = fmlen stores"

subsection \<open>Lemmas\<close>

lemma Clone_id: "StoreInfo_Clone h s opts = apply_store_opts opts (h, s)"
  by (cases s) (simp add: StoreInfo_Clone_def)

text \<open>Every store is filed under its own id.\<close>

definition stores_inv :: "store_heap \<Rightarrow> StoresInfo \<Rightarrow> bool" where
  "stores_inv h stores \<longleftrightarrow> (\<forall>i s. fmlookup stores i = Some s \<longrightarrow> StoreInfo_GetID h s = i)"

lemma SetStore_inv: "stores_inv h stores \<Longrightarrow> stores_inv h (StoresInfo_SetStore h stores s)"
  by (auto simp: stores_inv_def StoresInfo_SetStore_def)

lemma DeleteStore_inv: "stores_inv h stores \<Longrightarrow> stores_inv h (StoresInfo_DeleteStore h stores s)"
  by (auto simp: stores_inv_def StoresInfo_DeleteStore_def)

lemma UpdateStoreStatusLocked_eq:
  assumes "stores_inv h stores" "fmlookup stores i = Some s"
  shows "StoresInfo_UpdateStoreStatusLocked h stores i lc rc pc ls rs =
    (h, fmupd i (s\<lparr>si_leaderCount := lc, si_regionCount := rc, si_pendingPeerCount := pc,
       si_leaderSize := ls, si_regionSize := rs\<rparr>) stores)"
  using assms by (simp add: StoresInfo_UpdateStoreStatusLocked_def Clone_id store_option_defs
      StoresInfo_SetStore_def stores_inv_def)

text \<open>The level at which two stores differ.\<close>

definition differs_at :: "store_heap \<Rightarrow> StoreInfo \<Rightarrow> StoreInfo \<Rightarrow> string \<Rightarrow> bool" where
  "differs_at h s t key \<longleftrightarrow> StoreInfo_GetLabelValue h s key \<noteq> [] \<and> StoreInfo_GetLabelValue h t key \<noteq> [] \<and>
     \<not> strings_EqualFold (StoreInfo_GetLabelValue h s key) (StoreInfo_GetLabelValue h t key)"

lemma differs_at_sym: "differs_at h s t key \<longleftrightarrow> differs_at h t s key"
  by (auto simp: differs_at_def EqualFold_sym)

lemma CompareLocation_loop_eq:
  "CompareLocation_loop h s t i keys =
     (if \<exists>k \<in> set keys. differs_at h s t k
      then i + int (length (takeWhile (\<lambda>k. \<not> differs_at h s t k) keys)) else -1)"
  by (induction keys arbitrary: i) (auto simp: differs_at_def Let_def)

lemma MergeLabels_find_None:
  "MergeLabels_find h key ls = None \<longleftrightarrow>
     (\<forall>l \<in> set ls. \<not> strings_EqualFold (Label_Key (sh_label h l)) key)"
  by (induction ls) auto

lemma MergeLabels_find_Some:
  assumes "MergeLabels_find h key ls = Some l"
  shows "l \<in> set ls" "strings_EqualFold (Label_Key (sh_label h l)) key"
  using assms by (induction ls) (auto split: if_splits)

text \<open>Overwriting the value of a label is seen under the keys equal to its own, and only there.\<close>

lemma GetLabelValue_update:
  fixes l v h
  defines "h' \<equiv> h\<lparr>sh_label := (sh_label h)(l := (sh_label h l)\<lparr>Label_Value := v\<rparr>)\<rparr>"
  shows "GetLabelValue_loop h' k ls =
    (case MergeLabels_find h k ls of
       None \<Rightarrow> []
     | Some m \<Rightarrow> if m = l then v else Label_Value (sh_label h m))"
  unfolding h'_def by (induction ls) auto

lemma GetLabelValue_find:
  "GetLabelValue_loop h k ls =
    (case MergeLabels_find h k ls of None \<Rightarrow> [] | Some m \<Rightarrow> Label_Value (sh_label h m))"
  by (induction ls) auto

lemma MergeLabels_find_cong:
  "strings_EqualFold k k' \<Longrightarrow> MergeLabels_find h k ls = MergeLabels_find h k' ls"
  by (induction ls) (auto simp: strings_EqualFold_def)

lemma MergeLabels_find_key:
  "MergeLabels_find (h\<lparr>sh_label := (sh_label h)(l := (sh_label h l)\<lparr>Label_Value := v\<rparr>)\<rparr>) k ls =
     MergeLabels_find h k ls"
  by (induction ls) auto

definition merged_value :: "store_heap \<Rightarrow> string \<Rightarrow> string \<Rightarrow> addr list \<Rightarrow> string" where
  "merged_value h key old new =
     foldl (\<lambda>v n. if strings_EqualFold (Label_Key (sh_label h n)) key
                 then Label_Value (sh_label h n) else v) old new"

lemma merged_value_cong:
  "(\<And>n. n \<in> set new \<Longrightarrow> sh_label h' n = sh_label h n) \<Longrightarrow>
     merged_value h' key old new = merged_value h key old new"
  unfolding merged_value_def by (rule foldl_cong) auto

lemma MergeLabels_loop_value:
  assumes "distinct new" "set new \<inter> set ls = {}" "MergeLabels_loop h ls new = (h', ls')"
  shows "GetLabelValue_loop h' key ls' = merged_value h key (GetLabelValue_loop h key ls) new"
  using assms
proof (induction new arbitrary: h ls)
  case Nil
  then show ?case by (simp add: merged_value_def)
next
  case (Cons n new)
  let ?k = "Label_Key (sh_label h n)" and ?v = "Label_Value (sh_label h n)"
  have step: "merged_value h key x (n # new) =
      merged_value h key (if strings_EqualFold ?k key then ?v else x) new" for x
    by (simp add: merged_value_def)
  show ?case
  proof (cases "MergeLabels_find h ?k ls")
    case None
    have "GetLabelValue_loop h key (ls @ [n]) =
        (if strings_EqualFold ?k key then ?v else GetLabelValue_loop h key ls)"
      using None MergeLabels_find_cong [of ?k key h ls]
      by (induction ls) (auto split: if_splits)
    moreover have "set new \<inter> set (ls @ [n]) = {}" using Cons.prems by auto
    ultimately show ?thesis using Cons.IH [of "ls @ [n]" h] Cons.prems None by (simp add: step)
  next
    case (Some l)
    let ?h = "h\<lparr>sh_label := (sh_label h)(l := (sh_label h l)\<lparr>Label_Value := ?v\<rparr>)\<rparr>"
    have l: "l \<in> set ls" "strings_EqualFold (Label_Key (sh_label h l)) ?k"
      using MergeLabels_find_Some [OF Some] by auto
    have "MergeLabels_loop ?h ls new = (h', ls')" using Cons.prems(3) Some by simp
    then have "GetLabelValue_loop h' key ls' = merged_value ?h key (GetLabelValue_loop ?h key ls) new"
      using Cons.IH [of ls ?h] Cons.prems by simp
    also have "\<dots> = merged_value h key (GetLabelValue_loop ?h key ls) new"
      using Cons.prems(2) l(1) by (intro merged_value_cong) auto
    also have "GetLabelValue_loop ?h key ls =
        (if strings_EqualFold ?k key then ?v else GetLabelValue_loop h key ls)"
    proof (cases "strings_EqualFold ?k key")
      case True
      with Some MergeLabels_find_cong [OF True] show ?thesis by (simp add: GetLabelValue_update)
    next
      case False
      have "MergeLabels_find h key ls \<noteq> Some l"
        using MergeLabels_find_Some(2) [of h key ls l] l(2) False
        by (metis EqualFold_sym EqualFold_trans)
      with False show ?thesis
        by (auto simp: GetLabelValue_update GetLabelValue_find [of h key ls] split: option.splits)
    qed
    finally show ?thesis by (simp add: step)
  qed
qed

text \<open>Two stores in the same zone on different hosts, for closed instances.\<close>

definition sample_heap :: store_heap where
  "sample_heap =
     \<lparr>sh_store = (\<lambda>a. \<lparr>Store_Id = of_nat a, Store_Address = ''addr'', Store_State = Up,
                       Store_Labels = [2 * a, 2 * a + 1], Store_Version = ''3.0.0''\<rparr>),
      sh_label = (\<lambda>a. if even a then \<lparr>Label_Key = ''zone'', Label_Value = ''z1''\<rparr>
                      else \<lparr>Label_Key = ''host'', Label_Value = replicate a (CHR ''h'')\<rparr>)\<rparr>"

definition sample_store :: "addr \<Rightarrow> StoreInfo" where
  "sample_store a = snd (NewStoreInfo sample_heap a [])"

subsection \<open>Properties\<close>

text \<open>
  (C19) \<open>CompareLocation\<close> returns the first label level at which both stores have a value and
  the values differ (up to case), -1 when there is no such level, and does not depend on the
  order of the two stores.
\<close>
theorem CompareLocation_correct:
  "(StoreInfo_CompareLocation h s t keys = -1 \<longleftrightarrow> \<not> (\<exists>k \<in> set keys. differs_at h s t k)) \<and>
   (i < length keys \<longrightarrow>
     (StoreInfo_CompareLocation h s t keys = int i \<longleftrightarrow>
        differs_at h s t (keys ! i) \<and> (\<forall>j < i. \<not> differs_at h s t (keys ! j)))) \<and>
   StoreInfo_CompareLocation h s t keys = StoreInfo_CompareLocation h t s keys"
proof -
  have "StoreInfo_CompareLocation h s t keys = int i \<longleftrightarrow>
      differs_at h s t (keys ! i) \<and> (\<forall>j < i. \<not> differs_at h s t (keys ! j))" if "i < length keys"
    using length_takeWhile_iff [OF that, of "differs_at h s t"] that nth_mem [OF that]
    by (auto simp: StoreInfo_CompareLocation_def CompareLocation_loop_eq)
  then show ?thesis
    by (auto simp: StoreInfo_CompareLocation_def CompareLocation_loop_eq differs_at_sym [of h s])
qed

theorem CompareLocation_correct_witness:
  "StoreInfo_CompareLocation sample_heap (sample_store 1) (sample_store 2) [''Zone'', ''host''] = 1"
proof -
  have "differs_at sample_heap (sample_store 1) (sample_store 2) ([''Zone'', ''host''] ! 1)"
    "\<forall>j < 1. \<not> differs_at sample_heap (sample_store 1) (sample_store 2) ([''Zone'', ''host''] ! j)"
    by code_simp+
  with CompareLocation_correct [where i = 1 and keys = "[''Zone'', ''host'']"] show ?thesis
    by (metis One_nat_def length_Cons lessI list.size(3) of_nat_1)
qed

text \<open>
  (C20) \<open>MergeLabels\<close>: under every key, the merged labels give the value of the last passed
  label with that key (up to case), and the store's own value when no passed label has it.
  The passed labels are distinct objects and not labels of the store already.
\<close>
theorem MergeLabels_correct:
  assumes "distinct labels" "set labels \<inter> set (StoreInfo_GetLabels h s) = {}"
    and "StoreInfo_MergeLabels h s labels = (h', merged)"
  shows "GetLabelValue_loop h' key merged =
    merged_value h key (StoreInfo_GetLabelValue h s key) labels"
  using MergeLabels_loop_value [OF assms(1,2)] assms(3)
  by (simp add: StoreInfo_MergeLabels_def StoreInfo_GetLabelValue_def)

theorem MergeLabels_correct_witness:
  "GetLabelValue_loop (fst (StoreInfo_MergeLabels sample_heap (sample_store 1) [9, 11])) ''HOST''
     (snd (StoreInfo_MergeLabels sample_heap (sample_store 1) [9, 11])) = replicate 11 (CHR ''h'')"
proof -
  have "distinct [9, 11 :: nat]" "set [9, 11] \<inter> set (StoreInfo_GetLabels sample_heap (sample_store 1)) = {}"
    by code_simp+
  note m = MergeLabels_correct [OF this prod.collapse [symmetric]]
  have "merged_value sample_heap ''HOST''
      (StoreInfo_GetLabelValue sample_heap (sample_store 1) ''HOST'') [9, 11] = replicate 11 (CHR ''h'')"
    by code_simp
  with m show ?thesis by simp
qed

text \<open>
  A clone shares the store message with the original: setting the state of a clone sets
  the state the original shows, while blocking a clone leaves the original alone.
\<close>
theorem Clone_shares_meta:
  "StoreInfo_GetState (fst (StoreInfo_Clone h s [SetStoreState state])) s = state \<and>
   snd (StoreInfo_Clone h s [SetStoreState state]) = s \<and>
   StoreInfo_Clone h s [SetStoreBlock] = (h, s\<lparr>si_blocked := True\<rparr>)"
  by (simp add: Clone_id store_option_defs)

end
