(* ===== verification/BasicCluster.thy ===== *)
theory BasicCluster
  imports RegionsInfo Store
begin

text \<open>
  \<open>server/core/basic_cluster.go\<close>: the stores and the regions of a cluster together. Most methods
  delegate to \<open>StoresInfo\<close> and \<open>RegionsInfo\<close>; the rest look up the stores of a region's peers.
\<close>

record 't BasicCluster =
  bc_Stores :: StoresInfo
  bc_Regions :: "'t RegionsInfo"

definition NewBasicCluster :: "'t region_btree \<Rightarrow> 't BasicCluster" where
  "NewBasicCluster bt = \<lparr>bc_Stores = NewStoresInfo, bc_Regions = NewRegionsInfo bt\<rparr>"

definition BasicCluster_GetStores :: "u64 list \<Rightarrow> 't BasicCluster \<Rightarrow> StoreInfo list" where
  "BasicCluster_GetStores order bc = StoresInfo_GetStores order (bc_Stores bc)"

definition BasicCluster_GetStore :: "'t BasicCluster \<Rightarrow> u64 \<Rightarrow> StoreInfo option" where
  "BasicCluster_GetStore bc storeID = StoresInfo_GetStore (bc_Stores bc) storeID"

definition BasicCluster_GetRegion :: "'t BasicCluster \<Rightarrow> u64 \<Rightarrow> RegionInfo option" where
  "BasicCluster_GetRegion bc regionID = RegionsInfo_GetRegion (bc_Regions bc) regionID"

text \<open>\<open>ids\<close> is the order in which Go ranges over the set of store ids.\<close>

definition known_stores :: "'t BasicCluster \<Rightarrow> u64 list \<Rightarrow> StoreInfo list" where
  "known_stores bc ids = concat (map (\<lambda>i. case StoresInfo_GetStore (bc_Stores bc) i of
     None \<Rightarrow> [] | Some store \<Rightarrow> [store]) ids)"

definition BasicCluster_GetRegionStores :: "u64 list \<Rightarrow> 't BasicCluster \<Rightarrow> RegionInfo \<Rightarrow> StoreInfo list" where
  "BasicCluster_GetRegionStores ids bc region =
     known_stores bc (filter (\<lambda>i. i |\<in>| RegionInfo_GetStoreIds region) ids)"

definition BasicCluster_GetFollowerStores :: "u64 list \<Rightarrow> 't BasicCluster \<Rightarrow> RegionInfo \<Rightarrow> StoreInfo list" where
  "BasicCluster_GetFollowerStores ids bc region =
     known_stores bc (filter (fmhas (RegionInfo_GetFollowers region)) ids)"

definition BasicCluster_GetLeaderStore :: "'t BasicCluster \<Rightarrow> RegionInfo \<Rightarrow> StoreInfo option" where
  "BasicCluster_GetLeaderStore bc region =
     StoresInfo_GetStore (bc_Stores bc) (Peer_GetStoreId (ri_leader region))"

definition BasicCluster_GetAdjacentRegions ::
    "'t region_btree \<Rightarrow> 't BasicCluster \<Rightarrow> RegionInfo \<Rightarrow> RegionInfo option \<times> RegionInfo option" where
  "BasicCluster_GetAdjacentRegions bt bc region = RegionsInfo_GetAdjacentRegions bt (bc_Regions bc) region"

definition BasicCluster_BlockStore ::
    "store_heap \<Rightarrow> 't BasicCluster \<Rightarrow> u64 \<Rightarrow> store_error + (store_heap \<times> 't BasicCluster)" where
  "BasicCluster_BlockStore h bc storeID =
     (case StoresInfo_BlockStore h (bc_Stores bc) storeID of
        Inl e \<Rightarrow> Inl e
      | Inr (h, stores) \<Rightarrow> Inr (h, bc\<lparr>bc_Stores := stores\<rparr>))"

definition BasicCluster_UnblockStore ::
    "store_heap \<Rightarrow> 't BasicCluster \<Rightarrow> u64 \<Rightarrow> (store_heap \<times> 't BasicCluster) option" where
  "BasicCluster_UnblockStore h bc storeID =
     map_option (\<lambda>(h, stores). (h, bc\<lparr>bc_Stores := stores\<rparr>))
       (StoresInfo_UnblockStore h (bc_Stores bc) storeID)"

definition BasicCluster_AttachOverloadStatus ::
    "store_heap \<Rightarrow> 't BasicCluster \<Rightarrow> u64 \<Rightarrow> bool option \<Rightarrow> store_heap \<times> 't BasicCluster" where
  "BasicCluster_AttachOverloadStatus h bc storeID f =
     (case StoresInfo_AttachOverloadStatus h (bc_Stores bc) storeID f of
        (h, stores) \<Rightarrow> (h, bc\<lparr>bc_Stores := stores\<rparr>))"

definition BasicCluster_RandFollowerRegion ::
    "nat list \<Rightarrow> 't BasicCluster \<Rightarrow> u64 \<Rightarrow> RegionOption list \<Rightarrow> RegionInfo option option" where
  "BasicCluster_RandFollowerRegion rnds bc storeID opts =
     RegionsInfo_RandFollowerRegion rnds (bc_Regions bc) storeID opts"

definition BasicCluster_RandLeaderRegion ::
    "nat list \<Rightarrow> 't BasicCluster \<Rightarrow> u64 \<Rightarrow> RegionOption list \<Rightarrow> RegionInfo option option" where
  "BasicCluster_RandLeaderRegion rnds bc storeID opts =
     RegionsInfo_RandLeaderRegion rnds (bc_Regions bc) storeID opts"

definition BasicCluster_RandPendingRegion ::
    "nat list \<Rightarrow> 't BasicCluster \<Rightarrow> u64 \<Rightarrow> RegionOption list \<Rightarrow> RegionInfo option option" where
  "BasicCluster_RandPendingRegion rnds bc storeID opts =
     RegionsInfo_RandPendingRegion rnds (bc_Regions bc) storeID opts"

definition BasicCluster_GetAverageRegionSize :: "'t BasicCluster \<Rightarrow> i64 option" where
  "BasicCluster_GetAverageRegionSize bc = RegionsInfo_GetAverageRegionSize (bc_Regions bc)"

definition BasicCluster_PutStore :: "store_heap \<Rightarrow> 't BasicCluster \<Rightarrow> StoreInfo \<Rightarrow> 't BasicCluster" where
  "BasicCluster_PutStore h bc store = bc\<lparr>bc_Stores := StoresInfo_SetStore h (bc_Stores bc) store\<rparr>"

definition BasicCluster_DeleteStore :: "store_heap \<Rightarrow> 't BasicCluster \<Rightarrow> StoreInfo \<Rightarrow> 't BasicCluster" where
  "BasicCluster_DeleteStore h bc store = bc\<lparr>bc_Stores := StoresInfo_DeleteStore h (bc_Stores bc) store\<rparr>"

text \<open>\<open>PutRegion\<close> drops the list of evicted regions.\<close>

definition BasicCluster_PutRegion ::
    "'t region_btree \<Rightarrow> 't BasicCluster \<Rightarrow> RegionInfo \<Rightarrow> 't BasicCluster option" where
  "BasicCluster_PutRegion bt bc region =
     map_option (\<lambda>(r, _). bc\<lparr>bc_Regions := r\<rparr>) (RegionsInfo_SetRegion bt (bc_Regions bc) region)"

subsection \<open>The invariant\<close>

definition basicCluster_inv :: "'t region_btree \<Rightarrow> store_heap \<Rightarrow> 't BasicCluster \<Rightarrow> bool" where
  "basicCluster_inv bt h bc \<longleftrightarrow> stores_inv h (bc_Stores bc) \<and> regionsInfo_inv bt (bc_Regions bc)"

lemma NewBasicCluster_inv:
  "btree_contract bt regionItem_Less \<Longrightarrow> basicCluster_inv bt h (NewBasicCluster bt)"
  by (simp add: basicCluster_inv_def NewBasicCluster_def stores_inv_def NewStoresInfo_def
      region_index.New_inv [OF region_tree_index])

lemma PutStore_inv: "basicCluster_inv bt h bc \<Longrightarrow> basicCluster_inv bt h (BasicCluster_PutStore h bc s)"
  by (simp add: basicCluster_inv_def BasicCluster_PutStore_def SetStore_inv)

lemma DeleteStore_cluster_inv:
  "basicCluster_inv bt h bc \<Longrightarrow> basicCluster_inv bt h (BasicCluster_DeleteStore h bc s)"
  by (simp add: basicCluster_inv_def BasicCluster_DeleteStore_def DeleteStore_inv)

lemma PutRegion_inv:
  assumes "btree_contract bt regionItem_Less" "basicCluster_inv bt h bc" "region_ok x"
  shows "\<exists>bc'. BasicCluster_PutRegion bt bc x = Some bc' \<and> basicCluster_inv bt h bc' \<and>
    BasicCluster_GetRegion bc' (RegionInfo_GetID x) = Some x \<and> bc_Stores bc' = bc_Stores bc"
proof -
  obtain r' ov where "RegionsInfo_SetRegion bt (bc_Regions bc) x = Some (r', ov)" "regionsInfo_inv bt r'"
    "fmlookup (known_regions r') (Region_Id (ri_meta x)) = Some x"
    using region_index.SetRegion_inv [OF region_tree_index [OF assms(1)], of "bc_Regions bc" x] assms(2,3)
    by (auto simp: basicCluster_inv_def)
  with assms(2) show ?thesis
    by (simp add: BasicCluster_PutRegion_def basicCluster_inv_def BasicCluster_GetRegion_def GetRegion_known)
qed

lemma BlockStore_inv:
  "basicCluster_inv bt h bc \<Longrightarrow> BasicCluster_BlockStore h bc i = Inr (h', bc') \<Longrightarrow>
     h' = h \<and> basicCluster_inv bt h bc'"
  by (auto simp: basicCluster_inv_def BasicCluster_BlockStore_def StoresInfo_BlockStore_def
      stores_inv_def Clone_id store_option_defs split: option.splits if_splits sum.splits)

end
