(* ===== verification/Kv.thy ===== *)
theory Kv
  imports Ordered_Tree "HOL-Library.Char_ord"
begin

text \<open>
  \<open>server/kv/kv.go\<close> and \<open>server/kv/mem_kv.go\<close>: the key-value store behind PD's persistent state.
  The Go interface \<open>Base\<close> is a record of operations on a state \<open>'s\<close>; the locale \<open>kv_contract\<close> is
  what its clients rely on, with the stored map as \<open>view\<close>. The in-memory store, a B-tree of
  key-value pairs, satisfies it. Strings are compared bytewise, as Go does.
\<close>

datatype kv_error = KVError string

record 's kv_base =
  kv_Load :: "'s \<Rightarrow> string \<Rightarrow> kv_error + string"
  kv_LoadRange :: "'s \<Rightarrow> string \<Rightarrow> string \<Rightarrow> nat \<Rightarrow> kv_error + (string list \<times> string list)"
  kv_Save :: "'s \<Rightarrow> string \<Rightarrow> string \<Rightarrow> 's \<times> kv_error option"
  kv_Remove :: "'s \<Rightarrow> string \<Rightarrow> 's \<times> kv_error option"

subsection \<open>The in-memory store\<close>

datatype memoryKVItem = MemoryKVItem (kvi_key: string) (kvi_value: string)

definition memoryKVItem_Less :: "memoryKVItem \<Rightarrow> memoryKVItem \<Rightarrow> bool" where
  "memoryKVItem_Less s than \<longleftrightarrow> kvi_key s < kvi_key than"

type_synonym 't kv_btree = "('t, memoryKVItem) btree"

definition NewMemoryKV :: "'t kv_btree \<Rightarrow> 't" where
  "NewMemoryKV bt = bt_New bt 2"

text \<open>A missing key loads as the empty string.\<close>

definition memoryKV_Load :: "'t kv_btree \<Rightarrow> 't \<Rightarrow> string \<Rightarrow> kv_error + string" where
  "memoryKV_Load bt tree key =
     (case bt_Get bt tree (MemoryKVItem key []) of
        None \<Rightarrow> Inr [] | Some item \<Rightarrow> Inr (kvi_value item))"

text \<open>The callback appends and then asks whether the limit is reached.\<close>

fun LoadRange_loop :: "nat \<Rightarrow> string list \<Rightarrow> string list \<Rightarrow> memoryKVItem list \<Rightarrow> string list \<times> string list" where
  "LoadRange_loop limit keys values [] = (keys, values)"
| "LoadRange_loop limit keys values (item # items) =
     (let keys = keys @ [kvi_key item]; values = values @ [kvi_value item]
      in if length keys < limit then LoadRange_loop limit keys values items else (keys, values))"

definition memoryKV_LoadRange ::
    "'t kv_btree \<Rightarrow> 't \<Rightarrow> string \<Rightarrow> string \<Rightarrow> nat \<Rightarrow> kv_error + (string list \<times> string list)" where
  "memoryKV_LoadRange bt tree key endKey limit =
     Inr (LoadRange_loop limit [] []
       (bt_AscendRange bt tree (MemoryKVItem key []) (MemoryKVItem endKey [])))"

definition memoryKV_Save :: "'t kv_btree \<Rightarrow> 't \<Rightarrow> string \<Rightarrow> string \<Rightarrow> 't \<times> kv_error option" where
  "memoryKV_Save bt tree key v = (bt_ReplaceOrInsert bt tree (MemoryKVItem key v), None)"

definition memoryKV_Remove :: "'t kv_btree \<Rightarrow> 't \<Rightarrow> string \<Rightarrow> 't \<times> kv_error option" where
  "memoryKV_Remove bt tree key = (bt_Delete bt tree (MemoryKVItem key []), None)"

definition memoryKV :: "'t kv_btree \<Rightarrow> 't kv_base" where
  "memoryKV bt = \<lparr>kv_Load = memoryKV_Load bt, kv_LoadRange = memoryKV_LoadRange bt,
     kv_Save = memoryKV_Save bt, kv_Remove = memoryKV_Remove bt\<rparr>"

subsection \<open>The contract of a store\<close>

datatype kv_op = KvSave string string | KvRemove string

fun kv_apply :: "'s kv_base \<Rightarrow> kv_op \<Rightarrow> 's \<Rightarrow> 's \<times> kv_error option" where
  "kv_apply kv (KvSave k v) s = kv_Save kv s k v"
| "kv_apply kv (KvRemove k) s = kv_Remove kv s k"

fun kv_run :: "'s kv_base \<Rightarrow> kv_op list \<Rightarrow> 's \<Rightarrow> 's \<times> kv_error option" where
  "kv_run kv [] s = (s, None)"
| "kv_run kv (op # ops) s =
     (case kv_apply kv op s of (s, Some e) \<Rightarrow> (s, Some e) | (s, None) \<Rightarrow> kv_run kv ops s)"

fun kv_op_map :: "kv_op \<Rightarrow> (string \<Rightarrow> string option) \<Rightarrow> (string \<Rightarrow> string option)" where
  "kv_op_map (KvSave k v) m = m(k \<mapsto> v)"
| "kv_op_map (KvRemove k) m = m(k := None)"

text \<open>
  \<open>view s\<close> lists the stored pairs in key order. A write that reports an error may still have
  taken effect, as a request to etcd that times out may; one that reports none has taken effect.
  A positive limit bounds a range scan.
\<close>

locale kv_contract =
  fixes kv :: "'s kv_base" and inv :: "'s \<Rightarrow> bool" and view :: "'s \<Rightarrow> (string \<times> string) list"
  assumes view_sorted: "inv s \<Longrightarrow> sorted_wrt (\<lambda>p q. fst p < fst q) (view s)"
    and load_view: "inv s \<Longrightarrow> kv_Load kv s k = Inr v \<Longrightarrow>
      v = (case map_of (view s) k of None \<Rightarrow> [] | Some v \<Rightarrow> v)"
    and save_outcome: "inv s \<Longrightarrow> kv_Save kv s k v = (s', err) \<Longrightarrow>
      inv s' \<and> (map_of (view s') = (map_of (view s))(k \<mapsto> v) \<or> err \<noteq> None \<and> map_of (view s') = map_of (view s))"
    and remove_outcome: "inv s \<Longrightarrow> kv_Remove kv s k = (s', err) \<Longrightarrow>
      inv s' \<and> (map_of (view s') = (map_of (view s))(k := None) \<or> err \<noteq> None \<and> map_of (view s') = map_of (view s))"
    and range_view: "inv s \<Longrightarrow> kv_LoadRange kv s k e n = Inr (ks, vs) \<Longrightarrow> 0 < n \<Longrightarrow>
      zip ks vs = take n (filter (\<lambda>p. k \<le> fst p \<and> fst p < e) (view s)) \<and> length ks = length vs"
begin

lemma save_view: "inv s \<Longrightarrow> kv_Save kv s k v = (s', None) \<Longrightarrow>
    inv s' \<and> map_of (view s') = (map_of (view s))(k \<mapsto> v)"
  using save_outcome by blast

lemma remove_view: "inv s \<Longrightarrow> kv_Remove kv s k = (s', None) \<Longrightarrow>
    inv s' \<and> map_of (view s') = (map_of (view s))(k := None)"
  using remove_outcome by blast

lemma view_distinct: "inv s \<Longrightarrow> distinct (map fst (view s))"
  using view_sorted [of s] sorted_wrt_distinct [of "(<)" "map fst (view s)"] by (simp add: sorted_wrt_map)

text \<open>A history of successful saves and removals leaves what it would leave in a map.\<close>

lemma run_view:
  "inv s \<Longrightarrow> kv_run kv ops s = (s', None) \<Longrightarrow> inv s' \<and> map_of (view s') = fold kv_op_map ops (map_of (view s))"
proof (induction ops arbitrary: s)
  case (Cons op ops)
  then obtain s1 where s1: "kv_apply kv op s = (s1, None)" "kv_run kv ops s1 = (s', None)"
    by (auto split: prod.splits option.splits)
  with Cons.prems(1) have "inv s1 \<and> map_of (view s1) = kv_op_map op (map_of (view s))"
    by (cases op) (auto dest: save_view remove_view)
  with Cons.IH [of s1] s1(2) show ?case by simp
qed simp

lemma load_after_save:
  "inv s \<Longrightarrow> kv_Save kv s k v = (s', None) \<Longrightarrow> kv_Load kv s' k = Inr w \<Longrightarrow> w = v"
  using save_view load_view by fastforce

lemma load_after_remove:
  "inv s \<Longrightarrow> kv_Remove kv s k = (s', None) \<Longrightarrow> kv_Load kv s' k = Inr w \<Longrightarrow> w = []"
  using remove_view load_view by fastforce

end

subsection \<open>The in-memory store satisfies it\<close>

definition kv_items :: "'t kv_btree \<Rightarrow> 't \<Rightarrow> (string \<times> string) list" where
  "kv_items bt t = map (\<lambda>i. (kvi_key i, kvi_value i)) (bt_Ascend bt t)"

lemma LoadRange_loop_eq:
  "length keys = length values \<Longrightarrow> 0 < limit \<Longrightarrow> length keys < limit \<Longrightarrow>
   LoadRange_loop limit keys values is =
     (keys @ map kvi_key (take (limit - length keys) is), values @ map kvi_value (take (limit - length keys) is))"
proof (induction "is" arbitrary: keys "values")
  case (Cons i tail)
  show ?case
  proof (cases "Suc (length keys) < limit")
    case True
    then have "limit - length keys = Suc (limit - Suc (length keys))" by simp
    with True Cons.IH [of "keys @ [kvi_key i]" "values @ [kvi_value i]"] Cons.prems show ?thesis
      by (simp add: Let_def)
  next
    case False
    with Cons.prems have "limit - length keys = 1" by simp
    with False show ?thesis by (simp add: Let_def)
  qed
qed simp

locale memory_kv = btree_contract bt memoryKVItem_Less for bt :: "'t kv_btree"
begin

lemma items_sorted:
  "bt_ordered bt memoryKVItem_Less t \<Longrightarrow> sorted_wrt (\<lambda>p q. fst p < fst q) (kv_items bt t)"
  by (simp add: bt_ordered_def kv_items_def sorted_wrt_map memoryKVItem_Less_def [abs_def])

lemma items_distinct: "bt_ordered bt memoryKVItem_Less t \<Longrightarrow> distinct (map fst (kv_items bt t))"
  using items_sorted [of t] sorted_wrt_distinct [of "(<)" "map fst (kv_items bt t)"] by (simp add: sorted_wrt_map)

lemma items_map_of:
  assumes "bt_ordered bt memoryKVItem_Less t"
  shows "map_of (kv_items bt t) k = map_option kvi_value (bt_Get bt t (MemoryKVItem k []))"
proof -
  have "map_of (map (\<lambda>i. (kvi_key i, kvi_value i)) xs) k =
      map_option kvi_value (List.find (\<lambda>x. \<not> kvi_key x < k \<and> \<not> k < kvi_key x) xs)" for xs
    by (induction xs) (auto simp: not_less)
  then show ?thesis by (simp add: Get [OF assms] kv_items_def memoryKVItem_Less_def)
qed

lemma Save_items:
  assumes "bt_ordered bt memoryKVItem_Less t"
  shows "map_of (kv_items bt (bt_ReplaceOrInsert bt t (MemoryKVItem k v))) = (map_of (kv_items bt t))(k \<mapsto> v)"
proof (rule ext, rule option_ext)
  fix j w
  let ?t = "bt_ReplaceOrInsert bt t (MemoryKVItem k v)"
  have "set (kv_items bt ?t) = insert (k, v) {p \<in> set (kv_items bt t). fst p \<noteq> k}"
    by (auto simp: kv_items_def ReplaceOrInsert [OF assms] memoryKVItem_Less_def neq_iff)
  then show "map_of (kv_items bt ?t) j = Some w \<longleftrightarrow> ((map_of (kv_items bt t))(k \<mapsto> v)) j = Some w"
    using items_distinct [OF assms] items_distinct [OF ordered_ReplaceOrInsert [OF assms]]
    by (auto simp: map_of_eq_Some_iff)
qed

lemma Remove_items:
  assumes "bt_ordered bt memoryKVItem_Less t"
  shows "map_of (kv_items bt (bt_Delete bt t (MemoryKVItem k []))) = (map_of (kv_items bt t))(k := None)"
proof -
  have "map_of (map (\<lambda>i. (kvi_key i, kvi_value i)) (filter (\<lambda>x. kvi_key x < k \<or> k < kvi_key x) xs)) =
      (map_of (map (\<lambda>i. (kvi_key i, kvi_value i)) xs))(k := None)" for xs
    by (induction xs) (auto simp: fun_eq_iff)
  then show ?thesis
    by (simp add: kv_items_def Delete [OF assms] memoryKVItem_Less_def [abs_def])
qed

lemma Range_items:
  assumes "bt_ordered bt memoryKVItem_Less t" "0 < n"
    and "memoryKV_LoadRange bt t k e n = Inr (ks, vs)"
  shows "zip ks vs = take n (filter (\<lambda>p. k \<le> fst p \<and> fst p < e) (kv_items bt t)) \<and> length ks = length vs"
proof -
  have z: "zip (map kvi_key xs) (map kvi_value xs) = map (\<lambda>i. (kvi_key i, kvi_value i)) xs" for xs
    by (induction xs) auto
  show ?thesis
    using assms(2,3) unfolding memoryKV_LoadRange_def
    by (auto simp: LoadRange_loop_eq AscendRange [OF assms(1)] memoryKVItem_Less_def z kv_items_def
        filter_map comp_def take_map not_less)
qed

end

sublocale memory_kv \<subseteq> mem: kv_contract "memoryKV bt" "bt_ordered bt memoryKVItem_Less" "kv_items bt"
  by unfold_locales
    (auto simp: memoryKV_def memoryKV_Load_def memoryKV_Save_def memoryKV_Remove_def items_sorted items_map_of
      Save_items Remove_items ordered_ReplaceOrInsert ordered_Delete Range_items split: option.splits)

context memory_kv
begin

lemma run_items:
  "bt_ordered bt memoryKVItem_Less t \<Longrightarrow> kv_run (memoryKV bt) ops t = (t', None) \<Longrightarrow>
     bt_ordered bt memoryKVItem_Less t' \<and> map_of (kv_items bt t') = fold kv_op_map ops (map_of (kv_items bt t))"
  by (rule mem.run_view)

end

lemma memory_kvI: "btree_contract bt memoryKVItem_Less \<Longrightarrow> memory_kv bt"
  by (simp add: memory_kv_def)

lemma list_kv_contract: "btree_contract (list_btree memoryKVItem_Less) memoryKVItem_Less"
  by (rule list_btree_contract) (auto simp: memoryKVItem_Less_def)

interpretation mem_list: memory_kv "list_btree memoryKVItem_Less"
  by (rule memory_kvI [OF list_kv_contract])

lemma memoryKV_run_ok: "\<exists>t'. kv_run (memoryKV bt) ops t = (t', None)"
proof (induction ops arbitrary: t)
  case (Cons op ops)
  have "\<exists>t1. kv_apply (memoryKV bt) op t = (t1, None)"
    by (cases op) (simp_all add: memoryKV_def memoryKV_Save_def memoryKV_Remove_def)
  with Cons show ?case by auto
qed simp

abbreviation list_kv :: "memoryKVItem list kv_base" where
  "list_kv \<equiv> memoryKV (list_btree memoryKVItem_Less)"

subsection \<open>Properties\<close>

text \<open>
  (C26) The in-memory store after any sequence of \<open>Save\<close> and \<open>Remove\<close>: every operation succeeds,
  \<open>Load\<close> returns the last value saved under the key, or the empty string when there is none,
  and \<open>LoadRange\<close> with a positive limit returns, in key order, the first stored pairs of the
  half-open key range.
\<close>
theorem memoryKV_correct:
  assumes "btree_contract bt memoryKVItem_Less"
  defines "m \<equiv> \<lambda>ops. fold kv_op_map ops Map.empty"
  shows "\<exists>t. kv_run (memoryKV bt) ops (NewMemoryKV bt) = (t, None) \<and>
    memoryKV_Load bt t k = Inr (case m ops k of None \<Rightarrow> [] | Some v \<Rightarrow> v) \<and>
    (\<exists>xs. sorted_wrt (\<lambda>p q. fst p < fst q) xs \<and> map_of xs = m ops \<and>
      (\<forall>lo hi n ks vs. 0 < n \<longrightarrow> memoryKV_LoadRange bt t lo hi n = Inr (ks, vs) \<longrightarrow>
         zip ks vs = take n (filter (\<lambda>p. lo \<le> fst p \<and> fst p < hi) xs) \<and> length ks = length vs))"
proof -
  note kv = memory_kvI [OF assms(1)]
  have new: "bt_ordered bt memoryKVItem_Less (NewMemoryKV bt)" "kv_items bt (NewMemoryKV bt) = []"
    using btree_contract.New [OF assms(1)] by (simp_all add: NewMemoryKV_def bt_ordered_def kv_items_def)
  obtain t where t: "kv_run (memoryKV bt) ops (NewMemoryKV bt) = (t, None)"
    using memoryKV_run_ok [of bt ops "NewMemoryKV bt"] by blast
  have inv: "bt_ordered bt memoryKVItem_Less t" and view: "map_of (kv_items bt t) = m ops"
    using memory_kv.run_items [OF kv new(1) t] new(2) by (simp_all add: m_def)
  have "memoryKV_Load bt t k = Inr (case m ops k of None \<Rightarrow> [] | Some v \<Rightarrow> v)"
    using memory_kv.items_map_of [OF kv inv, of k] view by (auto simp: memoryKV_Load_def split: option.splits)
  with t view memory_kv.items_sorted [OF kv inv] memory_kv.Range_items [OF kv inv] show ?thesis by blast
qed

theorem memoryKV_correct_witness:
  "\<exists>t. kv_run (memoryKV (list_btree memoryKVItem_Less)) [KvSave ''b'' ''2'', KvSave ''a'' ''1'', KvRemove ''b'']
      (NewMemoryKV (list_btree memoryKVItem_Less)) = (t, None) \<and>
     memoryKV_Load (list_btree memoryKVItem_Less) t ''a'' = Inr ''1''"
  using memoryKV_correct [OF list_kv_contract,
      of "[KvSave ''b'' ''2'', KvSave ''a'' ''1'', KvRemove ''b'']" "''a''"] by auto

end
