(* ===== verification/HistoryBuffer.thy ===== *)
theory HistoryBuffer
  imports Region Kv
begin

text \<open>
  \<open>server/region_syncer/history_buffer.go\<close>: the ring buffer of the latest region changes that the
  leader streams to its followers. \<open>index\<close> is the number the next record gets; it is persisted
  every \<open>defaultFlushCount\<close> records through a \<open>kv.Base\<close>, which is the record \<open>kv\<close> with state \<open>'s\<close>.

  One slot stays empty, so a buffer of \<open>size\<close> slots holds up to \<open>size - 1\<close> records. The buffer
  refines a list: \<open>hb_slots\<close> is what it holds, oldest first.
\<close>

subsection \<open>The code\<close>

definition historyKey :: string where
  "historyKey = ''historyIndex''"

definition defaultFlushCount :: int where
  "defaultFlushCount = 100"

text \<open>The slots are pointers, nil until first written.\<close>

record 's historyBuffer =
  hb_index :: u64
  hb_records :: "RegionInfo option list"
  hb_head :: nat
  hb_tail :: nat
  hb_size :: nat
  hb_kv :: 's
  hb_flushCount :: int

definition historyBuffer_distanceToTail :: "'s historyBuffer \<Rightarrow> nat \<Rightarrow> nat" where
  "historyBuffer_distanceToTail h pos =
     (if hb_tail h < pos then hb_tail h + hb_size h - pos else hb_tail h - pos)"

definition historyBuffer_len :: "'s historyBuffer \<Rightarrow> nat" where
  "historyBuffer_len h = historyBuffer_distanceToTail h (hb_head h)"

definition historyBuffer_nextIndex :: "'s historyBuffer \<Rightarrow> u64" where
  "historyBuffer_nextIndex h = hb_index h"

definition historyBuffer_firstIndex :: "'s historyBuffer \<Rightarrow> u64" where
  "historyBuffer_firstIndex h = hb_index h - of_nat (historyBuffer_len h)"

text \<open>\<open>reload\<close>: a failed load is logged and leaves the index; an unreadable one ends the process.\<close>

definition historyBuffer_reload :: "'s kv_base \<Rightarrow> 's historyBuffer \<Rightarrow> 's historyBuffer option" where
  "historyBuffer_reload kv h =
     (case kv_Load kv (hb_kv h) historyKey of
        Inl _ \<Rightarrow> Some h
      | Inr v \<Rightarrow>
          if v \<noteq> [] then (case ParseUint v of None \<Rightarrow> None | Some i \<Rightarrow> Some (h\<lparr>hb_index := i\<rparr>))
          else Some h)"

definition newHistoryBuffer :: "'s kv_base \<Rightarrow> int \<Rightarrow> 's \<Rightarrow> 's historyBuffer option" where
  "newHistoryBuffer kv size' s =
     (let size' = size' + 1;
          size' = (if size' < 2 then 2 else size')
      in historyBuffer_reload kv
           \<lparr>hb_index = 0, hb_records = replicate (nat size') None, hb_head = 0, hb_tail = 0,
            hb_size = nat size', hb_kv = s, hb_flushCount = defaultFlushCount\<rparr>)"

text \<open>A failed save is only logged.\<close>

definition historyBuffer_persist :: "'s kv_base \<Rightarrow> 's historyBuffer \<Rightarrow> 's historyBuffer" where
  "historyBuffer_persist kv h =
     h\<lparr>hb_kv := fst (kv_Save kv (hb_kv h) historyKey (FormatUint (historyBuffer_nextIndex h)))\<rparr>"

text \<open>Writing a slot that does not exist panics.\<close>

definition historyBuffer_Record :: "'s kv_base \<Rightarrow> 's historyBuffer \<Rightarrow> RegionInfo \<Rightarrow> 's historyBuffer option" where
  "historyBuffer_Record kv h r =
     (if hb_tail h < length (hb_records h) then
        let h = h\<lparr>hb_records := (hb_records h)[hb_tail h := Some r]\<rparr>;
            h = h\<lparr>hb_tail := (hb_tail h + 1) mod hb_size h\<rparr>;
            h = (if hb_tail h = hb_head h then h\<lparr>hb_head := (hb_head h + 1) mod hb_size h\<rparr> else h);
            h = h\<lparr>hb_index := hb_index h + 1, hb_flushCount := hb_flushCount h - 1\<rparr>
        in Some (if hb_flushCount h \<le> 0
                 then (historyBuffer_persist kv h)\<lparr>hb_flushCount := defaultFlushCount\<rparr> else h)
      else None)"

text \<open>The loop from \<open>pos\<close> to the tail; it need not end when the tail is not a slot.\<close>

partial_function (option) RecordsFrom_loop ::
    "'s historyBuffer \<Rightarrow> nat \<Rightarrow> RegionInfo option list \<Rightarrow> RegionInfo option list option" where
  "RecordsFrom_loop h i records =
     (if i = hb_tail h then Some records
      else if i < length (hb_records h)
      then RecordsFrom_loop h ((i + 1) mod hb_size h) (records @ [hb_records h ! i])
      else None)"

definition historyBuffer_RecordsFrom :: "'s historyBuffer \<Rightarrow> u64 \<Rightarrow> RegionInfo option list option" where
  "historyBuffer_RecordsFrom h index =
     (if index < historyBuffer_nextIndex h \<and> index \<ge> historyBuffer_firstIndex h
      then RecordsFrom_loop h ((hb_head h + unat (index - historyBuffer_firstIndex h)) mod hb_size h) []
      else Some [])"

definition historyBuffer_ResetWithIndex :: "'s historyBuffer \<Rightarrow> u64 \<Rightarrow> 's historyBuffer" where
  "historyBuffer_ResetWithIndex h index =
     h\<lparr>hb_index := index, hb_head := 0, hb_tail := 0, hb_flushCount := defaultFlushCount\<rparr>"

definition historyBuffer_GetNextIndex :: "'s historyBuffer \<Rightarrow> u64" where
  "historyBuffer_GetNextIndex h = hb_index h"

definition historyBuffer_get :: "'s historyBuffer \<Rightarrow> u64 \<Rightarrow> RegionInfo option option" where
  "historyBuffer_get h index =
     (if index < historyBuffer_nextIndex h \<and> index \<ge> historyBuffer_firstIndex h
      then let pos = (hb_head h + unat (index - historyBuffer_firstIndex h)) mod hb_size h
           in if pos < length (hb_records h) then Some (hb_records h ! pos) else None
      else Some None)"

subsection \<open>The list it holds\<close>

definition hb_slots :: "'s historyBuffer \<Rightarrow> RegionInfo option list" where
  "hb_slots h = map (\<lambda>j. hb_records h ! ((hb_head h + j) mod hb_size h)) [0..<historyBuffer_len h]"

definition hb_inv :: "'s historyBuffer \<Rightarrow> bool" where
  "hb_inv h \<longleftrightarrow> 2 \<le> hb_size h \<and> length (hb_records h) = hb_size h \<and>
     hb_head h < hb_size h \<and> hb_tail h < hb_size h \<and> historyBuffer_len h \<le> unat (hb_index h)"

lemma hb_len_less: "hb_inv h \<Longrightarrow> historyBuffer_len h < hb_size h"
  by (auto simp: hb_inv_def historyBuffer_len_def historyBuffer_distanceToTail_def)

lemma hb_tail_eq: "hb_inv h \<Longrightarrow> hb_tail h = (hb_head h + historyBuffer_len h) mod hb_size h"
  by (auto simp: hb_inv_def historyBuffer_len_def historyBuffer_distanceToTail_def)

lemma slot_inj:
  "a < n \<Longrightarrow> i < n \<Longrightarrow> j < n \<Longrightarrow> (a + i) mod n = (a + j) mod n \<longleftrightarrow> i = (j :: nat)"
  by (auto simp: mod_if split: if_splits)

lemma hb_len_eqI:
  "hb_head h < hb_size h \<Longrightarrow> l < hb_size h \<Longrightarrow> hb_tail h = (hb_head h + l) mod hb_size h \<Longrightarrow>
     historyBuffer_len h = l"
  by (auto simp: historyBuffer_len_def historyBuffer_distanceToTail_def mod_if split: if_splits)

lemma length_hb_slots [simp]: "length (hb_slots h) = historyBuffer_len h"
  by (simp add: hb_slots_def)

lemma nth_hb_slots: "j < historyBuffer_len h \<Longrightarrow>
    hb_slots h ! j = hb_records h ! ((hb_head h + j) mod hb_size h)"
  by (simp add: hb_slots_def)

lemma persist_fields:
  "hb_index (historyBuffer_persist kv h) = hb_index h" "hb_records (historyBuffer_persist kv h) = hb_records h"
  "hb_head (historyBuffer_persist kv h) = hb_head h" "hb_tail (historyBuffer_persist kv h) = hb_tail h"
  "hb_size (historyBuffer_persist kv h) = hb_size h"
  by (simp_all add: historyBuffer_persist_def)

lemma Record_fields:
  assumes "hb_inv h"
  shows "\<exists>h'. historyBuffer_Record kv h r = Some h' \<and>
    hb_records h' = (hb_records h)[hb_tail h := Some r] \<and> hb_size h' = hb_size h \<and>
    hb_index h' = hb_index h + 1 \<and> hb_tail h' = (hb_tail h + 1) mod hb_size h \<and>
    hb_head h' = (if (hb_tail h + 1) mod hb_size h = hb_head h then (hb_head h + 1) mod hb_size h else hb_head h)"
  using assms by (auto simp: historyBuffer_Record_def Let_def hb_inv_def persist_fields)

lemma Record_len:
  assumes inv: "hb_inv h"
    and h': "hb_size h' = hb_size h" "hb_tail h' = (hb_tail h + 1) mod hb_size h"
      "hb_head h' = (if (hb_tail h + 1) mod hb_size h = hb_head h then (hb_head h + 1) mod hb_size h else hb_head h)"
  shows "(hb_tail h + 1) mod hb_size h = hb_head h \<longleftrightarrow> Suc (historyBuffer_len h) = hb_size h"
    and "historyBuffer_len h' = min (hb_size h - 1) (Suc (historyBuffer_len h))"
proof -
  let ?n = "hb_size h" and ?a = "hb_head h" and ?l = "historyBuffer_len h"
  have n: "?a < ?n" "?l < ?n" "2 \<le> ?n" and t: "hb_tail h = (?a + ?l) mod ?n"
    using inv hb_len_less [OF inv] hb_tail_eq [OF inv] by (auto simp: hb_inv_def)
  have t': "(hb_tail h + 1) mod ?n = (?a + Suc ?l) mod ?n" unfolding t by (simp add: mod_simps)
  show full: "(hb_tail h + 1) mod ?n = ?a \<longleftrightarrow> Suc ?l = ?n"
  proof (cases "Suc ?l = ?n")
    case True
    with n show ?thesis unfolding t' by (simp add: mod_if)
  next
    case False
    with n slot_inj [of ?a ?n "Suc ?l" 0] show ?thesis unfolding t' by simp
  qed
  show "historyBuffer_len h' = min (?n - 1) (Suc ?l)"
  proof (rule hb_len_eqI)
    show "hb_head h' < hb_size h'" using n h' by (auto split: if_splits)
    show "min (?n - 1) (Suc ?l) < hb_size h'" using n h' by simp
    show "hb_tail h' = (hb_head h' + min (?n - 1) (Suc ?l)) mod hb_size h'"
    proof (cases "Suc ?l = ?n")
      case True
      then have "hb_head h' = (?a + 1) mod ?n" "min (?n - 1) (Suc ?l) = ?l" using full h'(3) by auto
      then show ?thesis unfolding h'(1,2) t' by (simp add: mod_simps)
    next
      case False
      then have "hb_head h' = ?a" "min (?n - 1) (Suc ?l) = Suc ?l" using full h'(3) n by auto
      then show ?thesis unfolding h'(1,2) t' by simp
    qed
  qed
qed

text \<open>Recording appends, and drops the oldest record of a full buffer.\<close>

lemma Record_refines:
  assumes inv: "hb_inv h" and max: "hb_index h \<noteq> - 1"
  shows "\<exists>h'. historyBuffer_Record kv h r = Some h' \<and> hb_inv h' \<and> hb_size h' = hb_size h \<and>
    hb_index h' = hb_index h + 1 \<and>
    hb_slots h' = drop (Suc (historyBuffer_len h) - (hb_size h - 1)) (hb_slots h @ [Some r])"
proof -
  let ?n = "hb_size h" and ?a = "hb_head h" and ?l = "historyBuffer_len h"
  obtain h' where rec: "historyBuffer_Record kv h r = Some h'"
    and h': "hb_records h' = (hb_records h)[hb_tail h := Some r]" "hb_size h' = ?n" "hb_index h' = hb_index h + 1"
      "hb_tail h' = (hb_tail h + 1) mod ?n"
      "hb_head h' = (if (hb_tail h + 1) mod ?n = ?a then (?a + 1) mod ?n else ?a)"
    using Record_fields [OF inv] by blast
  note L = Record_len [OF inv h'(2,4,5)]
  have n: "?a < ?n" "?l < ?n" "2 \<le> ?n" "length (hb_records h) = ?n" and t: "hb_tail h = (?a + ?l) mod ?n"
    using inv hb_len_less [OF inv] hb_tail_eq [OF inv] by (auto simp: hb_inv_def)
  let ?d = "Suc ?l - (?n - 1)"
  have d: "?d = (if Suc ?l = ?n then 1 else 0)" using n by auto
  have head: "(hb_head h' + j) mod ?n = (?a + (?d + j)) mod ?n" for j
    using h'(5) L(1) d by (simp add: mod_simps)
  have "unat (hb_index h + 1) = Suc (unat (hb_index h))"
    using max unatSuc [of "hb_index h"] by (simp add: add.commute add_eq_0_iff)
  then have "hb_inv h'"
    using inv n h' L(2) by (auto simp: hb_inv_def split: if_splits)
  moreover have "hb_slots h' = drop ?d (hb_slots h @ [Some r])"
  proof (rule nth_equalityI)
    show len: "length (hb_slots h') = length (drop ?d (hb_slots h @ [Some r]))" using L(2) n by auto
    fix j assume "j < length (hb_slots h')"
    then have j: "j < historyBuffer_len h'" "?d + j \<le> ?l" using len n by auto
    have "hb_slots h' ! j = ((hb_records h)[hb_tail h := Some r]) ! ((?a + (?d + j)) mod ?n)"
      using nth_hb_slots [OF j(1)] h'(1,2) head by simp
    also have "\<dots> = (hb_slots h @ [Some r]) ! (?d + j)"
      using j(2) n slot_inj [of ?a ?n "?d + j" ?l]
      by (auto simp: t nth_append nth_hb_slots nth_list_update)
    also have "\<dots> = drop ?d (hb_slots h @ [Some r]) ! j"
      using j(2) by (intro nth_drop [symmetric]) simp
    finally show "hb_slots h' ! j = drop ?d (hb_slots h @ [Some r]) ! j" .
  qed
  ultimately show ?thesis using rec h' by blast
qed

lemma RecordsFrom_loop_eq:
  assumes "hb_inv h" "d \<le> historyBuffer_len h"
  shows "RecordsFrom_loop h ((hb_head h + (historyBuffer_len h - d)) mod hb_size h) acc =
    Some (acc @ drop (historyBuffer_len h - d) (hb_slots h))"
  using assms(2)
proof (induction d arbitrary: acc)
  case 0
  with hb_tail_eq [OF assms(1)] show ?case by (subst RecordsFrom_loop.simps) simp
next
  case (Suc d)
  let ?l = "historyBuffer_len h" and ?n = "hb_size h"
  let ?i = "(hb_head h + (?l - Suc d)) mod ?n"
  have n: "hb_head h < ?n" "?l < ?n" "length (hb_records h) = ?n"
    using assms(1) hb_len_less [OF assms(1)] by (auto simp: hb_inv_def)
  have "?i \<noteq> hb_tail h"
    using slot_inj [of "hb_head h" ?n "?l - Suc d" ?l] n Suc.prems hb_tail_eq [OF assms(1)] by auto
  moreover have "(?i + 1) mod ?n = (hb_head h + (?l - d)) mod ?n"
    using Suc.prems by (simp add: mod_simps Suc_diff_Suc)
  moreover have "hb_records h ! ?i = hb_slots h ! (?l - Suc d)"
    using Suc.prems by (simp add: nth_hb_slots)
  moreover have "?i < length (hb_records h)" using n by simp
  ultimately have "RecordsFrom_loop h ?i acc =
      RecordsFrom_loop h ((hb_head h + (?l - d)) mod ?n) (acc @ [hb_slots h ! (?l - Suc d)])"
    by (subst RecordsFrom_loop.simps) simp
  also have "\<dots> = Some (acc @ hb_slots h ! (?l - Suc d) # drop (?l - d) (hb_slots h))"
    using Suc by simp
  also have "hb_slots h ! (?l - Suc d) # drop (?l - d) (hb_slots h) = drop (?l - Suc d) (hb_slots h)"
    using Suc.prems by (subst Cons_nth_drop_Suc [symmetric]) (simp_all add: Suc_diff_Suc)
  finally show ?case .
qed

lemma unat_firstIndex:
  assumes "hb_inv h"
  shows "unat (historyBuffer_firstIndex h) = unat (hb_index h) - historyBuffer_len h"
proof -
  have l: "historyBuffer_len h \<le> unat (hb_index h)" using assms by (simp add: hb_inv_def)
  moreover have "unat (hb_index h) < 2 ^ LENGTH(64)" by (rule unsigned_less)
  ultimately have "unat (of_nat (historyBuffer_len h) :: u64) = historyBuffer_len h"
    by (simp add: unsigned_of_nat take_bit_nat_eq_self)
  with l show ?thesis by (simp add: historyBuffer_firstIndex_def unat_sub word_le_nat_alt)
qed

lemma RecordsFrom_eq:
  assumes "hb_inv h"
  shows "historyBuffer_RecordsFrom h i =
    Some (if unat (historyBuffer_firstIndex h) \<le> unat i \<and> unat i < unat (hb_index h)
      then drop (unat i - unat (historyBuffer_firstIndex h)) (hb_slots h) else [])"
proof (cases "unat (historyBuffer_firstIndex h) \<le> unat i \<and> unat i < unat (hb_index h)")
  case True
  let ?l = "historyBuffer_len h" and ?k = "unat i - unat (historyBuffer_firstIndex h)"
  have "?k \<le> ?l" using True unat_firstIndex [OF assms] by linarith
  then have "RecordsFrom_loop h ((hb_head h + ?k) mod hb_size h) [] = Some (drop ?k (hb_slots h))"
    using RecordsFrom_loop_eq [OF assms, of "?l - ?k" "[]"] by simp
  moreover have "unat (i - historyBuffer_firstIndex h) = ?k"
    using True by (intro unat_sub) (simp add: word_le_nat_alt)
  ultimately show ?thesis
    using True by (simp add: historyBuffer_RecordsFrom_def historyBuffer_nextIndex_def
        word_le_nat_alt word_less_nat_alt)
next
  case False
  then show ?thesis
    by (auto simp: historyBuffer_RecordsFrom_def historyBuffer_nextIndex_def word_le_nat_alt word_less_nat_alt)
qed

fun Records :: "'s kv_base \<Rightarrow> RegionInfo list \<Rightarrow> 's historyBuffer \<Rightarrow> 's historyBuffer option" where
  "Records kv [] h = Some h"
| "Records kv (r # rs) h = (case historyBuffer_Record kv h r of None \<Rightarrow> None | Some h \<Rightarrow> Records kv rs h)"

text \<open>The last \<open>n\<close> elements of a list.\<close>

definition last_n :: "nat \<Rightarrow> 'a list \<Rightarrow> 'a list" where
  "last_n n xs = drop (length xs - n) xs"

lemma Records_refine:
  assumes "hb_inv h" "unat (hb_index h) + length rs < 2 ^ 64"
  shows "\<exists>h'. Records kv rs h = Some h' \<and> hb_inv h' \<and> hb_size h' = hb_size h \<and>
    unat (hb_index h') = unat (hb_index h) + length rs \<and>
    hb_slots h' = last_n (hb_size h - 1) (hb_slots h @ map Some rs)"
  using assms
proof (induction rs arbitrary: h)
  case Nil
  with hb_len_less [OF Nil.prems(1)] show ?case by (simp add: last_n_def)
next
  case (Cons r rs)
  have max: "hb_index h \<noteq> - 1" using Cons.prems(2) by (auto simp: unsigned_minus_1_eq_mask mask_eq_exp_minus_1)
  obtain h1 where h1: "historyBuffer_Record kv h r = Some h1" "hb_inv h1" "hb_size h1 = hb_size h"
    "hb_index h1 = hb_index h + 1"
    "hb_slots h1 = last_n (hb_size h - 1) (hb_slots h @ [Some r])"
    using Record_refines [OF Cons.prems(1) max] by (auto simp: last_n_def)
  have i: "unat (hb_index h1) = Suc (unat (hb_index h))"
    using h1(4) max unatSuc [of "hb_index h"] by (simp add: add.commute add_eq_0_iff)
  have "last_n n (last_n n xs @ ys) = last_n n (xs @ ys)" for n and xs ys :: "RegionInfo option list"
    by (cases "length xs \<le> n") (auto simp: last_n_def add.commute)
  with Cons.IH [OF h1(2)] h1 i Cons.prems(2) show ?case by auto
qed

lemma newHistoryBuffer_inv:
  assumes "newHistoryBuffer kv n s = Some h"
  shows "hb_inv h" "hb_slots h = []" "hb_size h = nat (max 1 n) + 1"
  using assms
  by (auto simp: newHistoryBuffer_def historyBuffer_reload_def hb_inv_def hb_slots_def Let_def
      historyBuffer_len_def historyBuffer_distanceToTail_def nat_add_distrib
      split: sum.splits if_splits option.splits)

subsection \<open>Properties\<close>

text \<open>
  (C27) The history buffer: record a sequence \<open>rs\<close> in a new buffer of capacity \<open>n\<close> (at least one)
  whose first number is \<open>index\<close>. No call panics, the loop of \<open>RecordsFrom\<close> ends, and
  \<open>RecordsFrom i\<close> returns exactly the records numbered from \<open>i\<close> on when \<open>i\<close> is one of the last \<open>n\<close>
  numbers given out, and nothing otherwise.
\<close>
theorem RecordsFrom_correct:
  assumes "newHistoryBuffer kv n s = Some h" "unat (hb_index h) + length rs < 2 ^ 64"
  shows "\<exists>h'. Records kv rs h = Some h' \<and>
    unat (historyBuffer_GetNextIndex h') = unat (hb_index h) + length rs \<and>
    historyBuffer_RecordsFrom h' i = Some
      (if unat (hb_index h) + (length rs - nat (max 1 n)) \<le> unat i \<and> unat i < unat (hb_index h) + length rs
       then map Some (drop (unat i - unat (hb_index h)) rs) else [])"
proof -
  note new = newHistoryBuffer_inv [OF assms(1)]
  obtain h' where h': "Records kv rs h = Some h'" "hb_inv h'" "hb_size h' = hb_size h"
    "unat (hb_index h') = unat (hb_index h) + length rs"
    "hb_slots h' = last_n (nat (max 1 n)) (map Some rs)"
    using Records_refine [OF new(1) assms(2)] new(2,3) by auto
  let ?N = "nat (max 1 n)"
  have "historyBuffer_len h' = min ?N (length rs)"
    using arg_cong [OF h'(5), of length] by (simp add: last_n_def min_def)
  then have first: "unat (historyBuffer_firstIndex h') = unat (hb_index h) + (length rs - ?N)"
    using unat_firstIndex [OF h'(2)] h'(4) by (simp add: min_def)
  have "drop (unat i - (unat (hb_index h) + (length rs - ?N))) (last_n ?N (map Some rs)) =
      map Some (drop (unat i - unat (hb_index h)) rs)" if "unat (hb_index h) + (length rs - ?N) \<le> unat i"
    using that by (simp add: last_n_def drop_map)
  then show ?thesis
    using h'(1,4) RecordsFrom_eq [OF h'(2), of i, unfolded first h'(4,5)]
    by (auto simp: historyBuffer_GetNextIndex_def)
qed

text \<open>
  The persisted index: when \<open>persist\<close> and the later load succeed, a new buffer on the
  saved store starts with the number the old one would have given out next.
\<close>
theorem persist_reload:
  assumes "kv_contract kv I view" "I (hb_kv h)"
    and "kv_Save kv (hb_kv h) historyKey (FormatUint (historyBuffer_nextIndex h)) = (s, None)"
    and "kv_Load kv s historyKey = Inr v"
  shows "map_option historyBuffer_GetNextIndex
      (newHistoryBuffer kv n (hb_kv (historyBuffer_persist kv h))) = Some (historyBuffer_nextIndex h)"
proof -
  have "v = FormatUint (historyBuffer_nextIndex h)"
    by (rule kv_contract.load_after_save [OF assms])
  moreover have "FormatUint (historyBuffer_nextIndex h) \<noteq> []" by simp
  ultimately show ?thesis
    using assms(3,4) by (simp add: newHistoryBuffer_def historyBuffer_reload_def historyBuffer_persist_def
        Let_def ParseUint_FormatUint historyBuffer_GetNextIndex_def)
qed

definition sample_record :: RegionInfo where
  "sample_record = NewRegionInfo \<lparr>Region_Id = 7, Region_StartKey = [], Region_EndKey = [],
     Region_RegionEpoch = None, Region_Peers = []\<rparr> None []"

theorem RecordsFrom_correct_witness:
  "\<exists>h h'. newHistoryBuffer list_kv 2 [] = Some h \<and>
     Records list_kv [sample_record, sample_record, sample_record] h = Some h' \<and>
     historyBuffer_RecordsFrom h' 2 = Some [Some sample_record] \<and>
     unat (historyBuffer_GetNextIndex h') = 3"
proof -
  have "map_option hb_index (newHistoryBuffer list_kv 2 []) = Some 0" by code_simp
  then obtain h where h: "newHistoryBuffer list_kv 2 [] = Some h" "hb_index h = 0" by auto
  let ?rs = "[sample_record, sample_record, sample_record]"
  have "unat (hb_index h) + length ?rs < 2 ^ 64" using h(2) by simp
  from RecordsFrom_correct [OF h(1) this, of 2] obtain h' where "Records list_kv ?rs h = Some h'"
    "unat (historyBuffer_GetNextIndex h') = 3"
    "historyBuffer_RecordsFrom h' 2 = Some [Some sample_record]"
    using h(2) by auto
  with h(1) show ?thesis by blast
qed

theorem persist_reload_witness:
  "map_option historyBuffer_GetNextIndex
     (newHistoryBuffer list_kv 5 (hb_kv (historyBuffer_persist list_kv
        \<lparr>hb_index = 42, hb_records = [], hb_head = 0, hb_tail = 0, hb_size = 2, hb_kv = [], hb_flushCount = 1\<rparr>))) =
   Some 42"
proof -
  let ?h = "\<lparr>hb_index = 42, hb_records = [], hb_head = 0, hb_tail = 0, hb_size = 2,
     hb_kv = [] :: memoryKVItem list, hb_flushCount = 1\<rparr>"
  have c: "kv_contract list_kv (bt_ordered (list_btree memoryKVItem_Less) memoryKVItem_Less)
      (kv_items (list_btree memoryKVItem_Less))" by (rule mem_list.mem.kv_contract_axioms)
  have o': "bt_ordered (list_btree memoryKVItem_Less) memoryKVItem_Less (hb_kv ?h)"
    by (simp add: bt_ordered_def list_btree_def)
  have "kv_Save list_kv (hb_kv ?h) historyKey (FormatUint (historyBuffer_nextIndex ?h)) =
      ([MemoryKVItem historyKey (FormatUint (historyBuffer_nextIndex ?h))], None)"
    "kv_Load list_kv [MemoryKVItem historyKey (FormatUint (historyBuffer_nextIndex ?h))] historyKey = Inr ''42''"
    by code_simp+
  from persist_reload [OF c o' this] show ?thesis by (simp add: historyBuffer_nextIndex_def)
qed

end
