(* ===== verification/Codec.thy ===== *)
theory Codec
  imports Prelude
begin

text \<open>
  \<open>table/codec.go\<close>: the memory-comparable encoding of keys. \<open>EncodeBytes\<close> cuts a byte string in
  groups of eight, pads the last with zeros and follows each group with a marker that says how
  many bytes were padded; \<open>EncodeInt\<close> writes a signed integer so that byte order is numeric
  order. The theorems: both encodings are inverted by the decoders, and both preserve order in
  both directions.
\<close>

unbundle bit_operations_syntax

subsection \<open>Integers\<close>

definition tablePrefix :: bytes where
  "tablePrefix = [116]"

definition metaPrefix :: bytes where
  "metaPrefix = [109]"

definition recordPrefix :: bytes where
  "recordPrefix = [114]"

definition signMask :: u64 where
  "signMask = 0x8000000000000000"

definition encGroupSize :: nat where
  "encGroupSize = 8"

definition encMarker :: byte where
  "encMarker = 0xFF"

definition encPad :: byte where
  "encPad = 0"

datatype codec_error = InsufficientBytes | InvalidMarker bytes | InvalidPadding bytes

text \<open>\<open>binary.BigEndian.PutUint64\<close> and \<open>Uint64\<close>: the last \<open>k\<close> bytes of a word, and their value.\<close>

fun be_bytes :: "nat \<Rightarrow> u64 \<Rightarrow> bytes" where
  "be_bytes 0 u = []"
| "be_bytes (Suc k) u = ucast (drop_bit (8 * k) u) # be_bytes k u"

fun be_uint :: "bytes \<Rightarrow> u64" where
  "be_uint [] = 0"
| "be_uint (b # bs) = push_bit (8 * length bs) (ucast b) OR be_uint bs"

definition encodeIntToCmpUint :: "i64 \<Rightarrow> u64" where
  "encodeIntToCmpUint v = v XOR signMask"

definition decodeCmpUintToInt :: "u64 \<Rightarrow> i64" where
  "decodeCmpUintToInt u = u XOR signMask"

definition EncodeInt :: "bytes \<Rightarrow> i64 \<Rightarrow> bytes" where
  "EncodeInt b v = b @ be_bytes 8 (encodeIntToCmpUint v)"

definition DecodeInt :: "bytes \<Rightarrow> codec_error + (bytes \<times> i64)" where
  "DecodeInt b =
     (if length b < 8 then Inl InsufficientBytes
      else Inr (drop 8 b, decodeCmpUintToInt (be_uint (take 8 b))))"

subsection \<open>Byte strings\<close>

text \<open>The loop of \<open>EncodeBytes\<close>; \<open>data\<close> is the part from \<open>idx\<close> on.\<close>

function EncodeBytes_loop :: "bytes \<Rightarrow> bytes \<Rightarrow> bytes" where
  "EncodeBytes_loop result data =
     (if length data \<ge> encGroupSize
      then EncodeBytes_loop (result @ take encGroupSize data @ [encMarker]) (drop encGroupSize data)
      else let padCount = encGroupSize - length data
           in result @ data @ replicate padCount encPad @ [encMarker - of_nat padCount])"
  by pat_completeness auto
termination
  by (relation "measure (\<lambda>(_, data). length data)") (auto simp: encGroupSize_def)

definition EncodeBytes :: "bytes \<Rightarrow> bytes" where
  "EncodeBytes data = EncodeBytes_loop [] data"

function DecodeBytes_loop :: "bytes \<Rightarrow> bytes \<Rightarrow> codec_error + (bytes \<times> bytes)" where
  "DecodeBytes_loop data b =
     (if length b < encGroupSize + 1 then Inl InsufficientBytes
      else let groupBytes = take (encGroupSize + 1) b;
               group = take encGroupSize groupBytes;
               marker = groupBytes ! encGroupSize;
               padCount = encMarker - marker
           in if padCount > of_nat encGroupSize then Inl (InvalidMarker groupBytes)
              else let realGroupSize = encGroupSize - unat padCount;
                       data = data @ take realGroupSize group;
                       b = drop (encGroupSize + 1) b
                   in if padCount \<noteq> 0
                      then if \<exists>v \<in> set (drop realGroupSize group). v \<noteq> encPad
                           then Inl (InvalidPadding groupBytes) else Inr (b, data)
                      else DecodeBytes_loop data b)"
  by pat_completeness auto
termination
  by (relation "measure (\<lambda>(_, b). length b)") (auto simp: encGroupSize_def)

declare EncodeBytes_loop.simps [simp del] DecodeBytes_loop.simps [simp del]

definition DecodeBytes :: "bytes \<Rightarrow> codec_error + (bytes \<times> bytes)" where
  "DecodeBytes b = DecodeBytes_loop [] b"

subsection \<open>Keys\<close>

text \<open>\<open>_, tableID, _ := DecodeInt(key)\<close>: on an error the value is 0.\<close>

definition DecodeInt_value :: "bytes \<Rightarrow> i64" where
  "DecodeInt_value key = (case DecodeInt key of Inl _ \<Rightarrow> 0 | Inr (_, v) \<Rightarrow> v)"

definition Key_TableID :: "bytes \<Rightarrow> i64" where
  "Key_TableID k =
     (case DecodeBytes k of
        Inl _ \<Rightarrow> 0
      | Inr (_, key) \<Rightarrow>
          if \<not> bytes_HasPrefix key tablePrefix then 0
          else DecodeInt_value (drop (length tablePrefix) key))"

definition Key_MetaOrTable :: "bytes \<Rightarrow> bool \<times> i64" where
  "Key_MetaOrTable k =
     (case DecodeBytes k of
        Inl _ \<Rightarrow> (False, 0)
      | Inr (_, key) \<Rightarrow>
          if bytes_HasPrefix key metaPrefix then (True, 0)
          else if bytes_HasPrefix key tablePrefix
          then (False, DecodeInt_value (drop (length tablePrefix) key))
          else (False, 0))"

definition GenerateTableKey :: "i64 \<Rightarrow> bytes" where
  "GenerateTableKey tableID = EncodeInt tablePrefix tableID"

definition GenerateRowKey :: "i64 \<Rightarrow> i64 \<Rightarrow> bytes" where
  "GenerateRowKey tableID rowID =
     EncodeInt (EncodeInt tablePrefix tableID @ recordPrefix) rowID"

subsection \<open>Integers: round trip and order\<close>

lemma length_be_bytes [simp]: "length (be_bytes k u) = k"
  by (induction k) auto

lemma be_uint_bytes: "be_uint (be_bytes k u) = take_bit (8 * k) u"
proof (induction k)
  case (Suc k)
  have "push_bit (8 * k) (ucast (ucast (drop_bit (8 * k) u) :: byte)) OR take_bit (8 * k) u =
      take_bit (8 * Suc k) u"
    by (rule bit_word_eqI) (auto simp: bit_simps)
  with Suc show ?case by simp
qed simp

lemma xor_signMask [simp]: "(v XOR signMask) XOR signMask = v"
  by (simp add: xor.assoc)

lemma DecodeInt_EncodeInt: "DecodeInt (be_bytes 8 (encodeIntToCmpUint v) @ rest) = Inr (rest, v)"
  by (simp add: DecodeInt_def be_uint_bytes take_bit_word_eq_self decodeCmpUintToInt_def
      encodeIntToCmpUint_def)

lemma digit_less:
  assumes "r < b" "r' < (b :: nat)"
  shows "d * b + r < d' * b + r' \<longleftrightarrow> d < d' \<or> (d = d' \<and> r < r')"
proof (cases d d' rule: linorder_cases)
  case less
  then have "Suc d * b \<le> d' * b" by (intro mult_le_mono1) simp
  with assms less show ?thesis by simp
next
  case greater
  then have "Suc d' * b \<le> d * b" by (intro mult_le_mono1) simp
  with assms greater show ?thesis by simp
qed simp

lemma unat_byte_digit: "unat (ucast (drop_bit (8 * k) (w :: u64)) :: byte) = unat w div 256 ^ k mod 256"
  by (simp only: unsigned_ucast_eq unat_drop_bit_eq) (simp add: drop_bit_eq_div take_bit_eq_mod power_mult)

lemma be_bytes_less: "be_bytes k u < be_bytes k v \<longleftrightarrow> unat u mod 256 ^ k < unat v mod 256 ^ k"
proof (induction k)
  case (Suc k)
  have "unat w mod 256 ^ Suc k = unat w div 256 ^ k mod 256 * 256 ^ k + unat w mod 256 ^ k" for w :: u64
    using mod_mult2_eq [of "unat w" "256 ^ k" 256] by (simp add: mult.commute)
  with Suc show ?case
    by (simp add: digit_less word_less_nat_alt unat_byte_digit word_unat_eq_iff del: power_Suc)
qed simp

lemma encodeIntToCmpUint_uint: "uint (encodeIntToCmpUint v) = sint v + 2 ^ 63"
proof -
  have "uint (encodeIntToCmpUint v) = flip_bit 63 (uint v)"
    by (simp add: encodeIntToCmpUint_def signMask_def unsigned_xor_eq flip_bit_eq_xor)
  also have "\<dots> = (if bit (uint v) 63 then uint v - 2 ^ 63 else uint v + 2 ^ 63)"
    by (simp add: flip_bit_eq_if set_bit_eq unset_bit_eq)
  also have "\<dots> = sint v + 2 ^ 63"
    using uint_bounded [of v]
    by (simp add: sint_uint signed_take_bit_eq_take_bit_minus take_bit_int_eq_self)
  finally show ?thesis .
qed

lemma EncodeInt_less: "EncodeInt b v < EncodeInt b w \<longleftrightarrow> sint v < sint w"
proof -
  have app: "b @ xs < b @ ys \<longleftrightarrow> xs < ys" for xs ys :: bytes by (induction b) auto
  have "unat (encodeIntToCmpUint v) < unat (encodeIntToCmpUint w) \<longleftrightarrow> sint v < sint w"
    using encodeIntToCmpUint_uint [of v] encodeIntToCmpUint_uint [of w]
    by (simp add: word_less_nat_alt [symmetric] word_less_def)
  moreover have unat_lt: "unat x < 2 ^ LENGTH(64)" for x :: u64 by (rule unsigned_less)
  ultimately show ?thesis
    using unat_lt [of "encodeIntToCmpUint v"] unat_lt [of "encodeIntToCmpUint w"]
    by (simp add: EncodeInt_def app be_bytes_less)
qed

subsection \<open>Byte strings: round trip\<close>

lemma EncodeBytes_loop_acc: "EncodeBytes_loop result data = result @ EncodeBytes_loop [] data"
proof (induction "length data" arbitrary: result data rule: less_induct)
  case less
  show ?case
  proof (cases "encGroupSize \<le> length data")
    case True
    let ?g = "take encGroupSize data @ [encMarker]" and ?d = "drop encGroupSize data"
    have IH: "EncodeBytes_loop r ?d = r @ EncodeBytes_loop [] ?d" for r
      using True by (intro less) (simp add: encGroupSize_def)
    have "EncodeBytes_loop r data = EncodeBytes_loop (r @ ?g) ?d" for r
      using True by (subst EncodeBytes_loop.simps) simp
    then show ?thesis by (simp add: IH [of "_ @ _"] IH [of ?g])
  next
    case False
    then show ?thesis by (simp add: EncodeBytes_loop.simps [of _ data] Let_def)
  qed
qed

text \<open>The encoding as a recursion on the string: a full group, or the padded last one.\<close>

lemma EncodeBytes_full:
  "8 \<le> length data \<Longrightarrow> EncodeBytes data = take 8 data @ 255 # EncodeBytes (drop 8 data)"
  unfolding EncodeBytes_def
  by (subst EncodeBytes_loop.simps, subst EncodeBytes_loop_acc) (simp add: encGroupSize_def encMarker_def)

lemma EncodeBytes_last:
  "length data < 8 \<Longrightarrow>
     EncodeBytes data = data @ replicate (8 - length data) 0 @ [255 - of_nat (8 - length data)]"
  unfolding EncodeBytes_def
  by (subst EncodeBytes_loop.simps) (simp add: encGroupSize_def encMarker_def encPad_def Let_def)

lemma DecodeBytes_loop_EncodeBytes:
  "DecodeBytes_loop acc (EncodeBytes data @ rest) = Inr (rest, acc @ data)"
proof (induction "length data" arbitrary: acc data rule: less_induct)
  case less
  show ?case
  proof (cases "8 \<le> length data")
    case True
    have "DecodeBytes_loop acc (EncodeBytes data @ rest) =
        DecodeBytes_loop (acc @ take 8 data) (EncodeBytes (drop 8 data) @ rest)"
      using True by (subst DecodeBytes_loop.simps)
        (simp add: EncodeBytes_full encGroupSize_def encMarker_def Let_def nth_append)
    also have "\<dots> = Inr (rest, (acc @ take 8 data) @ drop 8 data)"
      using True by (intro less) simp
    finally show ?thesis by simp
  next
    case False
    have "unat (of_nat n :: byte) = n" if "n \<le> 8" for n
      using that by (simp add: unsigned_of_nat take_bit_nat_eq_self)
    from this [of "8 - length data"] False show ?thesis
      by (subst DecodeBytes_loop.simps)
        (auto simp: EncodeBytes_last encGroupSize_def encMarker_def encPad_def Let_def nth_append
          word_less_nat_alt unat_eq_zero)
  qed
qed

lemma DecodeBytes_loop_sound:
  "DecodeBytes_loop acc b = Inr (rest, d) \<Longrightarrow> \<exists>d'. d = acc @ d' \<and> b = EncodeBytes d' @ rest"
proof (induction "length b" arbitrary: acc b rule: less_induct)
  case less
  let ?m = "b ! 8" and ?p = "255 - b ! 8"
  from less.prems have len: "9 \<le> length b"
    by (subst (asm) DecodeBytes_loop.simps) (auto simp: encGroupSize_def split: if_splits)
  then have split: "b = take 8 b @ ?m # drop 9 b"
    using id_take_nth_drop [of 8 b] by simp
  show ?case
  proof (cases "?p = 0")
    case True
    then have "DecodeBytes_loop acc b = DecodeBytes_loop (acc @ take 8 b) (drop 9 b)"
      using len by (subst DecodeBytes_loop.simps)
        (simp add: encGroupSize_def encMarker_def Let_def min_def)
    moreover have "length (drop 9 b) < length b" using len by simp
    ultimately obtain d' where d': "d = acc @ take 8 b @ d'" "drop 9 b = EncodeBytes d' @ rest"
      using less.prems less.hyps [of "drop 9 b" "acc @ take 8 b"] by auto
    have "EncodeBytes (take 8 b @ d') = take 8 b @ 255 # EncodeBytes d'"
      using len by (subst EncodeBytes_full) (auto simp: min_def)
    with d' split True show ?thesis by (intro exI [of _ "take 8 b @ d'"]) simp
  next
    case False
    let ?r = "8 - unat ?p"
    have "DecodeBytes_loop acc b = (if ?p > 8 then Inl (InvalidMarker (take 9 b))
        else if \<exists>v \<in> set (drop ?r (take 8 b)). v \<noteq> 0 then Inl (InvalidPadding (take 9 b))
        else Inr (drop 9 b, acc @ take ?r (take 8 b)))"
      using len False by (subst DecodeBytes_loop.simps)
        (simp add: encGroupSize_def encMarker_def encPad_def Let_def min_def)
    with less.prems have p: "unat ?p \<le> 8" "rest = drop 9 b" "d = acc @ take ?r (take 8 b)"
      "\<forall>v \<in> set (drop ?r (take 8 b)). v = 0"
      by (auto simp: word_less_nat_alt not_less split: if_splits)
    have "unat ?p \<noteq> 0" using False by (simp add: unat_eq_zero)
    have "drop ?r (take 8 b) = replicate (unat ?p) 0"
      using replicate_length_same [OF p(4)] len p(1) by (simp add: min_def)
    then have "take 8 b = take ?r (take 8 b) @ replicate (unat ?p) 0" by (metis append_take_drop_id)
    then have "b = EncodeBytes (take ?r (take 8 b)) @ rest"
      using split p(1,2) \<open>unat ?p \<noteq> 0\<close> len
      by (subst EncodeBytes_last) (auto simp: min_def)
    with p(3) show ?thesis by blast
  qed
qed

subsection \<open>Byte strings: order\<close>

definition pad :: "nat \<Rightarrow> bytes \<Rightarrow> bytes" where
  "pad n a = a @ replicate (n - length a) 0"

lemma pad_simps [simp]: "pad 0 [] = []" "pad (Suc n) [] = 0 # pad n []" "pad (Suc n) (x # a) = x # pad n a"
  by (simp_all add: pad_def)

lemma length_pad: "length a \<le> n \<Longrightarrow> length (pad n a) = n"
  by (simp add: pad_def)

lemma pad_less: "length a \<le> n \<Longrightarrow> length b \<le> n \<Longrightarrow> pad n a < pad n b \<Longrightarrow> a < b"
proof (induction n arbitrary: a b)
  case (Suc n)
  then show ?case by (cases a; cases b) (auto dest: Suc.IH [of _ "[]"] Suc.IH)
qed (auto simp: pad_def)

lemma pad_eq: "length a \<le> n \<Longrightarrow> length b \<le> n \<Longrightarrow> pad n a = pad n b \<Longrightarrow> a < b \<longleftrightarrow> length a < length b"
proof (induction n arbitrary: a b)
  case (Suc n)
  then show ?case by (cases a; cases b) auto
qed simp

lemma pad_length_eq: "length a \<le> n \<Longrightarrow> length a = length b \<Longrightarrow> pad n a = pad n b \<longleftrightarrow> a = b"
  by (auto simp: pad_def)

lemma append_less_same_length:
  "length xs = length ys \<Longrightarrow> xs @ us < ys @ vs \<longleftrightarrow> xs < ys \<or> (xs = ys \<and> us < (vs :: bytes))"
  by (induction xs ys rule: list_induct2) auto

lemma take_drop_less:
  "a < (b :: bytes) \<longleftrightarrow> take n a < take n b \<or> (take n a = take n b \<and> drop n a < drop n b)"
proof (induction n arbitrary: a b)
  case (Suc n)
  show ?case
  proof (cases "a = [] \<or> b = []")
    case True
    then show ?thesis by (cases a; cases b) auto
  next
    case False
    then show ?thesis using Suc.IH [of "tl a" "tl b"] by (cases a; cases b) auto
  qed
qed simp

lemma EncodeBytes_group:
  "EncodeBytes a = pad 8 (take 8 a) @ (247 + of_nat (length (take 8 a))) #
     (if 8 \<le> length a then EncodeBytes (drop 8 a) else [])"
proof (cases "8 \<le> length a")
  case True
  then show ?thesis by (simp add: EncodeBytes_full pad_def min_def)
next
  case False
  then show ?thesis by (simp add: EncodeBytes_last pad_def min_def of_nat_diff)
qed

lemma marker_unat:
  assumes "i \<le> 8"
  shows "unat (247 + of_nat i :: byte) = 247 + i"
proof -
  have "(247 + of_nat i :: byte) = of_nat (247 + i)" by simp
  then show ?thesis
    using assms by (simp only: unsigned_of_nat) (simp add: take_bit_nat_eq_self)
qed

lemma EncodeBytes_less: "EncodeBytes a < EncodeBytes b \<longleftrightarrow> a < b"
proof (induction "length a" arbitrary: a b rule: less_induct)
  case less
  let ?A = "take 8 a" and ?B = "take 8 b"
  let ?r = "\<lambda>a. if 8 \<le> length a then EncodeBytes (drop 8 a) else []"
  have m: "(247 + of_nat i :: byte) < 247 + of_nat j \<longleftrightarrow> i < j" "(247 + of_nat i :: byte) = 247 + of_nat j \<longleftrightarrow> i = j"
    if "i \<le> 8" "j \<le> 8" for i j
    using that by (simp_all add: word_less_nat_alt marker_unat word_unat_eq_iff)
  have head: "pad 8 ?A < pad 8 ?B \<or> (pad 8 ?A = pad 8 ?B \<and> length ?A < length ?B) \<longleftrightarrow> ?A < ?B"
    using pad_less [of ?A 8 ?B] pad_less [of ?B 8 ?A] pad_eq [of ?A 8 ?B] pad_eq [of ?B 8 ?A]
    by (metis length_take linorder_less_linear min.cobounded2 order_less_asym)
  have rest: "?r a < ?r b \<longleftrightarrow> drop 8 a < drop 8 b" if "?A = ?B"
  proof (cases "8 \<le> length a")
    case True
    with that have "8 \<le> length b" by (metis length_take min.absorb2 min.cobounded1)
    with True less [of "drop 8 a" "drop 8 b"] show ?thesis by simp
  next
    case False
    with that have "\<not> 8 \<le> length b" by (metis length_take min.absorb2 min.cobounded1)
    with False show ?thesis by simp
  qed
  have "EncodeBytes a < EncodeBytes b \<longleftrightarrow> pad 8 ?A < pad 8 ?B \<or> (pad 8 ?A = pad 8 ?B \<and>
      (length ?A < length ?B \<or> (length ?A = length ?B \<and> ?r a < ?r b)))"
    unfolding EncodeBytes_group [of a] EncodeBytes_group [of b]
    by (simp add: append_less_same_length length_pad m)
  also have "\<dots> \<longleftrightarrow> ?A < ?B \<or> (?A = ?B \<and> drop 8 a < drop 8 b)"
    using head rest pad_length_eq [of ?A 8 ?B] by auto
  finally show ?case by (simp add: take_drop_less [of a b 8])
qed

subsection \<open>Properties\<close>

text \<open>
  (C24) \<open>DecodeBytes\<close> inverts \<open>EncodeBytes\<close> and leaves what follows untouched, and it accepts
  nothing else: whatever it decodes is the encoding of its result.
\<close>
theorem DecodeBytes_EncodeBytes:
  "DecodeBytes (EncodeBytes data @ rest) = Inr (rest, data) \<and>
   (DecodeBytes b = Inr (rest', d) \<longleftrightarrow> b = EncodeBytes d @ rest')"
  using DecodeBytes_loop_EncodeBytes [of "[]"] DecodeBytes_loop_sound [of "[]" b rest' d]
  by (auto simp: DecodeBytes_def)

text \<open>
  (C23) Both encodings preserve order in both directions: encoded byte strings compare as the
  strings, encoded integers compare as the signed integers.
\<close>
theorem encodings_preserve_order:
  "(bytes_Compare (EncodeBytes a) (EncodeBytes b) < 0 \<longleftrightarrow> bytes_Compare a b < 0) \<and>
   (bytes_Compare (EncodeInt p v) (EncodeInt p w) < 0 \<longleftrightarrow> sint v < sint w)"
  by (simp add: bytes_simps EncodeBytes_less EncodeInt_less)

text \<open>
  (C25) Table and row keys: the table id is recovered from the encoded key of a table and of
  each of its rows, \<open>MetaOrTable\<close> classifies them as table keys, and \<open>DecodeInt\<close> inverts
  \<open>EncodeInt\<close>.
\<close>
theorem table_keys_round_trip:
  "Key_TableID (EncodeBytes (GenerateTableKey t)) = t \<and>
   Key_TableID (EncodeBytes (GenerateRowKey t r)) = t \<and>
   Key_MetaOrTable (EncodeBytes (GenerateRowKey t r)) = (False, t) \<and>
   DecodeInt (EncodeInt [] v @ rest) = Inr (rest, v)"
proof -
  have d: "DecodeBytes (EncodeBytes x) = Inr ([], x)" for x
    using DecodeBytes_loop_EncodeBytes [of "[]" x "[]"] by (simp add: DecodeBytes_def)
  have p: "bytes_HasPrefix (tablePrefix @ x) tablePrefix" for x by simp
  have m: "\<not> bytes_HasPrefix (tablePrefix @ x) metaPrefix" for x
    by (simp add: bytes_HasPrefix_def tablePrefix_def metaPrefix_def)
  show ?thesis
    using DecodeInt_EncodeInt [of t "[]"] DecodeInt_EncodeInt [of t] DecodeInt_EncodeInt [of v rest] p m
    by (simp add: Key_TableID_def Key_MetaOrTable_def d GenerateTableKey_def GenerateRowKey_def
        EncodeInt_def DecodeInt_value_def)
qed

end
