(* ===== verification/Etcd.thy ===== *)
theory Etcd
  imports Codec
begin

text \<open>
  What the server uses of etcd, and the small helpers around it: \<open>getValue\<close>, the 8-byte values of
  \<open>server/util.go\<close>, \<open>LeaderTxn\<close> of \<open>server/server.go\<close>, and the two transactions of
  \<open>server/leader.go\<close> that create and delete the leader key.

  etcd itself is a parameter, a record \<open>et\<close> of the client calls over an unknown state \<open>'e\<close>. The
  locale \<open>etcd_contract\<close> is its documented behaviour, stated with the map \<open>view\<close> of the stored
  keys: reads are linearizable, a transaction is atomic, its answer says which branch ran, and a
  transaction that ends in an error has either run at once or will never run. Which calls fail is
  up to \<open>et\<close> and its state.
\<close>

datatype etcd_error = EtcdError string

datatype etcd_cmp =
    CreateRevisionZero string
  | ValueEquals string bytes

datatype etcd_op =
    OpPut string bytes
  | OpDelete string

type_synonym etcd_view = "string \<Rightarrow> bytes option"

text \<open>\<open>et_Expire e k\<close> is what etcd does on its own when the lease of the key \<open>k\<close> ends.\<close>

record 'e etcd =
  et_Get :: "'e \<Rightarrow> string \<Rightarrow> 'e \<times> (etcd_error + bytes option)"
  et_Commit :: "'e \<Rightarrow> etcd_cmp list \<Rightarrow> etcd_op list \<Rightarrow> 'e \<times> (etcd_error + bool)"
  et_Expire :: "'e \<Rightarrow> string \<Rightarrow> 'e"

fun cmp_holds :: "etcd_view \<Rightarrow> etcd_cmp \<Rightarrow> bool" where
  "cmp_holds m (CreateRevisionZero k) = (m k = None)"
| "cmp_holds m (ValueEquals k v) = (m k = Some v)"

fun apply_op :: "etcd_op \<Rightarrow> etcd_view \<Rightarrow> etcd_view" where
  "apply_op (OpPut k v) m = m(k := Some v)"
| "apply_op (OpDelete k) m = m(k := None)"

definition txn_holds :: "etcd_view \<Rightarrow> etcd_cmp list \<Rightarrow> bool" where
  "txn_holds m cs \<longleftrightarrow> list_all (cmp_holds m) cs"

definition txn_apply :: "etcd_op list \<Rightarrow> etcd_view \<Rightarrow> etcd_view" where
  "txn_apply ops m = fold apply_op ops m"

datatype server_error =
    ErrEtcd etcd_error
  | ErrInvalidData nat
  | ErrSaveTimestamp
  | ErrGenerateID
  | ErrTsoCount
  | ErrTsoRetry
  | ErrCampaign
  | ErrResign

subsection \<open>The code\<close>

text \<open>The part of \<open>Server\<close> that names its keys.\<close>

record Server =
  srv_rootPath :: string
  srv_memberValue :: bytes

definition getLeaderPath :: "'z Server_scheme \<Rightarrow> string" where
  "getLeaderPath s = path_Join (srv_rootPath s) ''leader''"

definition getTimestampPath :: "'z Server_scheme \<Rightarrow> string" where
  "getTimestampPath s = path_Join (srv_rootPath s) ''timestamp''"

definition getAllocIDPath :: "'z Server_scheme \<Rightarrow> string" where
  "getAllocIDPath s = path_Join (srv_rootPath s) ''alloc_id''"

text \<open>A read of one key gives at most one value.\<close>

definition getValue :: "'e etcd \<Rightarrow> 'e \<Rightarrow> string \<Rightarrow> 'e \<times> (server_error + bytes option)" where
  "getValue et e key =
     (case et_Get et e key of
        (e, Inl err) \<Rightarrow> (e, Inl (ErrEtcd err))
      | (e, Inr v) \<Rightarrow> (e, Inr v))"

definition bytesToUint64 :: "bytes \<Rightarrow> server_error + u64" where
  "bytesToUint64 b = (if length b \<noteq> 8 then Inl (ErrInvalidData (length b)) else Inr (be_uint b))"

definition uint64ToBytes :: "u64 \<Rightarrow> bytes" where
  "uint64ToBytes v = be_bytes 8 v"

definition leaderCmp :: "'z Server_scheme \<Rightarrow> etcd_cmp" where
  "leaderCmp s = ValueEquals (getLeaderPath s) (srv_memberValue s)"

text \<open>\<open>LeaderTxn(cs...).Then(ops...).Commit()\<close>\<close>

definition LeaderTxn :: "'e etcd \<Rightarrow> 'z Server_scheme \<Rightarrow> 'e \<Rightarrow> etcd_cmp list \<Rightarrow> etcd_op list \<Rightarrow>
    'e \<times> (etcd_error + bool)" where
  "LeaderTxn et s e cs ops = et_Commit et e (cs @ [leaderCmp s]) ops"

text \<open>The transaction of \<open>campaignLeader\<close>: the leader key must not exist.\<close>

definition campaign_txn :: "'e etcd \<Rightarrow> 'z Server_scheme \<Rightarrow> 'e \<Rightarrow> 'e \<times> (server_error + unit)" where
  "campaign_txn et s e =
     (let leaderKey = getLeaderPath s
      in case et_Commit et e [CreateRevisionZero leaderKey] [OpPut leaderKey (srv_memberValue s)] of
           (e, Inl err) \<Rightarrow> (e, Inl (ErrEtcd err))
         | (e, Inr succeeded) \<Rightarrow> (e, if succeeded then Inr () else Inl ErrCampaign))"

definition deleteLeaderKey :: "'e etcd \<Rightarrow> 'z Server_scheme \<Rightarrow> 'e \<Rightarrow> 'e \<times> (server_error + unit)" where
  "deleteLeaderKey et s e =
     (let leaderKey = getLeaderPath s
      in case LeaderTxn et s e [] [OpDelete leaderKey] of
           (e, Inl err) \<Rightarrow> (e, Inl (ErrEtcd err))
         | (e, Inr succeeded) \<Rightarrow> (e, if succeeded then Inr () else Inl ErrResign))"

subsection \<open>Helpers\<close>

lemma server_paths_distinct [simp]:
  "path_Join r ''leader'' \<noteq> path_Join r ''timestamp''" "path_Join r ''timestamp'' \<noteq> path_Join r ''leader''"
  "path_Join r ''leader'' \<noteq> path_Join r ''alloc_id''" "path_Join r ''alloc_id'' \<noteq> path_Join r ''leader''"
  by (auto dest: path_Join_inj)

lemma bytesToUint64_uint64ToBytes [simp]: "bytesToUint64 (uint64ToBytes v) = Inr v"
  by (simp add: bytesToUint64_def uint64ToBytes_def be_uint_bytes take_bit_word_eq_self)

lemma be_uint_uint64ToBytes [simp]: "be_uint (uint64ToBytes v) = v"
  using bytesToUint64_uint64ToBytes [of v] by (simp add: bytesToUint64_def split: if_splits)

lemma uint64ToBytes_inj [simp]: "uint64ToBytes a = uint64ToBytes b \<longleftrightarrow> a = b"
  by (metis bytesToUint64_uint64ToBytes sum.inject(2))

lemma uint64ToBytes_nonempty [simp]: "uint64ToBytes a \<noteq> []"
  by (metis length_be_bytes list.size(3) numeral_eq_iff uint64ToBytes_def zero_neq_numeral)

text \<open>A transaction either runs, when its comparisons hold, or leaves the store alone.\<close>

locale etcd_contract =
  fixes et :: "'e etcd" and view :: "'e \<Rightarrow> etcd_view"
  assumes get_view: "et_Get et e k = (e', r) \<Longrightarrow> view e' = view e \<and> (\<forall>v. r = Inr v \<longrightarrow> v = view e k)"
    and commit_view: "et_Commit et e cs ops = (e', Inr b) \<Longrightarrow>
      b = txn_holds (view e) cs \<and> view e' = (if b then txn_apply ops (view e) else view e)"
    and commit_error_view: "et_Commit et e cs ops = (e', Inl err) \<Longrightarrow>
      view e' = view e \<or> txn_holds (view e) cs \<and> view e' = txn_apply ops (view e)"
    and expire_view: "view (et_Expire et e k) = (view e)(k := None)"
begin

lemma getValue_view:
  "getValue et e k = (e', r) \<Longrightarrow> view e' = view e \<and> (\<forall>v. r = Inr v \<longrightarrow> v = view e k)"
  using get_view [of e k] by (auto simp: getValue_def split: prod.splits sum.splits)

lemma LeaderTxn_ok:
  "LeaderTxn et s e cs ops = (e', Inr True) \<Longrightarrow>
     view e (getLeaderPath s) = Some (srv_memberValue s) \<and> list_all (cmp_holds (view e)) cs \<and>
     view e' = txn_apply ops (view e)"
  using commit_view [of e "cs @ [leaderCmp s]" ops] by (auto simp: LeaderTxn_def txn_holds_def leaderCmp_def)

lemma LeaderTxn_refused: "LeaderTxn et s e cs ops = (e', Inr False) \<Longrightarrow> view e' = view e"
  using commit_view [of e "cs @ [leaderCmp s]" ops] by (auto simp: LeaderTxn_def)

lemma LeaderTxn_error:
  "LeaderTxn et s e cs ops = (e', Inl err) \<Longrightarrow>
     view e' = view e \<or> view e (getLeaderPath s) = Some (srv_memberValue s) \<and>
       list_all (cmp_holds (view e)) cs \<and> view e' = txn_apply ops (view e)"
  using commit_error_view [of e "cs @ [leaderCmp s]" ops]
  by (auto simp: LeaderTxn_def txn_holds_def leaderCmp_def)

lemma campaign_ok:
  "campaign_txn et s e = (e', Inr ()) \<Longrightarrow> view e (getLeaderPath s) = None \<and>
     view e' = (view e)(getLeaderPath s := Some (srv_memberValue s))"
  using commit_view [of e "[CreateRevisionZero (getLeaderPath s)]" "[OpPut (getLeaderPath s) (srv_memberValue s)]"]
  by (auto simp: campaign_txn_def Let_def txn_holds_def txn_apply_def split: prod.splits sum.splits if_splits)

lemma campaign_other:
  "campaign_txn et s e = (e', r) \<Longrightarrow> k \<noteq> getLeaderPath s \<Longrightarrow> view e' k = view e k"
  using commit_view [of e "[CreateRevisionZero (getLeaderPath s)]" "[OpPut (getLeaderPath s) (srv_memberValue s)]"]
    commit_error_view [of e "[CreateRevisionZero (getLeaderPath s)]" "[OpPut (getLeaderPath s) (srv_memberValue s)]"]
  by (fastforce simp: campaign_txn_def Let_def txn_apply_def split: prod.splits sum.splits if_splits)

lemma campaign_leader:
  "campaign_txn et s e = (e', r) \<Longrightarrow> view e' (getLeaderPath s) = view e (getLeaderPath s) \<or>
     view e' (getLeaderPath s) = Some (srv_memberValue s)"
  using commit_view [of e "[CreateRevisionZero (getLeaderPath s)]" "[OpPut (getLeaderPath s) (srv_memberValue s)]"]
    commit_error_view [of e "[CreateRevisionZero (getLeaderPath s)]" "[OpPut (getLeaderPath s) (srv_memberValue s)]"]
  by (fastforce simp: campaign_txn_def Let_def txn_apply_def split: prod.splits sum.splits if_splits)

lemma deleteLeaderKey_view:
  "deleteLeaderKey et s e = (e', r) \<Longrightarrow>
     view e' = view e \<or> view e (getLeaderPath s) = Some (srv_memberValue s) \<and>
       view e' = (view e)(getLeaderPath s := None)"
  using LeaderTxn_ok [of s e "[]" "[OpDelete (getLeaderPath s)]" e']
    LeaderTxn_refused [of s e "[]" "[OpDelete (getLeaderPath s)]" e']
    LeaderTxn_error [of s e "[]" "[OpDelete (getLeaderPath s)]" e']
  by (auto simp: deleteLeaderKey_def Let_def txn_apply_def split: prod.splits sum.splits if_splits)

end

subsection \<open>An etcd that satisfies the contract\<close>

text \<open>
  A store with a script of outcomes: each call takes the next entry, and an empty script means
  success. A transaction can fail before it runs or after.
\<close>

datatype etcd_outcome = CallOk | CallFails | FailsAfterCommit

type_synonym script_etcd = "(string \<times> bytes) list \<times> etcd_outcome list"

definition next_outcome :: "etcd_outcome list \<Rightarrow> etcd_outcome" where
  "next_outcome os = (case os of [] \<Rightarrow> CallOk | x # _ \<Rightarrow> x)"

fun alist_op :: "etcd_op \<Rightarrow> (string \<times> bytes) list \<Rightarrow> (string \<times> bytes) list" where
  "alist_op (OpPut k v) kvs = (k, v) # filter (\<lambda>p. fst p \<noteq> k) kvs"
| "alist_op (OpDelete k) kvs = filter (\<lambda>p. fst p \<noteq> k) kvs"

definition script_Get :: "script_etcd \<Rightarrow> string \<Rightarrow> script_etcd \<times> (etcd_error + bytes option)" where
  "script_Get e k =
     ((fst e, tl (snd e)),
      if next_outcome (snd e) = CallOk then Inr (map_of (fst e) k) else Inl (EtcdError ''unavailable''))"

definition script_Commit ::
    "script_etcd \<Rightarrow> etcd_cmp list \<Rightarrow> etcd_op list \<Rightarrow> script_etcd \<times> (etcd_error + bool)" where
  "script_Commit e cs ops =
     (let ok = txn_holds (map_of (fst e)) cs; kvs = (if ok then fold alist_op ops (fst e) else fst e)
      in case next_outcome (snd e) of
           CallOk \<Rightarrow> ((kvs, tl (snd e)), Inr ok)
         | CallFails \<Rightarrow> ((fst e, tl (snd e)), Inl (EtcdError ''unavailable''))
         | FailsAfterCommit \<Rightarrow> ((kvs, tl (snd e)), Inl (EtcdError ''timeout'')))"

definition script_etcd :: "script_etcd etcd" where
  "script_etcd = \<lparr>et_Get = script_Get, et_Commit = script_Commit,
     et_Expire = (\<lambda>e k. (alist_op (OpDelete k) (fst e), snd e))\<rparr>"

lemma map_of_filter_neq: "map_of (filter (\<lambda>p. fst p \<noteq> k) kvs) = (map_of kvs)(k := None)"
  by (induction kvs) (auto simp: fun_eq_iff)

lemma map_of_alist_op: "map_of (alist_op op kvs) = apply_op op (map_of kvs)"
  by (cases op) (auto simp: map_of_filter_neq fun_eq_iff)

lemma map_of_alist_ops: "map_of (fold alist_op ops kvs) = txn_apply ops (map_of kvs)"
  by (induction ops arbitrary: kvs) (auto simp: txn_apply_def map_of_alist_op)

interpretation script: etcd_contract script_etcd "\<lambda>e. map_of (fst e)"
proof (unfold_locales, goal_cases)
  case (1 e k e' r)
  then show ?case by (auto simp: script_etcd_def script_Get_def split: if_splits)
next
  case (2 e cs ops e' b)
  then show ?case
    by (auto simp: script_etcd_def script_Commit_def Let_def map_of_alist_ops split: etcd_outcome.splits)
next
  case (3 e cs ops e' err)
  then show ?case
    by (auto simp: script_etcd_def script_Commit_def Let_def map_of_alist_ops split: etcd_outcome.splits if_splits)
next
  case (4 e k)
  show ?case by (simp add: script_etcd_def map_of_filter_neq)
qed

end
