(* ===== verification/Tso.thy ===== *)
theory Tso
  imports Etcd
begin

text \<open>
  \<open>server/tso.go\<close>: the timestamp oracle. A leader hands out timestamps below a bound it has saved
  in etcd, and a new leader starts above the saved bound. The atomic objects that \<open>s.ts\<close> points to
  live on a heap, because a request may still add to an object that \<open>updateTimestamp\<close> has already
  replaced.
\<close>

subsection \<open>The code\<close>

definition updateTimestampStep :: duration where
  "updateTimestampStep = 50 * Millisecond"

definition updateTimestampGuard :: duration where
  "updateTimestampGuard = Millisecond"

definition maxLogical :: i64 where
  "maxLogical = push_bit 18 1"

definition maxRetryCount :: nat where
  "maxRetryCount = 100"

record atomicObject =
  ao_physical :: time
  ao_logical :: i64

type_synonym ts_heap = "atomicObject list"

text \<open>\<open>ts\<close> is an \<open>atomic.Value\<close>: empty at first, then a pointer.\<close>

record tso_server = Server +
  srv_ts :: "nat option"
  srv_lastSavedTime :: time
  srv_TsoSaveInterval :: duration

record Timestamp =
  Physical :: int
  Logical :: i64

text \<open>\<open>t.UnixNano()\<close> is an \<open>int64\<close>; it wraps outside the years 1678 to 2262.\<close>

definition UnixNano :: "time \<Rightarrow> int" where
  "UnixNano t = wrap64 t"

definition subTimeByWallClock :: "time \<Rightarrow> time \<Rightarrow> duration" where
  "subTimeByWallClock after before = wrap64 (UnixNano after - UnixNano before)"

definition parseTimestamp :: "bytes \<Rightarrow> server_error + time" where
  "parseTimestamp data =
     (case bytesToUint64 data of Inl err \<Rightarrow> Inl err | Inr nano \<Rightarrow> Inr (sint nano))"

definition loadTimestamp :: "'e etcd \<Rightarrow> tso_server \<Rightarrow> 'e \<Rightarrow> 'e \<times> (server_error + time)" where
  "loadTimestamp et s e =
     (case getValue et e (getTimestampPath s) of
        (e, Inl err) \<Rightarrow> (e, Inl err)
      | (e, Inr None) \<Rightarrow> (e, Inr zero_time)
      | (e, Inr (Some data)) \<Rightarrow> (e, if data = [] then Inr zero_time else parseTimestamp data))"

definition saveTimestamp :: "'e etcd \<Rightarrow> tso_server \<Rightarrow> 'e \<Rightarrow> time \<Rightarrow> 'e \<times> (server_error + tso_server)" where
  "saveTimestamp et s e ts =
     (let data = uint64ToBytes (word_of_int (UnixNano ts)); key = getTimestampPath s
      in case LeaderTxn et s e [] [OpPut key data] of
           (e, Inl err) \<Rightarrow> (e, Inl (ErrEtcd err))
         | (e, Inr succeeded) \<Rightarrow>
             (e, if succeeded then Inr (s\<lparr>srv_lastSavedTime := ts\<rparr>) else Inl ErrSaveTimestamp))"

text \<open>\<open>s.ts.Store(&atomicObject{...})\<close> allocates the object.\<close>

definition store_ts :: "tso_server \<Rightarrow> ts_heap \<Rightarrow> atomicObject \<Rightarrow> tso_server \<times> ts_heap" where
  "store_ts s h obj = (s\<lparr>srv_ts := Some (length h)\<rparr>, h @ [obj])"

text \<open>\<open>syncTimestamp\<close> after its load; \<open>now\<close> is the clock reading.\<close>

definition sync_after_load :: "'e etcd \<Rightarrow> tso_server \<Rightarrow> 'e \<Rightarrow> ts_heap \<Rightarrow> time \<Rightarrow> time \<Rightarrow>
    'e \<times> (server_error + tso_server \<times> ts_heap)" where
  "sync_after_load et s e h last' now =
     (let next' = (if subTimeByWallClock now last' < updateTimestampGuard
                   then last' + updateTimestampGuard else now);
          save = next' + srv_TsoSaveInterval s
      in case saveTimestamp et s e save of
           (e, Inl err) \<Rightarrow> (e, Inl err)
         | (e, Inr s) \<Rightarrow> (e, Inr (store_ts s h \<lparr>ao_physical = next', ao_logical = 0\<rparr>)))"

definition syncTimestamp :: "'e etcd \<Rightarrow> tso_server \<Rightarrow> 'e \<Rightarrow> ts_heap \<Rightarrow> time \<Rightarrow>
    'e \<times> (server_error + tso_server \<times> ts_heap)" where
  "syncTimestamp et s e h now =
     (case loadTimestamp et s e of
        (e, Inl err) \<Rightarrow> (e, Inl err)
      | (e, Inr last') \<Rightarrow> sync_after_load et s e h last' now)"

text \<open>The next physical time that \<open>updateTimestamp\<close> chooses, if any.\<close>

definition update_next :: "atomicObject \<Rightarrow> time \<Rightarrow> time option" where
  "update_next prev now =
     (if subTimeByWallClock now (ao_physical prev) > updateTimestampGuard then Some now
      else if sint (ao_logical prev) > sint maxLogical div 2 then Some (ao_physical prev + Millisecond)
      else None)"

text \<open>\<open>None\<close>: the type assertion on an empty \<open>s.ts\<close> panics.\<close>

definition updateTimestamp :: "'e etcd \<Rightarrow> tso_server \<Rightarrow> 'e \<Rightarrow> ts_heap \<Rightarrow> time \<Rightarrow>
    ('e \<times> (server_error + tso_server \<times> ts_heap)) option" where
  "updateTimestamp et s e h now =
     (case srv_ts s of
        None \<Rightarrow> None
      | Some i \<Rightarrow> Some
          (case update_next (h ! i) now of
             None \<Rightarrow> (e, Inr (s, h))
           | Some next' \<Rightarrow>
               (case if subTimeByWallClock (srv_lastSavedTime s) next' \<le> updateTimestampGuard
                     then saveTimestamp et s e (next' + srv_TsoSaveInterval s) else (e, Inr s) of
                  (e, Inl err) \<Rightarrow> (e, Inl err)
                | (e, Inr s) \<Rightarrow> (e, Inr (store_ts s h \<lparr>ao_physical = next', ao_logical = 0\<rparr>)))))"

text \<open>
  One round of the loop of \<open>getRespTS\<close>, on the object it has loaded: \<open>atomic.AddInt64\<close>, then the
  test against \<open>maxLogical\<close>.
\<close>

definition addTS :: "ts_heap \<Rightarrow> nat \<Rightarrow> u32 \<Rightarrow> ts_heap \<times> Timestamp option" where
  "addTS h i count =
     (let logical = ao_logical (h ! i) + ucast count;
          resp = \<lparr>Physical = UnixNano (ao_physical (h ! i)) sdiv Millisecond, Logical = logical\<rparr>
      in (h[i := (h ! i)\<lparr>ao_logical := logical\<rparr>], if maxLogical \<le>s logical then None else Some resp))"

definition getRespTS_round :: "tso_server \<Rightarrow> ts_heap \<Rightarrow> u32 \<Rightarrow> ts_heap \<times> Timestamp option" where
  "getRespTS_round s h count =
     (case srv_ts s of
        None \<Rightarrow> (h, None)
      | Some i \<Rightarrow> if ao_physical (h ! i) = zero_time then (h, None) else addTS h i count)"

text \<open>
  The loop. While a request sleeps the rest of the server runs: \<open>env n\<close> is what it does to the
  state before \<open>n\<close> more rounds are tried.
\<close>

fun getRespTS_loop :: "(nat \<Rightarrow> tso_server \<times> ts_heap \<Rightarrow> tso_server \<times> ts_heap) \<Rightarrow> u32 \<Rightarrow> nat \<Rightarrow>
    tso_server \<times> ts_heap \<Rightarrow> (tso_server \<times> ts_heap) \<times> (server_error + Timestamp)" where
  "getRespTS_loop env count 0 (s, h) = ((s, h), Inl ErrTsoRetry)"
| "getRespTS_loop env count (Suc n) (s, h) =
     (case getRespTS_round s h count of
        (h, Some resp) \<Rightarrow> ((s, h), Inr resp)
      | (h, None) \<Rightarrow> getRespTS_loop env count n (env n (s, h)))"

definition getRespTS :: "(nat \<Rightarrow> tso_server \<times> ts_heap \<Rightarrow> tso_server \<times> ts_heap) \<Rightarrow> u32 \<Rightarrow>
    tso_server \<times> ts_heap \<Rightarrow> (tso_server \<times> ts_heap) \<times> (server_error + Timestamp)" where
  "getRespTS env count st =
     (if count = 0 then (st, Inl ErrTsoCount) else getRespTS_loop env count maxRetryCount st)"

end
