(* ===== verification/TsoWindows.thy ===== *)
theory TsoWindows
  imports Prelude
begin

text \<open>
  The abstract specification of the timestamp oracle. Every server that believes it leads has a
  window: the physical time it currently uses and the bound it has saved. The saved bound of the
  cluster only grows, and only the owner of the leader key can move it. Physical times that were
  ever used stay on a list; the specification's invariant keeps them a millisecond apart.

  A physical time that is not in use is \<open>zero_time\<close>.
\<close>

record windows =
  w_used :: "time list"
  w_win :: "bytes \<Rightarrow> (time \<times> time) option"
  w_saved :: time
  w_owner :: "bytes option"

definition apart :: "time \<Rightarrow> time \<Rightarrow> bool" where
  "apart x y \<longleftrightarrow> x = zero_time \<or> y = zero_time \<or> x + Millisecond \<le> y \<or> y + Millisecond \<le> x"

text \<open>
  \<open>sync\<close>: a new leader opens a window above the saved bound. \<open>advance\<close>: a leader, perhaps a stale
  one, moves inside its window. \<open>extend\<close>: the owner moves and saves a new bound. \<open>bump\<close>: a save took
  effect but was reported as an error, and the server gives up. \<open>drop\<close>: a server stops leading.
  \<open>own\<close>: the leader key is created by a server without a window, or disappears.
\<close>

inductive win_step :: "windows \<Rightarrow> windows \<Rightarrow> bool" where
  sync: "w_owner w = Some p \<Longrightarrow> w_saved w + Millisecond \<le> next' \<Longrightarrow> next' + Millisecond \<le> save \<Longrightarrow>
    0 \<le> next' \<Longrightarrow>
    win_step w (w\<lparr>w_used := w_used w @ [next'], w_win := (w_win w)(p := Some (next', save)), w_saved := save\<rparr>)"
| advance: "w_win w p = Some (cur, hi) \<Longrightarrow> cur + Millisecond \<le> next' \<Longrightarrow> next' + Millisecond \<le> hi \<Longrightarrow>
    win_step w (w\<lparr>w_used := w_used w @ [next'], w_win := (w_win w)(p := Some (next', hi))\<rparr>)"
| extend: "w_owner w = Some p \<Longrightarrow> w_win w p = Some (cur, hi) \<Longrightarrow> cur + Millisecond \<le> next' \<Longrightarrow>
    next' + Millisecond \<le> save \<Longrightarrow> w_saved w \<le> save \<Longrightarrow>
    win_step w (w\<lparr>w_used := w_used w @ [next'], w_win := (w_win w)(p := Some (next', save)), w_saved := save\<rparr>)"
| bump: "w_owner w = Some p \<Longrightarrow> w_saved w \<le> save \<Longrightarrow>
    win_step w (w\<lparr>w_win := (w_win w)(p := None), w_saved := save\<rparr>)"
| drop: "win_step w (w\<lparr>w_win := (w_win w)(p := None)\<rparr>)"
| own: "w_win w p = None \<Longrightarrow> win_step w (w\<lparr>w_owner := Some p\<rparr>)"
| release: "win_step w (w\<lparr>w_owner := None\<rparr>)"
| unused: "win_step w (w\<lparr>w_used := w_used w @ [zero_time]\<rparr>)"

definition used_inv :: "windows \<Rightarrow> bool" where
  "used_inv w \<longleftrightarrow> sorted_wrt apart (w_used w) \<and>
     (\<forall>x \<in> set (w_used w). x = zero_time \<or> 0 \<le> x \<and> x + Millisecond \<le> w_saved w)"

text \<open>Nobody else has used a time inside a window.\<close>

definition window_inv :: "windows \<Rightarrow> bool" where
  "window_inv w \<longleftrightarrow> (\<forall>p c h. w_win w p = Some (c, h) \<longrightarrow>
     0 \<le> c \<and> c + Millisecond \<le> h \<and> h \<le> w_saved w \<and>
     (\<forall>x \<in> set (w_used w). x = zero_time \<or> x = c \<or> x + Millisecond \<le> c \<or> h \<le> x))"

definition disjoint_inv :: "windows \<Rightarrow> bool" where
  "disjoint_inv w \<longleftrightarrow> (\<forall>p q c h c' h'. p \<noteq> q \<longrightarrow> w_win w p = Some (c, h) \<longrightarrow> w_win w q = Some (c', h') \<longrightarrow>
     h \<le> c' \<or> h' \<le> c)"

text \<open>The window of the owner of the leader key is the topmost one.\<close>

definition owner_inv :: "windows \<Rightarrow> bool" where
  "owner_inv w \<longleftrightarrow> (\<forall>p c h. w_owner w = Some p \<longrightarrow> w_win w p = Some (c, h) \<longrightarrow>
     h = w_saved w \<and> (\<forall>q c' h'. q \<noteq> p \<longrightarrow> w_win w q = Some (c', h') \<longrightarrow> h' \<le> c))"

definition win_inv :: "windows \<Rightarrow> bool" where
  "win_inv w \<longleftrightarrow> used_inv w \<and> window_inv w \<and> disjoint_inv w \<and> owner_inv w"

lemmas win_invs = win_inv_def used_inv_def window_inv_def disjoint_inv_def owner_inv_def

lemma Millisecond_pos [simp]: "0 < Millisecond"
  by (simp add: Millisecond_def)

lemma zero_time_neg: "zero_time < 0"
  by (simp add: zero_time_def)

lemma usedD: "win_inv w \<Longrightarrow> x \<in> set (w_used w) \<Longrightarrow> x = zero_time \<or> 0 \<le> x \<and> x + Millisecond \<le> w_saved w"
  by (simp add: win_inv_def used_inv_def)

lemma windowD: "win_inv w \<Longrightarrow> w_win w p = Some (c, h) \<Longrightarrow> 0 \<le> c \<and> c + Millisecond \<le> h \<and> h \<le> w_saved w"
  unfolding win_inv_def window_inv_def by blast

lemma window_usedD: "win_inv w \<Longrightarrow> w_win w p = Some (c, h) \<Longrightarrow> x \<in> set (w_used w) \<Longrightarrow>
    x = zero_time \<or> x = c \<or> x + Millisecond \<le> c \<or> h \<le> x"
  unfolding win_inv_def window_inv_def by blast

lemma disjointD: "win_inv w \<Longrightarrow> p \<noteq> q \<Longrightarrow> w_win w p = Some (c, h) \<Longrightarrow> w_win w q = Some (c', h') \<Longrightarrow>
    h \<le> c' \<or> h' \<le> c"
  unfolding win_inv_def disjoint_inv_def by blast

lemma ownerD: "win_inv w \<Longrightarrow> w_owner w = Some p \<Longrightarrow> w_win w p = Some (c, h) \<Longrightarrow> h = w_saved w"
  unfolding win_inv_def owner_inv_def by blast

lemma owner_otherD: "win_inv w \<Longrightarrow> w_owner w = Some p \<Longrightarrow> w_win w p = Some (c, h) \<Longrightarrow> q \<noteq> p \<Longrightarrow>
    w_win w q = Some (c', h') \<Longrightarrow> h' \<le> c"
  unfolding win_inv_def owner_inv_def by blast

text \<open>The topmost server may take any later time: every other time in use is below.\<close>

lemma owner_above:
  assumes "win_inv w" "w_owner w = Some p" "w_win w p = Some (c, h)" "x \<in> set (w_used w)"
  shows "x = zero_time \<or> x = c \<or> x + Millisecond \<le> c"
  using usedD [OF assms(1,4)] window_usedD [OF assms(1,3,4)] ownerD [OF assms(1-3)] Millisecond_pos
  by linarith

text \<open>
  The three steps that put a new time \<open>n\<close> into use have the same shape: the server \<open>p\<close> gets the
  window from \<open>n\<close> to \<open>s\<close>, every earlier time is below \<open>n\<close> or not below \<open>s\<close>, and every other
  window lies wholly below \<open>n\<close> or above \<open>s\<close>.
\<close>

lemma new_time_inv:
  assumes inv: "win_inv w" and n: "0 \<le> n" "n + Millisecond \<le> s" "s \<le> S" "w_saved w \<le> S"
    and used: "\<And>x. x \<in> set (w_used w) \<Longrightarrow> x = zero_time \<or> x + Millisecond \<le> n \<or> s \<le> x"
    and others: "\<And>q c h. q \<noteq> p \<Longrightarrow> w_win w q = Some (c, h) \<Longrightarrow> h \<le> n \<or> s \<le> c"
    and owner: "\<And>q c h. q \<noteq> p \<Longrightarrow> w_win w q = Some (c, h) \<Longrightarrow> w_owner w = Some p \<Longrightarrow> h \<le> n"
    and top: "w_owner w = Some p \<Longrightarrow> s = S"
    and other_owner: "w_owner w = Some p \<or> S = w_saved w \<and> (\<exists>c. w_win w p = Some (c, s))"
  shows "win_inv (w\<lparr>w_used := w_used w @ [n], w_win := (w_win w)(p := Some (n, s)), w_saved := S\<rparr>)"
    (is "win_inv ?w")
proof -
  note ms = Millisecond_pos
  have "x = zero_time \<or> 0 \<le> x \<and> x + Millisecond \<le> S" if "x \<in> set (w_used ?w)" for x
    using usedD [OF inv, of x] that n by auto
  moreover have "sorted_wrt apart (w_used ?w)"
    using inv used n ms by (force simp: win_inv_def used_inv_def sorted_wrt_append apart_def)
  ultimately have "used_inv ?w" by (simp add: used_inv_def)
  moreover have "window_inv ?w"
    unfolding window_inv_def
  proof (intro allI impI)
    fix q c h assume q: "w_win ?w q = Some (c, h)"
    show "0 \<le> c \<and> c + Millisecond \<le> h \<and> h \<le> w_saved ?w \<and>
      (\<forall>x\<in>set (w_used ?w). x = zero_time \<or> x = c \<or> x + Millisecond \<le> c \<or> h \<le> x)"
    proof (cases "q = p")
      case True
      then show ?thesis using q n used by auto
    next
      case False
      then have q: "w_win w q = Some (c, h)" using q by simp
      have "n + Millisecond \<le> c \<or> h \<le> n" using others [OF False q] n(2) by linarith
      then show ?thesis
        using windowD [OF inv q] window_usedD [OF inv q] n(4) by auto
    qed
  qed
  moreover have "disjoint_inv ?w"
    unfolding disjoint_inv_def
  proof (intro allI impI)
    fix a b c h c' h' assume ab: "a \<noteq> b" "w_win ?w a = Some (c, h)" "w_win ?w b = Some (c', h')"
    show "h \<le> c' \<or> h' \<le> c"
      using ab others [of a c h] others [of b c' h'] disjointD [OF inv ab(1), of c h c' h']
      by (simp split: if_splits) blast+
  qed
  moreover have "owner_inv ?w"
    unfolding owner_inv_def
  proof (intro allI impI)
    fix q c h assume o': "w_owner ?w = Some q" and q: "w_win ?w q = Some (c, h)"
    show "h = w_saved ?w \<and> (\<forall>q' c' h'. q' \<noteq> q \<longrightarrow> w_win ?w q' = Some (c', h') \<longrightarrow> h' \<le> c)"
    proof (cases "q = p")
      case True
      then show ?thesis using o' q top owner by auto
    next
      case False
      then obtain c0 where p: "S = w_saved w" "w_win w p = Some (c0, s)" using other_owner o' by auto
      have q': "w_win w q = Some (c, h)" using q False by simp
      have "s \<le> c" using owner_otherD [OF inv _ q' _ p(2)] o' False by simp
      then show ?thesis
        using p(1) ownerD [OF inv _ q'] owner_otherD [OF inv _ q'] o' False by auto
    qed
  qed
  ultimately show ?thesis by (simp add: win_inv_def)
qed

lemma sync_inv:
  assumes inv: "win_inv w" and own: "w_owner w = Some p" and n: "w_saved w + Millisecond \<le> n"
    "n + Millisecond \<le> s" "0 \<le> n"
  shows "win_inv (w\<lparr>w_used := w_used w @ [n], w_win := (w_win w)(p := Some (n, s)), w_saved := s\<rparr>)"
proof (rule new_time_inv [OF inv n(3,2)])
  show "x = zero_time \<or> x + Millisecond \<le> n \<or> s \<le> x" if "x \<in> set (w_used w)" for x
    using usedD [OF inv that] n Millisecond_pos by linarith
  show "h \<le> n" "h \<le> n \<or> s \<le> c" if "w_win w q = Some (c, h)" for q c h
    using windowD [OF inv that] n Millisecond_pos by linarith+
  show "w_saved w \<le> s" using n Millisecond_pos by linarith
qed (use own in auto)

lemma advance_inv:
  assumes inv: "win_inv w" and win: "w_win w p = Some (c, h)" and n: "c + Millisecond \<le> n" "n + Millisecond \<le> h"
  shows "win_inv (w\<lparr>w_used := w_used w @ [n], w_win := (w_win w)(p := Some (n, h))\<rparr>)"
proof -
  note w = windowD [OF inv win]
  have "win_inv (w\<lparr>w_used := w_used w @ [n], w_win := (w_win w)(p := Some (n, h)), w_saved := w_saved w\<rparr>)"
  proof (rule new_time_inv [OF inv _ n(2)])
    show "0 \<le> n" using w n(1) Millisecond_pos by linarith
    show "x = zero_time \<or> x + Millisecond \<le> n \<or> h \<le> x" if "x \<in> set (w_used w)" for x
      using window_usedD [OF inv win that] n Millisecond_pos by linarith
    show "h' \<le> n \<or> h \<le> c'" if "q \<noteq> p" "w_win w q = Some (c', h')" for q c' h'
      using disjointD [OF inv _ that(2) win] that(1) n(1) Millisecond_pos by (metis add_le_cancel_left le_add_same_cancel1 order.trans less_imp_le)
    show "h' \<le> n" if "q \<noteq> p" "w_win w q = Some (c', h')" "w_owner w = Some p" for q c' h'
      using owner_otherD [OF inv that(3) win that(1,2)] n(1) Millisecond_pos by linarith
  qed (use w win ownerD [OF inv _ win] in auto)
  then show ?thesis by simp
qed

lemma extend_inv:
  assumes inv: "win_inv w" and own: "w_owner w = Some p" and win: "w_win w p = Some (c, h)"
    and n: "c + Millisecond \<le> n" "n + Millisecond \<le> s" "w_saved w \<le> s"
  shows "win_inv (w\<lparr>w_used := w_used w @ [n], w_win := (w_win w)(p := Some (n, s)), w_saved := s\<rparr>)"
proof (rule new_time_inv [OF inv _ n(2)])
  show "0 \<le> n" using windowD [OF inv win] n(1) Millisecond_pos by linarith
  show "x = zero_time \<or> x + Millisecond \<le> n \<or> s \<le> x" if "x \<in> set (w_used w)" for x
    using owner_above [OF inv own win that] n(1) Millisecond_pos by linarith
  show "h' \<le> n" "h' \<le> n \<or> s \<le> c'" if "q \<noteq> p" "w_win w q = Some (c', h')" for q c' h'
    using owner_otherD [OF inv own win that] n(1) Millisecond_pos by linarith+
qed (use own n(3) in auto)

lemma bump_inv:
  assumes inv: "win_inv w" and own: "w_owner w = Some p" and s: "w_saved w \<le> s"
  shows "win_inv (w\<lparr>w_win := (w_win w)(p := None), w_saved := s\<rparr>)" (is "win_inv ?w")
proof -
  have "used_inv ?w" using inv s by (force simp: win_inv_def used_inv_def)
  moreover have "window_inv ?w"
    using windowD [OF inv] window_usedD [OF inv] s unfolding window_inv_def by (fastforce split: if_splits)
  moreover have "disjoint_inv ?w" "owner_inv ?w"
    using inv own by (auto simp: win_inv_def disjoint_inv_def owner_inv_def)
  ultimately show ?thesis by (simp add: win_inv_def)
qed

text \<open>Every step keeps the invariant.\<close>

lemma win_step_inv: "win_step w w' \<Longrightarrow> win_inv w \<Longrightarrow> win_inv w'"
proof (induction rule: win_step.induct)
  case (drop w p)
  then show ?case by (auto simp: win_invs)
next
  case (own w p)
  then show ?case by (auto simp: win_invs)
next
  case (release w)
  then show ?case by (auto simp: win_invs)
next
  case (unused w)
  then show ?case by (auto simp: win_invs sorted_wrt_append apart_def)
qed (blast intro: sync_inv advance_inv extend_inv bump_inv)+

text \<open>The saved bound never decreases.\<close>

lemma win_step_saved: "win_step w w' \<Longrightarrow> w_saved w \<le> w_saved w'"
proof (induction rule: win_step.induct)
  case (sync w p next' save)
  then have "w_saved w \<le> save" using Millisecond_pos by linarith
  then show ?case by simp
qed simp_all

text \<open>The time of a server that stays in or returns to the lead only increases.\<close>

lemma win_steps_mono:
  assumes "win_step\<^sup>*\<^sup>* w w'" "win_inv w" "w_win w p = Some (c, h)"
  shows "win_inv w' \<and> w_saved w \<le> w_saved w' \<and> c + Millisecond \<le> w_saved w' \<and>
    (\<forall>c' h'. w_win w' p = Some (c', h') \<longrightarrow> c' = c \<or> c + Millisecond \<le> c')"
  using assms(1)
proof (induction rule: rtranclp_induct)
  case base
  then show ?case using assms(2,3) windowD [OF assms(2,3)] by auto
next
  case (step w' w'')
  have "c'' = c \<or> c + Millisecond \<le> c''" if "w_win w'' p = Some (c'', h'')" for c'' h''
    using step.hyps(2) step.IH that
  proof (cases rule: win_step.cases)
    case (sync q next' save)
    then have "p = q \<and> c'' = next' \<or> w_win w' p = Some (c'', h'')" using that by (auto split: if_splits)
    moreover have "c + Millisecond \<le> next'" using step.IH sync(3) Millisecond_pos by linarith
    ultimately show ?thesis using step.IH by auto
  next
    case (advance q cur hi next')
    then have "p = q \<and> c'' = next' \<or> w_win w' p = Some (c'', h'')" using that by (auto split: if_splits)
    moreover have "p = q \<longrightarrow> c + Millisecond \<le> next'" using step.IH advance(2,3) Millisecond_pos by (metis add_le_cancel_left add_mono dual_order.trans le_add_same_cancel1 less_imp_le)
    ultimately show ?thesis using step.IH by auto
  next
    case (extend q cur hi next' save)
    then have "p = q \<and> c'' = next' \<or> w_win w' p = Some (c'', h'')" using that by (auto split: if_splits)
    moreover have "p = q \<longrightarrow> c + Millisecond \<le> next'" using step.IH extend(3,4) Millisecond_pos by (metis add_le_cancel_left add_mono dual_order.trans le_add_same_cancel1 less_imp_le)
    ultimately show ?thesis using step.IH by auto
  qed (auto split: if_splits)
  moreover have "w_saved w' \<le> w_saved w''" "win_inv w''"
    using win_step_saved [OF step.hyps(2)] win_step_inv [OF step.hyps(2)] step.IH by auto
  ultimately show ?case using step.IH by auto
qed

lemma win_steps_saved: "win_step\<^sup>*\<^sup>* w w' \<Longrightarrow> w_saved w \<le> w_saved w'"
  by (induction rule: rtranclp_induct) (auto dest: win_step_saved)

end
