(* ===== verification/TsoCluster.thy ===== *)
theory TsoCluster
  imports Tso TsoWindows
begin

text \<open>
  The timestamp oracle of a whole cluster: any number of servers, each running the leader loop of
  \<open>server/leader.go\<close> (campaign, load, sync, update, resign), interleaved with each other, with
  requests, with leases that end and with processes that restart. It refines the windows of
  \<open>TsoWindows\<close>. The theorem: no timestamp is given out twice, even by a server that is no longer
  the leader and does not know it yet.
\<close>

subsection \<open>The cluster\<close>

text \<open>Where a server is in \<open>leaderLoop\<close> and \<open>campaignLeader\<close>.\<close>

datatype phase = Following | Campaigned | Loaded time | Leading

record 'e tso_sys =
  sys_etcd :: 'e
  sys_heap :: ts_heap
  sys_srv :: "bytes \<Rightarrow> tso_server"
  sys_phase :: "bytes \<Rightarrow> phase"
  sys_log :: "(Timestamp \<times> u32) list"

text \<open>
  Servers are named by their member value. \<open>Request i count\<close> is one round of a request that holds
  the object \<open>i\<close>, which need not be current any more. \<open>Abandon\<close> is an error between the campaign and
  the sync, \<open>Resign\<close> the regular end of \<open>campaignLeader\<close>, \<open>Expire\<close> the end of the leader's lease.
\<close>

datatype tso_event =
    Campaign bytes
  | DeleteKey bytes
  | Load bytes
  | Sync bytes time
  | Update bytes time
  | Resign bytes
  | Abandon bytes
  | Request nat u32
  | Expire
  | Restart bytes

definition new_server :: "string \<Rightarrow> duration \<Rightarrow> bytes \<Rightarrow> tso_server" where
  "new_server root iv p = \<lparr>srv_rootPath = root, srv_memberValue = p, srv_ts = None,
     srv_lastSavedTime = zero_time, srv_TsoSaveInterval = iv\<rparr>"

definition tso_init :: "string \<Rightarrow> duration \<Rightarrow> 'e \<Rightarrow> 'e tso_sys" where
  "tso_init root iv e = \<lparr>sys_etcd = e, sys_heap = [], sys_srv = new_server root iv,
     sys_phase = (\<lambda>_. Following), sys_log = []\<rparr>"

definition set_phase :: "bytes \<Rightarrow> phase \<Rightarrow> 'e tso_sys \<Rightarrow> 'e tso_sys" where
  "set_phase p ph sys = sys\<lparr>sys_phase := (sys_phase sys)(p := ph)\<rparr>"

definition set_server :: "bytes \<Rightarrow> tso_server \<times> ts_heap \<Rightarrow> 'e tso_sys \<Rightarrow> 'e tso_sys" where
  "set_server p sh sys = sys\<lparr>sys_srv := (sys_srv sys)(p := fst sh), sys_heap := snd sh\<rparr>"

text \<open>The deferred \<open>s.ts.Store(&atomicObject{physical: zeroTime})\<close>.\<close>

definition clear_ts :: "bytes \<Rightarrow> 'e tso_sys \<Rightarrow> 'e tso_sys" where
  "clear_ts p sys = set_phase p Following
     (set_server p (store_ts (sys_srv sys p) (sys_heap sys) \<lparr>ao_physical = zero_time, ao_logical = 0\<rparr>) sys)"

fun tso_apply :: "'e etcd \<Rightarrow> string \<Rightarrow> duration \<Rightarrow> tso_event \<Rightarrow> 'e tso_sys \<Rightarrow> 'e tso_sys" where
  "tso_apply et root iv (Campaign p) sys =
     (if sys_phase sys p = Following then
        case campaign_txn et (sys_srv sys p) (sys_etcd sys) of
          (e, Inl _) \<Rightarrow> sys\<lparr>sys_etcd := e\<rparr>
        | (e, Inr _) \<Rightarrow> set_phase p Campaigned (sys\<lparr>sys_etcd := e\<rparr>)
      else sys)"
| "tso_apply et root iv (DeleteKey p) sys =
     (if sys_phase sys p = Following
      then sys\<lparr>sys_etcd := fst (deleteLeaderKey et (sys_srv sys p) (sys_etcd sys))\<rparr> else sys)"
| "tso_apply et root iv (Load p) sys =
     (if sys_phase sys p = Campaigned then
        case loadTimestamp et (sys_srv sys p) (sys_etcd sys) of
          (e, Inl _) \<Rightarrow> set_phase p Following (sys\<lparr>sys_etcd := e\<rparr>)
        | (e, Inr t) \<Rightarrow> set_phase p (Loaded t) (sys\<lparr>sys_etcd := e\<rparr>)
      else sys)"
| "tso_apply et root iv (Sync p now) sys =
     (case sys_phase sys p of
        Loaded t \<Rightarrow>
          (case sync_after_load et (sys_srv sys p) (sys_etcd sys) (sys_heap sys) t now of
             (e, Inl _) \<Rightarrow> set_phase p Following (sys\<lparr>sys_etcd := e\<rparr>)
           | (e, Inr sh) \<Rightarrow> set_phase p Leading (set_server p sh (sys\<lparr>sys_etcd := e\<rparr>)))
      | _ \<Rightarrow> sys)"
| "tso_apply et root iv (Update p now) sys =
     (if sys_phase sys p = Leading then
        case updateTimestamp et (sys_srv sys p) (sys_etcd sys) (sys_heap sys) now of
          None \<Rightarrow> sys
        | Some (e, Inl _) \<Rightarrow> clear_ts p (sys\<lparr>sys_etcd := e\<rparr>)
        | Some (e, Inr sh) \<Rightarrow> set_server p sh (sys\<lparr>sys_etcd := e\<rparr>)
      else sys)"
| "tso_apply et root iv (Resign p) sys = (if sys_phase sys p = Leading then clear_ts p sys else sys)"
| "tso_apply et root iv (Abandon p) sys =
     (if sys_phase sys p = Leading then sys else set_phase p Following sys)"
| "tso_apply et root iv (Request i count) sys =
     (if count \<noteq> 0 \<and> i < length (sys_heap sys) \<and> ao_physical (sys_heap sys ! i) \<noteq> zero_time then
        case addTS (sys_heap sys) i count of
          (h, None) \<Rightarrow> sys\<lparr>sys_heap := h\<rparr>
        | (h, Some resp) \<Rightarrow> sys\<lparr>sys_heap := h, sys_log := (resp, count) # sys_log sys\<rparr>
      else sys)"
| "tso_apply et root iv Expire sys =
     sys\<lparr>sys_etcd := et_Expire et (sys_etcd sys) (path_Join root ''leader'')\<rparr>"
| "tso_apply et root iv (Restart p) sys =
     set_phase p Following (sys\<lparr>sys_srv := (sys_srv sys)(p := new_server root iv p)\<rparr>)"

subsection \<open>What is assumed of the environment\<close>

text \<open>
  The clock reads a time between 1970 and December 2046, when the first sync on an empty etcd
  would overflow; saved bounds stay below \<open>2 ^ 62\<close> nanoseconds (the year 2116); and no object gets
  so many requests that its 64-bit counter wraps.
\<close>

definition clock_ok :: "time \<Rightarrow> bool" where
  "clock_ok now \<longleftrightarrow> 0 \<le> now \<and> now < 2428007457983430656"

definition saved_time :: "etcd_view \<Rightarrow> string \<Rightarrow> time" where
  "saved_time m root =
     (case m (path_Join root ''timestamp'') of None \<Rightarrow> - Millisecond | Some b \<Rightarrow> sint (be_uint b))"

fun event_ok :: "tso_event \<Rightarrow> ts_heap \<Rightarrow> bool" where
  "event_ok (Sync p now) h = clock_ok now"
| "event_ok (Update p now) h = clock_ok now"
| "event_ok (Request i count) h = (i < length h \<longrightarrow> sint (ao_logical (h ! i)) + uint count < 2 ^ 63)"
| "event_ok _ h = True"

inductive tso_reach :: "'e etcd \<Rightarrow> ('e \<Rightarrow> etcd_view) \<Rightarrow> string \<Rightarrow> duration \<Rightarrow> 'e tso_sys \<Rightarrow> bool"
  for et view root iv where
  start: "view e (path_Join root ''leader'') = None \<Longrightarrow> view e (path_Join root ''timestamp'') = None \<Longrightarrow>
    tso_reach et view root iv (tso_init root iv e)"
| step: "tso_reach et view root iv sys \<Longrightarrow> event_ok ev (sys_heap sys) \<Longrightarrow>
    saved_time (view (sys_etcd sys)) root < 2 ^ 62 \<Longrightarrow>
    tso_reach et view root iv (tso_apply et root iv ev sys)"

subsection \<open>Clock arithmetic\<close>

lemma subTimeByWallClock_eq:
  "0 \<le> a \<Longrightarrow> a < 2 ^ 63 \<Longrightarrow> 0 \<le> b \<Longrightarrow> b < 2 ^ 63 \<Longrightarrow> subTimeByWallClock a b = a - b"
  by (simp add: subTimeByWallClock_def UnixNano_def wrap64_id)

lemma UnixNano_zero_time: "UnixNano zero_time = - 6795364578871345152"
  unfolding UnixNano_def wrap64_def zero_time_def by simp

lemma subTimeByWallClock_zero: "clock_ok now \<Longrightarrow> subTimeByWallClock now zero_time = now + 6795364578871345152"
  unfolding subTimeByWallClock_def UnixNano_zero_time by (simp add: clock_ok_def UnixNano_def wrap64_id)

lemma sint_UnixNano: "0 \<le> t \<Longrightarrow> t < 2 ^ 63 \<Longrightarrow> sint (word_of_int (UnixNano t) :: 64 word) = t"
  using wrap64_id [of t] by (simp add: UnixNano_def) (simp add: wrap64_def)

definition stamp :: "time \<Rightarrow> bytes" where
  "stamp t = uint64ToBytes (word_of_int (UnixNano t))"

lemma saved_stamp: "0 \<le> t \<Longrightarrow> t < 2 ^ 63 \<Longrightarrow> sint (be_uint (stamp t)) = t"
  by (simp add: stamp_def be_uint_uint64ToBytes sint_UnixNano)

lemma parseTimestamp_stamp: "0 \<le> t \<Longrightarrow> t < 2 ^ 63 \<Longrightarrow> parseTimestamp (stamp t) = Inr t"
  by (simp add: parseTimestamp_def stamp_def sint_UnixNano)

lemma stamp_nonempty [simp]: "stamp t \<noteq> []"
  by (simp add: stamp_def)

subsection \<open>The calls on etcd\<close>

context etcd_contract
begin

lemma saveTimestamp_ok:
  "saveTimestamp et s e t = (e', Inr s') \<Longrightarrow>
     s' = s\<lparr>srv_lastSavedTime := t\<rparr> \<and> view e (getLeaderPath s) = Some (srv_memberValue s) \<and>
     view e' = (view e)(getTimestampPath s := Some (stamp t))"
  using LeaderTxn_ok [of s e "[]" "[OpPut (getTimestampPath s) (stamp t)]" e']
  by (auto simp: saveTimestamp_def Let_def stamp_def txn_apply_def split: prod.splits sum.splits if_splits)

lemma saveTimestamp_error:
  "saveTimestamp et s e t = (e', Inl err) \<Longrightarrow> view e' = view e \<or>
     view e (getLeaderPath s) = Some (srv_memberValue s) \<and>
     view e' = (view e)(getTimestampPath s := Some (stamp t))"
  using LeaderTxn_refused [of s e "[]" "[OpPut (getTimestampPath s) (stamp t)]" e']
    LeaderTxn_error [of s e "[]" "[OpPut (getTimestampPath s) (stamp t)]" e']
  by (auto simp: saveTimestamp_def Let_def stamp_def txn_apply_def split: prod.splits sum.splits if_splits)

lemma loadTimestamp_view:
  "loadTimestamp et s e = (e', r) \<Longrightarrow> view e' = view e \<and>
     (\<forall>t. r = Inr t \<longrightarrow> (case view e (getTimestampPath s) of None \<Rightarrow> t = zero_time
       | Some b \<Rightarrow> if b = [] then t = zero_time else parseTimestamp b = Inr t))"
  using getValue_view [of e "getTimestampPath s"]
  by (auto simp: loadTimestamp_def split: prod.splits sum.splits option.splits if_splits)

end

subsection \<open>The windows of a cluster\<close>

definition abs_win :: "('e \<Rightarrow> etcd_view) \<Rightarrow> string \<Rightarrow> 'e tso_sys \<Rightarrow> windows" where
  "abs_win view root sys =
     \<lparr>w_used = map ao_physical (sys_heap sys),
      w_win = (\<lambda>p. if sys_phase sys p = Leading
        then Some (ao_physical (sys_heap sys ! the (srv_ts (sys_srv sys p))), srv_lastSavedTime (sys_srv sys p))
        else None),
      w_saved = saved_time (view (sys_etcd sys)) root,
      w_owner = view (sys_etcd sys) (path_Join root ''leader'')\<rparr>"

text \<open>What else ties the servers to etcd: in particular, what a server has loaded is still what is
  stored as long as it holds the leader key.\<close>

definition servers_ok :: "string \<Rightarrow> duration \<Rightarrow> (bytes \<Rightarrow> tso_server) \<Rightarrow> bool" where
  "servers_ok root iv srv \<longleftrightarrow> (\<forall>p. srv_rootPath (srv p) = root \<and> srv_memberValue (srv p) = p \<and>
     srv_TsoSaveInterval (srv p) = iv)"

definition stored_ok :: "etcd_view \<Rightarrow> string \<Rightarrow> bool" where
  "stored_ok m root \<longleftrightarrow> (\<forall>b. m (path_Join root ''timestamp'') = Some b \<longrightarrow> (\<exists>t. 0 \<le> t \<and> t < 2 ^ 63 \<and> b = stamp t))"

definition loaded_ok :: "etcd_view \<Rightarrow> string \<Rightarrow> (bytes \<Rightarrow> phase) \<Rightarrow> bool" where
  "loaded_ok m root ph \<longleftrightarrow> (\<forall>p t. ph p = Loaded t \<longrightarrow> m (path_Join root ''leader'') = Some p \<longrightarrow>
     (case m (path_Join root ''timestamp'') of None \<Rightarrow> t = zero_time
      | Some b \<Rightarrow> 0 \<le> t \<and> t < 2 ^ 63 \<and> b = stamp t))"

definition pointers_ok :: "'e tso_sys \<Rightarrow> bool" where
  "pointers_ok sys \<longleftrightarrow> (\<forall>p. sys_phase sys p = Leading \<longrightarrow>
     (\<exists>i < length (sys_heap sys). srv_ts (sys_srv sys p) = Some i))"

definition tso_link :: "('e \<Rightarrow> etcd_view) \<Rightarrow> string \<Rightarrow> duration \<Rightarrow> 'e tso_sys \<Rightarrow> bool" where
  "tso_link view root iv sys \<longleftrightarrow> servers_ok root iv (sys_srv sys) \<and> stored_ok (view (sys_etcd sys)) root \<and>
     loaded_ok (view (sys_etcd sys)) root (sys_phase sys) \<and> pointers_ok sys"

definition tso_inv :: "('e \<Rightarrow> etcd_view) \<Rightarrow> string \<Rightarrow> duration \<Rightarrow> 'e tso_sys \<Rightarrow> bool" where
  "tso_inv view root iv sys \<longleftrightarrow> tso_link view root iv sys \<and> win_inv (abs_win view root sys)"

lemmas tso_link_defs = tso_link_def servers_ok_def stored_ok_def loaded_ok_def pointers_ok_def

text \<open>A step of the cluster is simulated by a few steps of the windows.\<close>

definition simulated :: "('e \<Rightarrow> etcd_view) \<Rightarrow> string \<Rightarrow> duration \<Rightarrow> 'e tso_sys \<Rightarrow> 'e tso_sys \<Rightarrow> bool" where
  "simulated view root iv sys sys' \<longleftrightarrow> tso_link view root iv sys' \<and>
     win_step\<^sup>*\<^sup>* (abs_win view root sys) (abs_win view root sys')"

lemma simulated_inv: "tso_inv view root iv sys \<Longrightarrow> simulated view root iv sys sys' \<Longrightarrow> tso_inv view root iv sys'"
proof -
  have "win_step\<^sup>*\<^sup>* w w' \<Longrightarrow> win_inv w \<Longrightarrow> win_inv w'" for w w'
    by (induction rule: rtranclp_induct) (auto intro: win_step_inv)
  then show "tso_inv view root iv sys \<Longrightarrow> simulated view root iv sys sys' \<Longrightarrow> tso_inv view root iv sys'"
    by (auto simp: tso_inv_def simulated_def)
qed

lemma win_step2: "win_step w w' \<Longrightarrow> win_step w' w'' \<Longrightarrow> win_step\<^sup>*\<^sup>* w w''"
  by auto

lemmas srv_paths = getLeaderPath_def getTimestampPath_def

lemma link_paths:
  assumes "tso_link view root iv sys"
  shows "getLeaderPath (sys_srv sys p) = path_Join root ''leader''"
    "getTimestampPath (sys_srv sys p) = path_Join root ''timestamp''"
    "srv_memberValue (sys_srv sys p) = p" "srv_TsoSaveInterval (sys_srv sys p) = iv"
  using assms by (auto simp: srv_paths tso_link_def servers_ok_def)

lemma saved_time_upd: "0 \<le> t \<Longrightarrow> t < 2 ^ 63 \<Longrightarrow> saved_time (m(path_Join root ''timestamp'' := Some (stamp t))) root = t"
  by (simp add: saved_time_def saved_stamp)

lemma saved_time_leader [simp]: "saved_time (m(path_Join root ''leader'' := v)) root = saved_time m root"
  by (simp add: saved_time_def)

lemma loaded_ok_weaken:
  "loaded_ok m root ph \<Longrightarrow> m' (path_Join root ''timestamp'') = m (path_Join root ''timestamp'') \<Longrightarrow>
    (\<And>q t. ph' q = Loaded t \<Longrightarrow> m' (path_Join root ''leader'') = Some q \<Longrightarrow>
      ph q = Loaded t \<and> m (path_Join root ''leader'') = Some q) \<Longrightarrow> loaded_ok m' root ph'"
  unfolding loaded_ok_def by (simp, blast)

text \<open>A save by the holder of the key, or no save at all.\<close>

lemma loaded_ok_step:
  assumes "loaded_ok m root ph" "\<And>q. q \<noteq> p \<Longrightarrow> ph' q = ph q" "\<And>t. ph' p \<noteq> Loaded t"
    and m': "m' = m \<or> m (path_Join root ''leader'') = Some p \<and> m' = m(path_Join root ''timestamp'' := x)"
  shows "loaded_ok m' root ph'"
proof (cases "m' = m")
  case True
  then show ?thesis
    using assms(2,3) by (intro loaded_ok_weaken [OF assms(1)]) (simp, metis)
next
  case False
  then have "m' (path_Join root ''leader'') = Some p" using m' by auto
  then show ?thesis using assms(3) by (auto simp: loaded_ok_def)
qed

lemma stored_ok_cong:
  "stored_ok m root \<Longrightarrow> m' (path_Join root ''timestamp'') = m (path_Join root ''timestamp'') \<Longrightarrow> stored_ok m' root"
  by (simp add: stored_ok_def)

text \<open>Steps that change only the leader key and phases other than \<open>Leading\<close>.\<close>

lemma sim_leader_key:
  assumes inv: "tso_inv view root iv sys" and sys': "sys' = sys\<lparr>sys_etcd := e, sys_phase := ph\<rparr>"
    and ts: "view e (path_Join root ''timestamp'') = view (sys_etcd sys) (path_Join root ''timestamp'')"
    and ph: "\<And>q. ph q = Leading \<longleftrightarrow> sys_phase sys q = Leading"
    and loaded: "\<And>q t. ph q = Loaded t \<Longrightarrow> view e (path_Join root ''leader'') = Some q \<Longrightarrow>
      sys_phase sys q = Loaded t \<and> view (sys_etcd sys) (path_Join root ''leader'') = Some q"
    and leader: "view e (path_Join root ''leader'') = view (sys_etcd sys) (path_Join root ''leader'') \<or>
      view e (path_Join root ''leader'') = None \<or>
      (\<exists>p. view e (path_Join root ''leader'') = Some p \<and> sys_phase sys p \<noteq> Leading)"
  shows "simulated view root iv sys sys'"
proof -
  have link: "tso_link view root iv sys" using inv by (simp add: tso_inv_def)
  have "tso_link view root iv sys'"
    using link ts ph loaded_ok_weaken [of "view (sys_etcd sys)" root "sys_phase sys" "view e" ph] loaded
      stored_ok_cong [of "view (sys_etcd sys)" root "view e"]
    by (simp add: tso_link_def sys' pointers_ok_def)
  moreover have abs: "abs_win view root sys' = (abs_win view root sys)\<lparr>w_owner := view e (path_Join root ''leader'')\<rparr>"
    using ts ph by (simp add: abs_win_def sys' saved_time_def fun_eq_iff)
  moreover have "w_win (abs_win view root sys) p = None" if "sys_phase sys p \<noteq> Leading" for p
    using that by (simp add: abs_win_def)
  moreover have "(abs_win view root sys)\<lparr>w_owner := view (sys_etcd sys) (path_Join root ''leader'')\<rparr> = abs_win view root sys"
    by (simp add: abs_win_def)
  ultimately show ?thesis
    using leader win_step.release [of "abs_win view root sys"] win_step.own [of "abs_win view root sys"]
    by (auto simp: simulated_def)
qed

context etcd_contract
begin

lemma sim_Campaign:
  assumes inv: "tso_inv view root iv sys"
  shows "simulated view root iv sys (tso_apply et root iv (Campaign p) sys)"
proof (cases "sys_phase sys p = Following")
  case False
  then show ?thesis using inv by (simp add: simulated_def tso_inv_def)
next
  case f: True
  obtain e r where c: "campaign_txn et (sys_srv sys p) (sys_etcd sys) = (e, r)" by fastforce
  have link: "tso_link view root iv sys" using inv by (simp add: tso_inv_def)
  note paths = link_paths [OF link, of p]
  have leader: "view e (path_Join root ''leader'') = view (sys_etcd sys) (path_Join root ''leader'') \<or>
      view e (path_Join root ''leader'') = Some p"
    using campaign_leader [OF c] by (simp add: paths)
  have ts: "view e (path_Join root ''timestamp'') = view (sys_etcd sys) (path_Join root ''timestamp'')"
    using campaign_other [OF c, of "path_Join root ''timestamp''"] by (simp add: paths)
  define ph where "ph = (case r of Inl _ \<Rightarrow> sys_phase sys | Inr _ \<Rightarrow> (sys_phase sys)(p := Campaigned))"
  have s': "tso_apply et root iv (Campaign p) sys = sys\<lparr>sys_etcd := e, sys_phase := ph\<rparr>"
    using c f by (cases r) (simp_all add: set_phase_def ph_def)
  show ?thesis
    by (rule sim_leader_key [OF inv s' ts]) (use f leader in \<open>auto simp: ph_def split: sum.splits if_splits\<close>)
qed

lemma sim_DeleteKey:
  assumes inv: "tso_inv view root iv sys"
  shows "simulated view root iv sys (tso_apply et root iv (DeleteKey p) sys)"
proof (cases "sys_phase sys p = Following")
  case False
  then show ?thesis using inv by (simp add: simulated_def tso_inv_def)
next
  case f: True
  obtain e r where c: "deleteLeaderKey et (sys_srv sys p) (sys_etcd sys) = (e, r)" by fastforce
  have link: "tso_link view root iv sys" using inv by (simp add: tso_inv_def)
  have v: "view e = view (sys_etcd sys) \<or> view e = (view (sys_etcd sys))(path_Join root ''leader'' := None)"
    using deleteLeaderKey_view [OF c] link_paths(1) [OF link, of p] by auto
  have s': "tso_apply et root iv (DeleteKey p) sys = sys\<lparr>sys_etcd := e, sys_phase := sys_phase sys\<rparr>"
    using c f by simp
  show ?thesis by (rule sim_leader_key [OF inv s']) (use v in auto)
qed

lemma sim_Expire:
  assumes inv: "tso_inv view root iv sys"
  shows "simulated view root iv sys (tso_apply et root iv Expire sys)"
proof -
  let ?e = "et_Expire et (sys_etcd sys) (path_Join root ''leader'')"
  have s': "tso_apply et root iv Expire sys = sys\<lparr>sys_etcd := ?e, sys_phase := sys_phase sys\<rparr>" by simp
  show ?thesis by (rule sim_leader_key [OF inv s']) (auto simp: expire_view)
qed

lemma sim_Load:
  assumes inv: "tso_inv view root iv sys"
  shows "simulated view root iv sys (tso_apply et root iv (Load p) sys)"
proof (cases "sys_phase sys p = Campaigned")
  case False
  then show ?thesis using inv by (simp add: simulated_def tso_inv_def)
next
  case c: True
  obtain e r where l: "loadTimestamp et (sys_srv sys p) (sys_etcd sys) = (e, r)" by fastforce
  have link: "tso_link view root iv sys" using inv by (simp add: tso_inv_def)
  note load = loadTimestamp_view [OF l, unfolded link_paths [OF link]]
  define ph where "ph = (sys_phase sys)(p := case r of Inl _ \<Rightarrow> Following | Inr t \<Rightarrow> Loaded t)"
  have s': "tso_apply et root iv (Load p) sys = sys\<lparr>sys_etcd := e, sys_phase := ph\<rparr>"
    using c l by (cases r) (simp_all add: set_phase_def ph_def)
  have abs: "abs_win view root (sys\<lparr>sys_etcd := e, sys_phase := ph\<rparr>) = abs_win view root sys"
    using load c by (auto simp: abs_win_def ph_def intro!: ext split: sum.splits)
  have "loaded_ok (view e) root ph"
    unfolding loaded_ok_def
  proof (intro allI impI)
    fix q t assume q: "ph q = Loaded t" "view e (path_Join root ''leader'') = Some q"
    show "case view e (path_Join root ''timestamp'') of None \<Rightarrow> t = zero_time
       | Some b \<Rightarrow> 0 \<le> t \<and> t < 2 ^ 63 \<and> b = stamp t"
    proof (cases "q = p")
      case True
      then have "r = Inr t" using q(1) by (auto simp: ph_def split: sum.splits)
      then show ?thesis using load link parseTimestamp_stamp
        by (auto simp: tso_link_def stored_ok_def split: option.splits)
    next
      case False
      then show ?thesis using q load link by (auto simp: ph_def tso_link_def loaded_ok_def)
    qed
  qed
  then show ?thesis
    using link load c unfolding s' simulated_def abs
    by (auto simp: tso_link_def pointers_ok_def ph_def split: sum.splits if_splits)
qed

end

text \<open>Steps that put a new object on the heap.\<close>

lemma abs_store:
  assumes "pointers_ok sys"
    and sys': "sys' = sys\<lparr>sys_etcd := e, sys_srv := (sys_srv sys)(p := s\<lparr>srv_ts := Some (length (sys_heap sys))\<rparr>),
      sys_heap := sys_heap sys @ [obj], sys_phase := ph\<rparr>"
    and "\<And>q. q \<noteq> p \<Longrightarrow> ph q = Leading \<longleftrightarrow> sys_phase sys q = Leading"
  shows "abs_win view root sys' =
    \<lparr>w_used = w_used (abs_win view root sys) @ [ao_physical obj],
     w_win = (w_win (abs_win view root sys))
       (p := if ph p = Leading then Some (ao_physical obj, srv_lastSavedTime s) else None),
     w_saved = saved_time (view e) root, w_owner = view e (path_Join root ''leader'')\<rparr>"
proof -
  have "(sys_heap sys @ [obj]) ! the (srv_ts (sys_srv sys q)) = sys_heap sys ! the (srv_ts (sys_srv sys q))"
    if "sys_phase sys q = Leading" for q
    using assms(1) that by (auto simp: pointers_ok_def nth_append)
  with assms(3) show ?thesis by (auto simp: abs_win_def sys' intro!: ext)
qed

lemma link_store:
  assumes link: "tso_link view root iv sys"
    and sys': "sys' = sys\<lparr>sys_etcd := e, sys_srv := (sys_srv sys)(p := s\<lparr>srv_ts := Some (length (sys_heap sys))\<rparr>),
      sys_heap := sys_heap sys @ [obj], sys_phase := ph\<rparr>"
    and ph: "\<And>q. q \<noteq> p \<Longrightarrow> ph q = sys_phase sys q" "\<And>t. ph p \<noteq> Loaded t"
    and s: "srv_rootPath s = root" "srv_memberValue s = p" "srv_TsoSaveInterval s = iv"
    and e: "view e = view (sys_etcd sys) \<or> view (sys_etcd sys) (path_Join root ''leader'') = Some p \<and>
      0 \<le> t \<and> t < 2 ^ 63 \<and> view e = (view (sys_etcd sys))(path_Join root ''timestamp'' := Some (stamp t))"
  shows "tso_link view root iv sys'"
proof -
  have "servers_ok root iv (sys_srv sys')" using link s by (auto simp: tso_link_def servers_ok_def sys')
  moreover have "stored_ok (view e) root" using link e by (auto simp: tso_link_def stored_ok_def)
  moreover have "loaded_ok (view e) root ph"
    by (rule loaded_ok_step [of "view (sys_etcd sys)" root "sys_phase sys" p _ _ "Some (stamp t)"])
      (use link ph e in \<open>auto simp: tso_link_def\<close>)
  moreover have "pointers_ok sys'"
    using link ph(1) by (force simp: tso_link_def pointers_ok_def sys')
  ultimately show ?thesis by (simp add: tso_link_def sys')
qed

text \<open>A save that was reported as an error.\<close>

lemma sim_failed:
  assumes link: "tso_link view root iv sys" and sys': "sys' = sys\<lparr>sys_etcd := e, sys_phase := (sys_phase sys)(p := Following)\<rparr>"
    and e: "view e = view (sys_etcd sys) \<or> view (sys_etcd sys) (path_Join root ''leader'') = Some p \<and>
      0 \<le> t \<and> t < 2 ^ 63 \<and> saved_time (view (sys_etcd sys)) root \<le> t \<and>
      view e = (view (sys_etcd sys))(path_Join root ''timestamp'' := Some (stamp t))"
  shows "tso_link view root iv sys'" "win_step (abs_win view root sys) (abs_win view root sys')"
proof -
  have "stored_ok (view e) root" using link e by (auto simp: tso_link_def stored_ok_def)
  moreover have "loaded_ok (view e) root ((sys_phase sys)(p := Following))"
    by (rule loaded_ok_step [of "view (sys_etcd sys)" root "sys_phase sys" p _ _ "Some (stamp t)"])
      (use link e in \<open>auto simp: tso_link_def\<close>)
  ultimately show "tso_link view root iv sys'"
    using link by (simp add: tso_link_def pointers_ok_def sys')
  have "abs_win view root sys' = (abs_win view root sys)\<lparr>w_win := (w_win (abs_win view root sys))(p := None),
      w_saved := saved_time (view e) root\<rparr>"
    using e by (auto simp: abs_win_def sys' intro!: ext)
  moreover have "saved_time (view e) root = saved_time (view (sys_etcd sys)) root \<or>
      w_owner (abs_win view root sys) = Some p \<and> w_saved (abs_win view root sys) \<le> saved_time (view e) root"
    using e by (auto simp: abs_win_def saved_time_upd)
  moreover have "(w\<lparr>w_win := f, w_saved := w_saved w\<rparr>) = w\<lparr>w_win := f\<rparr>" for w :: windows and f by simp
  ultimately show "win_step (abs_win view root sys) (abs_win view root sys')"
    using win_step.bump [of "abs_win view root sys" p "saved_time (view e) root"]
      win_step.drop [of "abs_win view root sys" p] by (auto simp: abs_win_def)
qed

lemma sync_next:
  assumes link: "tso_link view root iv sys" and ph: "sys_phase sys p = Loaded t"
    and leader: "view (sys_etcd sys) (path_Join root ''leader'') = Some p"
    and now: "clock_ok now" and saved: "saved_time (view (sys_etcd sys)) root < 2 ^ 62"
    and n: "n = (if subTimeByWallClock now t < updateTimestampGuard then t + updateTimestampGuard else now)"
  shows "saved_time (view (sys_etcd sys)) root + Millisecond \<le> n \<and> 0 \<le> n \<and> n < 2 ^ 62 + Millisecond"
proof (cases "view (sys_etcd sys) (path_Join root ''timestamp'')")
  case None
  then have "t = zero_time" using link ph leader by (auto simp: tso_link_def loaded_ok_def)
  then have "n = now" using n now subTimeByWallClock_zero [OF now] by (auto simp: updateTimestampGuard_def Millisecond_def clock_ok_def)
  then show ?thesis using None now by (simp add: saved_time_def clock_ok_def Millisecond_def)
next
  case (Some b)
  then have t: "0 \<le> t" "t < 2 ^ 63" "b = stamp t" using link ph leader by (auto simp: tso_link_def loaded_ok_def)
  then have "saved_time (view (sys_etcd sys)) root = t" using Some by (simp add: saved_time_def saved_stamp)
  moreover have "subTimeByWallClock now t = now - t"
    using now t by (intro subTimeByWallClock_eq) (auto simp: clock_ok_def)
  ultimately show ?thesis
    using n now t saved by (simp add: updateTimestampGuard_def Millisecond_def clock_ok_def)
qed

text \<open>The configured interval: at least the guard, and less than 73 years.\<close>

definition interval_ok :: "duration \<Rightarrow> bool" where
  "interval_ok iv \<longleftrightarrow> Millisecond \<le> iv \<and> iv < 2 ^ 61"

context etcd_contract
begin

lemma sim_Sync:
  assumes inv: "tso_inv view root iv sys" and iv: "interval_ok iv" and now: "clock_ok now"
    and saved: "saved_time (view (sys_etcd sys)) root < 2 ^ 62"
  shows "simulated view root iv sys (tso_apply et root iv (Sync p now) sys)"
proof (cases "\<exists>t. sys_phase sys p = Loaded t")
  case False
  then show ?thesis using inv by (auto simp: simulated_def tso_inv_def split: phase.splits)
next
  case True
  then obtain t where t: "sys_phase sys p = Loaded t" ..
  have link: "tso_link view root iv sys" using inv by (simp add: tso_inv_def)
  define n where "n = (if subTimeByWallClock now t < updateTimestampGuard then t + updateTimestampGuard else now)"
  define s where "s = sys_srv sys p"
  note paths = link_paths [OF link, of p, folded s_def]
  obtain e r where save: "saveTimestamp et s (sys_etcd sys) (n + iv) = (e, r)" by fastforce
  note nxt = sync_next [OF link t _ now saved n_def]
  have range: "0 \<le> n + iv \<and> n + iv < 2 ^ 63 \<and> n + Millisecond \<le> n + iv \<and>
      saved_time (view (sys_etcd sys)) root \<le> n + iv"
    if "view (sys_etcd sys) (path_Join root ''leader'') = Some p"
    using nxt [OF that] iv by (auto simp: interval_ok_def Millisecond_def)
  show ?thesis
  proof (cases r)
    case (Inl err)
    have "tso_apply et root iv (Sync p now) sys = sys\<lparr>sys_etcd := e, sys_phase := (sys_phase sys)(p := Following)\<rparr>"
      using t save Inl paths by (simp add: sync_after_load_def Let_def n_def [symmetric] s_def [symmetric] set_phase_def)
    from sim_failed [OF link this, of "n + iv"] saveTimestamp_error [of s "sys_etcd sys" "n + iv" e err] save Inl range paths
    show ?thesis by (auto simp: simulated_def)
  next
    case (Inr s')
    let ?obj = "\<lparr>ao_physical = n, ao_logical = 0\<rparr>"
    have ok: "s' = s\<lparr>srv_lastSavedTime := n + iv\<rparr>" "view (sys_etcd sys) (path_Join root ''leader'') = Some p"
      "view e = (view (sys_etcd sys))(path_Join root ''timestamp'' := Some (stamp (n + iv)))"
      using saveTimestamp_ok [of s "sys_etcd sys" "n + iv" e s'] save Inr paths by auto
    have s'': "tso_apply et root iv (Sync p now) sys = sys\<lparr>sys_etcd := e,
        sys_srv := (sys_srv sys)(p := s'\<lparr>srv_ts := Some (length (sys_heap sys))\<rparr>),
        sys_heap := sys_heap sys @ [?obj], sys_phase := (sys_phase sys)(p := Leading)\<rparr>"
      using t save Inr paths by (simp add: sync_after_load_def Let_def n_def [symmetric] s_def [symmetric]
          set_phase_def set_server_def store_ts_def)
    have "tso_link view root iv (tso_apply et root iv (Sync p now) sys)"
      by (rule link_store [OF link s'', where t = "n + iv"])
        (use ok range paths link in \<open>auto simp: s_def tso_link_def servers_ok_def\<close>)
    moreover have abs: "abs_win view root (tso_apply et root iv (Sync p now) sys) =
        (abs_win view root sys)\<lparr>w_used := w_used (abs_win view root sys) @ [n],
           w_win := (w_win (abs_win view root sys))(p := Some (n, n + iv)), w_saved := n + iv\<rparr>"
      using link ok range by (subst abs_store [OF _ s'']) (auto simp: tso_link_def saved_time_upd, simp add: abs_win_def)
    moreover have "win_step (abs_win view root sys) (abs_win view root (tso_apply et root iv (Sync p now) sys))"
      unfolding abs by (rule win_step.sync) (use ok nxt range in \<open>auto simp: abs_win_def\<close>)
    ultimately show ?thesis unfolding simulated_def by blast
  qed
qed

end

text \<open>The end of a leadership: the server gives up its window and stores the zero time.\<close>

lemma sim_clear:
  assumes link: "tso_link view root iv sys"
    and e: "view e = view (sys_etcd sys) \<or> view (sys_etcd sys) (path_Join root ''leader'') = Some p \<and>
      0 \<le> t \<and> t < 2 ^ 63 \<and> saved_time (view (sys_etcd sys)) root \<le> t \<and>
      view e = (view (sys_etcd sys))(path_Join root ''timestamp'' := Some (stamp t))"
  shows "simulated view root iv sys (clear_ts p (sys\<lparr>sys_etcd := e\<rparr>))"
proof -
  let ?F = "sys\<lparr>sys_etcd := e, sys_phase := (sys_phase sys)(p := Following)\<rparr>"
  let ?s = "sys_srv sys p" and ?obj = "\<lparr>ao_physical = zero_time, ao_logical = 0\<rparr>"
  note failed = sim_failed [OF link refl e]
  have s': "clear_ts p (sys\<lparr>sys_etcd := e\<rparr>) = ?F\<lparr>sys_etcd := sys_etcd ?F,
      sys_srv := (sys_srv ?F)(p := ?s\<lparr>srv_ts := Some (length (sys_heap ?F))\<rparr>),
      sys_heap := sys_heap ?F @ [?obj], sys_phase := sys_phase ?F\<rparr>"
    by (simp add: clear_ts_def set_phase_def set_server_def store_ts_def)
  have "tso_link view root iv (clear_ts p (sys\<lparr>sys_etcd := e\<rparr>))"
    by (rule link_store [OF failed(1) s']) (use link in \<open>auto simp: tso_link_def servers_ok_def\<close>)
  moreover have "abs_win view root (clear_ts p (sys\<lparr>sys_etcd := e\<rparr>)) =
      (abs_win view root ?F)\<lparr>w_used := w_used (abs_win view root ?F) @ [zero_time]\<rparr>"
    using failed(1) by (subst abs_store [OF _ s']) (auto simp: tso_link_def abs_win_def intro!: ext)
  ultimately show ?thesis
    unfolding simulated_def using win_step2 [OF failed(2) win_step.unused] by simp
qed

lemma sim_moved:
  assumes link: "tso_link view root iv sys" and L: "sys_phase sys p = Leading"
    and s: "srv_rootPath s = root" "srv_memberValue s = p" "srv_TsoSaveInterval s = iv"
    and e: "view e = view (sys_etcd sys) \<or> view (sys_etcd sys) (path_Join root ''leader'') = Some p \<and>
      0 \<le> t \<and> t < 2 ^ 63 \<and> view e = (view (sys_etcd sys))(path_Join root ''timestamp'' := Some (stamp t))"
    and step: "win_step (abs_win view root sys) ((abs_win view root sys)\<lparr>w_used := w_used (abs_win view root sys) @ [n],
      w_win := (w_win (abs_win view root sys))(p := Some (n, srv_lastSavedTime s)),
      w_saved := saved_time (view e) root\<rparr>)"
  shows "simulated view root iv sys
    (set_server p (store_ts s (sys_heap sys) \<lparr>ao_physical = n, ao_logical = 0\<rparr>) (sys\<lparr>sys_etcd := e\<rparr>))"
proof -
  let ?sys = "set_server p (store_ts s (sys_heap sys) \<lparr>ao_physical = n, ao_logical = 0\<rparr>) (sys\<lparr>sys_etcd := e\<rparr>)"
  have s': "?sys = sys\<lparr>sys_etcd := e, sys_srv := (sys_srv sys)(p := s\<lparr>srv_ts := Some (length (sys_heap sys))\<rparr>),
      sys_heap := sys_heap sys @ [\<lparr>ao_physical = n, ao_logical = 0\<rparr>], sys_phase := sys_phase sys\<rparr>"
    by (simp add: set_server_def store_ts_def)
  have "tso_link view root iv ?sys" by (rule link_store [OF link s']) (use L s e in auto)
  moreover have "view e (path_Join root ''leader'') = view (sys_etcd sys) (path_Join root ''leader'')"
    using e by auto
  then have "abs_win view root ?sys = (abs_win view root sys)\<lparr>w_used := w_used (abs_win view root sys) @ [n],
      w_win := (w_win (abs_win view root sys))(p := Some (n, srv_lastSavedTime s)),
      w_saved := saved_time (view e) root\<rparr>"
    using link L by (subst abs_store [OF _ s']) (auto simp: tso_link_def abs_win_def)
  ultimately show ?thesis using step unfolding simulated_def by auto
qed

lemma update_next_range:
  assumes "update_next prev now = Some n" "clock_ok now" "0 \<le> ao_physical prev" "ao_physical prev < 2 ^ 62"
  shows "ao_physical prev + Millisecond \<le> n \<and> n < 2 ^ 62 + Millisecond"
proof -
  have "subTimeByWallClock now (ao_physical prev) = now - ao_physical prev"
    using assms by (intro subTimeByWallClock_eq) (auto simp: clock_ok_def)
  with assms show ?thesis
    by (auto simp: update_next_def updateTimestampGuard_def clock_ok_def Millisecond_def split: if_splits)
qed

context etcd_contract
begin

lemma sim_Update:
  assumes inv: "tso_inv view root iv sys" and iv: "interval_ok iv" and now: "clock_ok now"
    and saved: "saved_time (view (sys_etcd sys)) root < 2 ^ 62"
  shows "simulated view root iv sys (tso_apply et root iv (Update p now) sys)"
proof (cases "sys_phase sys p = Leading")
  case False
  then show ?thesis using inv by (simp add: simulated_def tso_inv_def)
next
  case L: True
  have link: "tso_link view root iv sys" and winv: "win_inv (abs_win view root sys)"
    using inv by (simp_all add: tso_inv_def)
  define s where "s = sys_srv sys p"
  note paths = link_paths [OF link, of p, folded s_def]
  obtain i where i: "i < length (sys_heap sys)" "srv_ts s = Some i"
    using link L by (auto simp: tso_link_def pointers_ok_def s_def)
  let ?c = "ao_physical (sys_heap sys ! i)" and ?h = "srv_lastSavedTime s"
  have win: "w_win (abs_win view root sys) p = Some (?c, ?h)" using L i by (simp add: abs_win_def s_def)
  have w: "0 \<le> ?c" "?c + Millisecond \<le> ?h" "?h \<le> saved_time (view (sys_etcd sys)) root"
    using windowD [OF winv win] by (auto simp: abs_win_def)
  show ?thesis
  proof (cases "update_next (sys_heap sys ! i) now")
    case None
    have "(sys\<lparr>sys_etcd := sys_etcd sys, sys_srv := (sys_srv sys)(p := s), sys_heap := sys_heap sys\<rparr>) = sys"
      by (simp add: s_def)
    then have "tso_apply et root iv (Update p now) sys = sys"
      using None L i by (simp add: updateTimestamp_def s_def set_server_def)
    then show ?thesis using link by (simp add: simulated_def)
  next
    case (Some n)
    have n: "?c + Millisecond \<le> n" "n < 2 ^ 62 + Millisecond" "0 \<le> n"
      using update_next_range [OF Some now] w saved by (auto simp: Millisecond_def)
    have sub: "subTimeByWallClock ?h n = ?h - n"
      using n w saved by (intro subTimeByWallClock_eq) (auto simp: Millisecond_def)
    define res where "res = (if ?h - n \<le> updateTimestampGuard then saveTimestamp et s (sys_etcd sys) (n + iv)
        else (sys_etcd sys, Inr s))"
    have upd: "tso_apply et root iv (Update p now) sys = (case res of
         (e, Inl _) \<Rightarrow> clear_ts p (sys\<lparr>sys_etcd := e\<rparr>)
       | (e, Inr s') \<Rightarrow> set_server p (store_ts s' (sys_heap sys) \<lparr>ao_physical = n, ao_logical = 0\<rparr>) (sys\<lparr>sys_etcd := e\<rparr>))"
      using L i Some sub paths unfolding res_def by (simp add: updateTimestamp_def s_def split: prod.splits sum.splits)
    have srv: "srv_rootPath s = root" "srv_memberValue s = p" "srv_TsoSaveInterval s = iv"
      using link by (simp_all add: s_def tso_link_def servers_ok_def)
    have range: "0 \<le> n + iv \<and> n + iv < 2 ^ 63 \<and> n + Millisecond \<le> n + iv \<and>
        saved_time (view (sys_etcd sys)) root \<le> n + iv"
      if "view (sys_etcd sys) (path_Join root ''leader'') = Some p" "?h - n \<le> updateTimestampGuard"
      using ownerD [OF winv _ win] that n iv
      by (auto simp: interval_ok_def Millisecond_def updateTimestampGuard_def abs_win_def)
    show ?thesis
    proof (cases "?h - n \<le> updateTimestampGuard")
      case False
      let ?w = "(abs_win view root sys)\<lparr>w_used := w_used (abs_win view root sys) @ [n],
          w_win := (w_win (abs_win view root sys))(p := Some (n, ?h))\<rparr>"
      have "win_step (abs_win view root sys) ?w"
        by (rule win_step.advance [OF win n(1)]) (use False in \<open>simp add: updateTimestampGuard_def\<close>)
      moreover have "?w\<lparr>w_saved := saved_time (view (sys_etcd sys)) root\<rparr> = ?w" by (simp add: abs_win_def)
      ultimately have "simulated view root iv sys (set_server p
          (store_ts s (sys_heap sys) \<lparr>ao_physical = n, ao_logical = 0\<rparr>) (sys\<lparr>sys_etcd := sys_etcd sys\<rparr>))"
        by (intro sim_moved [OF link L srv]) auto
      then show ?thesis unfolding upd res_def using False by simp
    next
      case True
      obtain e r where save: "saveTimestamp et s (sys_etcd sys) (n + iv) = (e, r)" by fastforce
      show ?thesis
      proof (cases r)
        case (Inl err)
        have "simulated view root iv sys (clear_ts p (sys\<lparr>sys_etcd := e\<rparr>))"
          using saveTimestamp_error [of s "sys_etcd sys" "n + iv" e err] save Inl True range paths
          by (intro sim_clear [OF link, of e p "n + iv"]) auto
        then show ?thesis unfolding upd res_def using True save Inl by simp
      next
        case (Inr s')
        have ok: "s' = s\<lparr>srv_lastSavedTime := n + iv\<rparr>" "view (sys_etcd sys) (path_Join root ''leader'') = Some p"
          "view e = (view (sys_etcd sys))(path_Join root ''timestamp'' := Some (stamp (n + iv)))"
          using saveTimestamp_ok [of s "sys_etcd sys" "n + iv" e s'] save Inr paths by auto
        have "win_step (abs_win view root sys) ((abs_win view root sys)\<lparr>w_used := w_used (abs_win view root sys) @ [n],
            w_win := (w_win (abs_win view root sys))(p := Some (n, n + iv)), w_saved := n + iv\<rparr>)"
          by (rule win_step.extend [OF _ win n(1)]) (use range ok(2) True in \<open>auto simp: abs_win_def\<close>)
        then have "simulated view root iv sys (set_server p
            (store_ts s' (sys_heap sys) \<lparr>ao_physical = n, ao_logical = 0\<rparr>) (sys\<lparr>sys_etcd := e\<rparr>))"
          using srv ok range True by (intro sim_moved [OF link L, where t = "n + iv"]) (auto simp: saved_time_upd)
        then show ?thesis unfolding upd res_def using True save Inr by simp
      qed
    qed
  qed
qed

lemma sim_Resign:
  assumes inv: "tso_inv view root iv sys"
  shows "simulated view root iv sys (tso_apply et root iv (Resign p) sys)"
proof -
  have link: "tso_link view root iv sys" using inv by (simp add: tso_inv_def)
  have "simulated view root iv sys (clear_ts p (sys\<lparr>sys_etcd := sys_etcd sys\<rparr>))"
    by (rule sim_clear [OF link]) simp
  with link show ?thesis by (simp add: simulated_def)
qed

lemma sim_Abandon:
  assumes inv: "tso_inv view root iv sys"
  shows "simulated view root iv sys (tso_apply et root iv (Abandon p) sys)"
proof -
  have link: "tso_link view root iv sys" using inv by (simp add: tso_inv_def)
  have "set_phase p Following sys = sys\<lparr>sys_etcd := sys_etcd sys, sys_phase := (sys_phase sys)(p := Following)\<rparr>"
    by (simp add: set_phase_def)
  from sim_failed [OF link this] link show ?thesis by (auto simp: simulated_def)
qed

lemma sim_Restart:
  assumes inv: "tso_inv view root iv sys"
  shows "simulated view root iv sys (tso_apply et root iv (Restart p) sys)"
proof -
  let ?sys = "tso_apply et root iv (Restart p) sys"
  have link: "tso_link view root iv sys" using inv by (simp add: tso_inv_def)
  have "loaded_ok (view (sys_etcd sys)) root ((sys_phase sys)(p := Following))"
    by (rule loaded_ok_step [of _ _ "sys_phase sys" p]) (use link in \<open>auto simp: tso_link_def\<close>)
  with link have "tso_link view root iv ?sys"
    by (auto simp: tso_link_def servers_ok_def pointers_ok_def set_phase_def new_server_def)
  moreover have "abs_win view root ?sys = (abs_win view root sys)\<lparr>w_win := (w_win (abs_win view root sys))(p := None)\<rparr>"
    by (auto simp: abs_win_def set_phase_def intro!: ext)
  ultimately show ?thesis using win_step.drop [of "abs_win view root sys" p] by (simp add: simulated_def)
qed

lemma Request_heap:
  "\<exists>h. sys_heap (tso_apply et root iv (Request i count) sys) = h \<and> length h = length (sys_heap sys) \<and>
     map ao_physical h = map ao_physical (sys_heap sys)"
  by (auto simp: addTS_def Let_def map_update list_update_same_conv)

lemma sim_Request:
  assumes inv: "tso_inv view root iv sys"
  shows "simulated view root iv sys (tso_apply et root iv (Request i count) sys)"
proof -
  let ?sys = "tso_apply et root iv (Request i count) sys"
  have link: "tso_link view root iv sys" using inv by (simp add: tso_inv_def)
  obtain h l where s': "?sys = sys\<lparr>sys_heap := h, sys_log := l\<rparr>" and h: "length h = length (sys_heap sys)"
    "map ao_physical h = map ao_physical (sys_heap sys)"
  proof -
    have "?sys = sys\<lparr>sys_heap := sys_heap ?sys, sys_log := sys_log ?sys\<rparr>"
      by (auto simp: addTS_def Let_def)
    with Request_heap [of root iv i count sys] show ?thesis using that by metis
  qed
  have "ao_physical (h ! j) = ao_physical (sys_heap sys ! j)" if "j < length (sys_heap sys)" for j
    using h that by (metis nth_map)
  moreover have "the (srv_ts (sys_srv sys p)) < length (sys_heap sys)" if "sys_phase sys p = Leading" for p
    using link that by (auto simp: tso_link_def pointers_ok_def)
  ultimately have "abs_win view root ?sys = abs_win view root sys"
    unfolding s' using h by (auto simp: abs_win_def intro!: ext)
  moreover have "tso_link view root iv ?sys"
    using link h(1) unfolding s' by (simp add: tso_link_def pointers_ok_def)
  ultimately show ?thesis by (simp add: simulated_def)
qed

lemma sim_event:
  assumes "tso_inv view root iv sys" "interval_ok iv" "event_ok ev (sys_heap sys)"
    "saved_time (view (sys_etcd sys)) root < 2 ^ 62"
  shows "simulated view root iv sys (tso_apply et root iv ev sys)"
  using assms
  by (cases ev) (auto intro: sim_Campaign sim_DeleteKey sim_Load sim_Sync sim_Update sim_Resign
      sim_Abandon sim_Request sim_Expire sim_Restart simp del: tso_apply.simps)

lemma tso_init_inv:
  assumes "view e (path_Join root ''leader'') = None" "view e (path_Join root ''timestamp'') = None"
  shows "tso_inv view root iv (tso_init root iv e)"
  using assms by (simp add: tso_inv_def tso_link_defs win_invs abs_win_def tso_init_def new_server_def)

lemma tso_reach_inv: "tso_reach et view root iv sys \<Longrightarrow> interval_ok iv \<Longrightarrow> tso_inv view root iv sys"
proof (induction rule: tso_reach.induct)
  case (start e)
  then show ?case by (intro tso_init_inv)
next
  case (step sys ev)
  then show ?case using sim_event [of root iv sys ev] simulated_inv by blast
qed

end

end
