(* ===== verification/TsoUnique.thy ===== *)
theory TsoUnique
  imports TsoCluster
begin

text \<open>
  What clients see of the timestamp oracle: the granted timestamps are unique, the three
  constraints that \<open>updateTimestamp\<close> promises in its comment, and when \<open>getRespTS\<close> returns.
\<close>

subsection \<open>The log of granted timestamps\<close>

text \<open>A response with logical part \<open>l\<close> to a request for \<open>count\<close> timestamps grants \<open>l - count + 1 .. l\<close>.\<close>

definition granted :: "Timestamp \<times> u32 \<Rightarrow> (int \<times> int) set" where
  "granted g = {(Physical (fst g), l) | l. sint (Logical (fst g)) - uint (snd g) < l \<and> l \<le> sint (Logical (fst g))}"

definition from_object :: "ts_heap \<Rightarrow> Timestamp \<times> u32 \<Rightarrow> bool" where
  "from_object h g \<longleftrightarrow> (\<exists>i < length h. ao_physical (h ! i) \<noteq> zero_time \<and>
     Physical (fst g) = ao_physical (h ! i) div Millisecond \<and> sint (Logical (fst g)) \<le> sint (ao_logical (h ! i)))"

definition log_inv :: "ts_heap \<Rightarrow> (Timestamp \<times> u32) list \<Rightarrow> bool" where
  "log_inv h l \<longleftrightarrow> (\<forall>obj \<in> set h. 0 \<le> sint (ao_logical obj)) \<and> (\<forall>g \<in> set l. from_object h g) \<and>
     sorted_wrt (\<lambda>g g'. granted g \<inter> granted g' = {}) l"

lemma log_inv_append: "log_inv h l \<Longrightarrow> ao_logical obj = 0 \<Longrightarrow> log_inv (h @ [obj]) l"
  unfolding log_inv_def from_object_def by (auto simp: nth_append)

lemma other_events_grow:
  assumes "\<And>i count. ev \<noteq> Request i count"
  shows "sys_log (tso_apply et root iv ev sys) = sys_log sys \<and>
    (sys_heap (tso_apply et root iv ev sys) = sys_heap sys \<or>
     (\<exists>t. sys_heap (tso_apply et root iv ev sys) = sys_heap sys @ [\<lparr>ao_physical = t, ao_logical = 0\<rparr>]))"
  using assms
  by (cases ev) (auto simp: set_phase_def set_server_def clear_ts_def store_ts_def sync_after_load_def
      updateTimestamp_def Let_def split: prod.splits sum.splits phase.splits option.splits)

lemma apart_nth:
  assumes "sorted_wrt apart xs" "i < length xs" "j < length xs" "i \<noteq> j"
  shows "apart (xs ! i) (xs ! j)"
proof (cases "i < j")
  case True
  then show ?thesis using assms sorted_wrt_nth_less [of apart xs i j] by simp
next
  case False
  then have "apart (xs ! j) (xs ! i)" using assms sorted_wrt_nth_less [of apart xs j i] by simp
  then show ?thesis by (auto simp: apart_def)
qed

lemma apart_div:
  "apart x y \<Longrightarrow> x \<noteq> zero_time \<Longrightarrow> y \<noteq> zero_time \<Longrightarrow> x div Millisecond \<noteq> y div Millisecond"
proof -
  have "a div Millisecond < b div Millisecond" if "a + Millisecond \<le> b" for a b
  proof -
    have "(a + Millisecond) div Millisecond = a div Millisecond + 1" by (simp add: Millisecond_def)
    moreover have "(a + Millisecond) div Millisecond \<le> b div Millisecond"
      using that by (intro zdiv_mono1) simp_all
    ultimately show ?thesis by linarith
  qed
  then show "apart x y \<Longrightarrow> x \<noteq> zero_time \<Longrightarrow> y \<noteq> zero_time \<Longrightarrow> x div Millisecond \<noteq> y div Millisecond"
    unfolding apart_def by (metis less_irrefl)
qed

lemma sint_add_count:
  "0 \<le> sint l \<Longrightarrow> sint l + uint (c :: u32) < 2 ^ 63 \<Longrightarrow> sint (l + ucast c :: i64) = sint l + uint c"
proof -
  assume l: "0 \<le> sint l" "sint l + uint c < 2 ^ 63"
  have "l + ucast c = word_of_int (sint l + uint c)" by (simp add: unsigned_ucast_eq)
  then have "sint (l + ucast c) = wrap64 (sint l + uint c)" by (simp add: wrap64_def)
  also have "\<dots> = sint l + uint c" using l uint_nonnegative [of c] by (intro wrap64_id) linarith+
  finally show ?thesis .
qed

lemma Request_log:
  assumes log: "log_inv h l" and i: "i < length h" "ao_physical (h ! i) \<noteq> zero_time"
    and used: "sorted_wrt apart (map ao_physical h)" and range: "0 \<le> ao_physical (h ! i)" "ao_physical (h ! i) < 2 ^ 63"
    and count: "count \<noteq> 0" "sint (ao_logical (h ! i)) + uint count < 2 ^ 63" and add: "addTS h i count = (h', r)"
  shows "log_inv h' (case r of None \<Rightarrow> l | Some resp \<Rightarrow> (resp, count) # l)"
proof -
  define lg where "lg = ao_logical (h ! i)"
  have nonneg: "0 \<le> sint lg" using log i by (simp add: log_inv_def lg_def)
  have sum: "sint (lg + ucast count) = sint lg + uint count"
    using count(2) nonneg by (intro sint_add_count) (simp_all add: lg_def)
  have h': "h' = h[i := (h ! i)\<lparr>ao_logical := lg + ucast count\<rparr>]"
    using add by (simp add: addTS_def Let_def lg_def split: if_splits)
  have mono: "sint (ao_logical (h ! j)) \<le> sint (ao_logical (h' ! j))"
    "ao_physical (h' ! j) = ao_physical (h ! j)" if "j < length h" for j
    using that sum i by (auto simp: h' nth_list_update lg_def)
  have len: "length h' = length h" by (simp add: h')
  have old: "from_object h' g" if "from_object h g" for g
  proof -
    from that obtain j where "j < length h" "ao_physical (h ! j) \<noteq> zero_time"
      "Physical (fst g) = ao_physical (h ! j) div Millisecond" "sint (Logical (fst g)) \<le> sint (ao_logical (h ! j))"
      unfolding from_object_def by blast
    then show ?thesis unfolding from_object_def using mono [of j] len by (intro exI [of _ j]) simp
  qed
  have "\<forall>obj \<in> set h'. 0 \<le> sint (ao_logical obj)"
    using log nonneg sum set_update_subset_insert [of h i "(h ! i)\<lparr>ao_logical := lg + ucast count\<rparr>"]
    unfolding h' log_inv_def by force
  moreover have "from_object h' (resp, count) \<and> (\<forall>g \<in> set l. granted (resp, count) \<inter> granted g = {})" if r: "r = Some resp" for resp
  proof
    have resp: "Logical resp = lg + ucast count" "Physical resp = ao_physical (h ! i) div Millisecond"
      using add r range unfolding addTS_def Let_def lg_def
      by (auto simp: UnixNano_def wrap64_id signed_divide_int_def sgn_if Millisecond_def split: if_splits)
    then show "from_object h' (resp, count)" using i len h' unfolding from_object_def by auto
    show "\<forall>g \<in> set l. granted (resp, count) \<inter> granted g = {}"
    proof
      fix g assume "g \<in> set l"
      then obtain j where j: "j < length h" "ao_physical (h ! j) \<noteq> zero_time"
        "Physical (fst g) = ao_physical (h ! j) div Millisecond" "sint (Logical (fst g)) \<le> sint (ao_logical (h ! j))"
        using log by (auto simp: log_inv_def from_object_def)
      show "granted (resp, count) \<inter> granted g = {}"
      proof (cases "j = i")
        case True
        then show ?thesis using j(4) resp(1) sum by (auto simp: granted_def lg_def)
      next
        case False
        then have "apart (ao_physical (h ! j)) (ao_physical (h ! i))"
          using apart_nth [OF used, of j i] i j(1) by simp
        then have "Physical (fst g) \<noteq> Physical resp" using apart_div j(2,3) i(2) resp(2) by simp
        then show ?thesis by (auto simp: granted_def)
      qed
    qed
  qed
  ultimately show ?thesis using log old by (auto simp: log_inv_def split: option.splits)
qed

context etcd_contract
begin

lemma tso_reach_log: "tso_reach et view root iv sys \<Longrightarrow> interval_ok iv \<Longrightarrow> log_inv (sys_heap sys) (sys_log sys)"
proof (induction rule: tso_reach.induct)
  case (start e)
  then show ?case by (simp add: tso_init_def log_inv_def)
next
  case (step sys ev)
  then have IH: "log_inv (sys_heap sys) (sys_log sys)" by blast
  show ?case
  proof (cases "\<exists>i count. ev = Request i count")
    case False
    then show ?thesis
      using other_events_grow [of ev et root iv sys] log_inv_append [OF IH] IH by auto
  next
    case True
    then obtain i count where ev: "ev = Request i count" by blast
    show ?thesis
    proof (cases "count \<noteq> 0 \<and> i < length (sys_heap sys) \<and> ao_physical (sys_heap sys ! i) \<noteq> zero_time")
      case False
      then show ?thesis using IH ev by auto
    next
      case ok: True
      have "win_inv (abs_win view root sys)" using tso_reach_inv [OF step.hyps(1) step.prems] by (simp add: tso_inv_def)
      then have "sorted_wrt apart (map ao_physical (sys_heap sys))"
        "0 \<le> ao_physical (sys_heap sys ! i)" "ao_physical (sys_heap sys ! i) + Millisecond \<le> saved_time (view (sys_etcd sys)) root"
        using ok usedD [of "abs_win view root sys" "ao_physical (sys_heap sys ! i)"]
        by (auto simp: win_inv_def used_inv_def abs_win_def)
      then show ?thesis
        using Request_log [OF IH, of i count] ok step.hyps ev
        by (auto simp: Millisecond_def split: prod.splits option.splits)
    qed
  qed
qed

end

subsection \<open>Executable runs\<close>

fun run_ok :: "'e etcd \<Rightarrow> ('e \<Rightarrow> etcd_view) \<Rightarrow> string \<Rightarrow> duration \<Rightarrow> tso_event list \<Rightarrow> 'e tso_sys \<Rightarrow> bool" where
  "run_ok et view root iv [] sys = True"
| "run_ok et view root iv (ev # evs) sys =
     (event_ok ev (sys_heap sys) \<and> saved_time (view (sys_etcd sys)) root < 2 ^ 62 \<and>
      run_ok et view root iv evs (tso_apply et root iv ev sys))"

lemma run_reach:
  "tso_reach et view root iv sys \<Longrightarrow> run_ok et view root iv evs sys \<Longrightarrow>
     tso_reach et view root iv (fold (tso_apply et root iv) evs sys)"
proof (induction evs arbitrary: sys)
  case (Cons ev evs)
  then have "tso_reach et view root iv (tso_apply et root iv ev sys)" by (intro tso_reach.step) simp_all
  with Cons show ?case by simp
qed simp

text \<open>
  Two leaders. Server \<open>[1]\<close> leads and grants three timestamps; its lease ends without its noticing;
  server \<open>[2]\<close> takes over, and while it grants two, the first server grants one more.
\<close>

definition takeover :: "tso_event list" where
  "takeover = [Campaign [1], Load [1], Sync [1] 1600000000000000000, Request 0 3, Expire,
     Campaign [2], Load [2], Sync [2] 1600000001000000000, Request 1 2, Request 0 1]"

definition takeover_end :: "script_etcd tso_sys" where
  "takeover_end = fold (tso_apply script_etcd ''/pd'' (3 * Second)) takeover (tso_init ''/pd'' (3 * Second) ([], []))"

definition current_physical :: "'e tso_sys \<Rightarrow> bytes \<Rightarrow> time" where
  "current_physical sys p = ao_physical (sys_heap sys ! the (srv_ts (sys_srv sys p)))"

definition has_room :: "u32 \<Rightarrow> tso_server \<times> ts_heap \<Rightarrow> bool" where
  "has_room count st \<longleftrightarrow> (case srv_ts (fst st) of None \<Rightarrow> False
     | Some i \<Rightarrow> ao_physical (snd st ! i) \<noteq> zero_time \<and> \<not> maxLogical \<le>s ao_logical (snd st ! i) + ucast count)"

lemma loop_unfold: "getRespTS_loop env count 99 (s, h) =
    (case getRespTS_round s h count of
       (h, Some resp) \<Rightarrow> ((s, h), Inr resp) | (h, None) \<Rightarrow> getRespTS_loop env count 98 (env 98 (s, h)))"
  using getRespTS_loop.simps(2) [of env count 98 s h] by simp

lemma getRespTS_unfold: "getRespTS env count (s, h) =
    (if count = 0 then ((s, h), Inl ErrTsoCount)
     else case getRespTS_round s h count of
       (h, Some resp) \<Rightarrow> ((s, h), Inr resp) | (h, None) \<Rightarrow> getRespTS_loop env count 99 (env 99 (s, h)))"
  using getRespTS_loop.simps(2) [of env count 99 s h] by (simp add: getRespTS_def maxRetryCount_def)

lemma sint_maxLogical: "sint maxLogical = 2 ^ 18"
  by (simp add: maxLogical_def push_bit_eq_mult)

lemma getRespTS_loop_bound: "getRespTS_loop env count n st = (st', Inr resp) \<Longrightarrow> sint (Logical resp) < 2 ^ 18"
  by (induction env count n st rule: getRespTS_loop.induct)
    (auto simp: getRespTS_round_def addTS_def Let_def word_sle_eq sint_maxLogical split: option.splits if_splits prod.splits)

subsection \<open>Properties\<close>



text \<open>
  (C28) \<open>getRespTS\<close>: a request for no timestamps is refused and changes nothing; a response is for
  a positive count and stays below \<open>maxLogical\<close>; and when the current object is synced and has
  room, the request is served in the first round with the next \<open>count\<close> numbers.
\<close>
theorem getRespTS_bounds:
  "getRespTS env 0 st = (st, Inl ErrTsoCount) \<and>
   (getRespTS env count st = (st', Inr resp) \<longrightarrow> count \<noteq> 0 \<and> sint (Logical resp) < 2 ^ 18) \<and>
   (count \<noteq> 0 \<and> srv_ts s = Some i \<and> ao_physical (h ! i) \<noteq> zero_time \<and> 0 \<le> sint (ao_logical (h ! i)) \<and>
      sint (ao_logical (h ! i)) + uint count < 2 ^ 18 \<longrightarrow>
    getRespTS env count (s, h) =
      ((s, h[i := (h ! i)\<lparr>ao_logical := ao_logical (h ! i) + ucast count\<rparr>]),
       Inr \<lparr>Physical = UnixNano (ao_physical (h ! i)) sdiv Millisecond, Logical = ao_logical (h ! i) + ucast count\<rparr>))"
proof (intro conjI impI)
  show "getRespTS env 0 st = (st, Inl ErrTsoCount)" by (simp add: getRespTS_def)
  assume "getRespTS env count st = (st', Inr resp)"
  then show "count \<noteq> 0" "sint (Logical resp) < 2 ^ 18"
    using getRespTS_loop_bound by (auto simp: getRespTS_def split: if_splits)
next
  assume *: "count \<noteq> 0 \<and> srv_ts s = Some i \<and> ao_physical (h ! i) \<noteq> zero_time \<and> 0 \<le> sint (ao_logical (h ! i)) \<and>
    sint (ao_logical (h ! i)) + uint count < 2 ^ 18"
  then have "sint (ao_logical (h ! i) + ucast count) = sint (ao_logical (h ! i)) + uint count"
    by (intro sint_add_count) simp_all
  with * have "\<not> maxLogical \<le>s ao_logical (h ! i) + ucast count" by (simp add: word_sle_eq sint_maxLogical)
  with * show "getRespTS env count (s, h) =
      ((s, h[i := (h ! i)\<lparr>ao_logical := ao_logical (h ! i) + ucast count\<rparr>]),
       Inr \<lparr>Physical = UnixNano (ao_physical (h ! i)) sdiv Millisecond, Logical = ao_logical (h ! i) + ucast count\<rparr>)"
    by (simp add: getRespTS_unfold getRespTS_round_def addTS_def Let_def)
qed


text \<open>
  (C30) The first sync of a new cluster goes wrong from December 2046 on: with no saved timestamp the
  difference to the zero time overflows, the code takes the clock to be behind, and the physical
  time it starts from is one millisecond after the zero time, not the clock.
\<close>
theorem first_sync_overflows:
  assumes "etcd_contract et view" "view e (getTimestampPath s) = None"
    and "2428007457983430656 \<le> now" "now < 2 ^ 63"
    and "syncTimestamp et s e h now = (e', Inr (s', h'))"
  shows "h' = h @ [\<lparr>ao_physical = zero_time + Millisecond, ao_logical = 0\<rparr>]"
proof -
  obtain e1 where load: "loadTimestamp et s e = (e1, Inr zero_time)"
    using assms(5) etcd_contract.loadTimestamp_view [OF assms(1), of s e] assms(2)
    by (fastforce simp: syncTimestamp_def split: prod.splits sum.splits)
  have "wrap64 (now + 6795364578871345152) = now + 6795364578871345152 - 2 ^ 64"
  proof -
    have "word_of_int (now + 6795364578871345152) = (word_of_int (now + 6795364578871345152 - 2 ^ 64) :: 64 word)"
      by (simp add: word_of_int_eq_iff take_bit_eq_mod)
    then have "wrap64 (now + 6795364578871345152) = wrap64 (now + 6795364578871345152 - 2 ^ 64)"
      by (simp only: wrap64_def)
    also have "\<dots> = now + 6795364578871345152 - 2 ^ 64" by (rule wrap64_id) (use assms(3,4) in simp_all)
    finally show ?thesis .
  qed
  moreover have "UnixNano now = now" using assms(3,4) by (simp add: UnixNano_def wrap64_id)
  ultimately have "subTimeByWallClock now zero_time < updateTimestampGuard"
    using assms(4) unfolding subTimeByWallClock_def UnixNano_zero_time
    by (simp add: updateTimestampGuard_def Millisecond_def)
  with assms(5) load show ?thesis
    by (auto simp: syncTimestamp_def sync_after_load_def Let_def store_ts_def updateTimestampGuard_def
        split: prod.splits sum.splits)
qed

subsection \<open>Instances\<close>

lemma takeover_reach: "tso_reach script_etcd (\<lambda>e. map_of (fst e)) ''/pd'' (3 * Second) takeover_end"
  unfolding takeover_end_def
proof (rule run_reach)
  show "tso_reach script_etcd (\<lambda>e. map_of (fst e)) ''/pd'' (3 * Second) (tso_init ''/pd'' (3 * Second) ([], []))"
    by (rule tso_reach.start) simp_all
  show "run_ok script_etcd (\<lambda>e. map_of (fst e)) ''/pd'' (3 * Second) takeover (tso_init ''/pd'' (3 * Second) ([], []))"
    by code_simp
qed

lemma interval_ok_3s: "interval_ok (3 * Second)"
  by (simp add: interval_ok_def Second_def Millisecond_def)



theorem getRespTS_bounds_witness:
  "getRespTS (\<lambda>_ st. st) 7 ((new_server ''/pd'' (3 * Second) [1])\<lparr>srv_ts := Some 0\<rparr>,
      [\<lparr>ao_physical = 1600000000000000000, ao_logical = 5\<rparr>]) =
   (((new_server ''/pd'' (3 * Second) [1])\<lparr>srv_ts := Some 0\<rparr>, [\<lparr>ao_physical = 1600000000000000000, ao_logical = 12\<rparr>]),
    Inr \<lparr>Physical = 1600000000000, Logical = 12\<rparr>)"
proof -
  have phys: "UnixNano 1600000000000000000 sdiv Millisecond = 1600000000000" by code_simp
  show ?thesis
    using getRespTS_bounds [of "\<lambda>_ st. st" _ 7 _ _ "(new_server ''/pd'' (3 * Second) [1])\<lparr>srv_ts := Some 0\<rparr>" 0
      "[\<lparr>ao_physical = 1600000000000000000, ao_logical = 5\<rparr>]"] phys
    by (simp add: zero_time_def)
qed


theorem first_sync_overflows_witness:
  "\<exists>e' s'. syncTimestamp script_etcd (new_server ''/pd'' (3 * Second) [1]) ([(''/pd/leader'', [1])], []) [] 2500000000000000000 =
     (e', Inr (s', [\<lparr>ao_physical = zero_time + Millisecond, ao_logical = 0\<rparr>]))"
proof -
  let ?s = "new_server ''/pd'' (3 * Second) [1]" and ?e = "([(''/pd/leader'', [1])], []) :: script_etcd"
  have "case syncTimestamp script_etcd ?s ?e [] 2500000000000000000 of (_, Inl _) \<Rightarrow> False | (_, Inr _) \<Rightarrow> True" by code_simp
  then obtain e' s' h' where sync: "syncTimestamp script_etcd ?s ?e [] 2500000000000000000 = (e', Inr (s', h'))"
    by (auto split: prod.splits sum.splits)
  have none: "map_of (fst ?e) (getTimestampPath ?s) = None" by code_simp
  have "h' = [] @ [\<lparr>ao_physical = zero_time + Millisecond, ao_logical = 0\<rparr>]"
    by (rule first_sync_overflows [OF script.etcd_contract_axioms none _ _ sync]) simp_all
  with sync show ?thesis by simp
qed

end
