(* ===== verification/IdAlloc.thy ===== *)
theory IdAlloc
  imports Etcd
begin

text \<open>
  \<open>server/id.go\<close>: unique ids. A server reserves blocks of \<open>allocStep\<close> ids by moving a bound in etcd
  with a compare-and-set transaction that also checks the leader key, and hands the block out from
  memory. The theorem is about a cluster of servers whose steps interleave: no id is given out
  twice.
\<close>

subsection \<open>The code\<close>

definition allocStep :: u64 where
  "allocStep = 1000"

record idAllocator =
  alloc_base :: u64
  alloc_end :: u64

text \<open>\<open>generate\<close> after its read of the stored value.\<close>

definition generate_commit :: "'e etcd \<Rightarrow> 'z Server_scheme \<Rightarrow> 'e \<Rightarrow> bytes option \<Rightarrow> 'e \<times> (server_error + u64)" where
  "generate_commit et s e value =
     (let key = getAllocIDPath s
      in case (case value of
                 None \<Rightarrow> Inr (CreateRevisionZero key, 0)
               | Some v \<Rightarrow> (case bytesToUint64 v of Inl err \<Rightarrow> Inl err | Inr n \<Rightarrow> Inr (ValueEquals key v, n))) of
           Inl err \<Rightarrow> (e, Inl err)
         | Inr (cmp, end') \<Rightarrow>
             (let end' = end' + allocStep
              in case LeaderTxn et s e [cmp] [OpPut key (uint64ToBytes end')] of
                   (e, Inl err) \<Rightarrow> (e, Inl (ErrEtcd err))
                 | (e, Inr succeeded) \<Rightarrow> (e, if succeeded then Inr end' else Inl ErrGenerateID)))"

definition generate :: "'e etcd \<Rightarrow> 'z Server_scheme \<Rightarrow> 'e \<Rightarrow> 'e \<times> (server_error + u64)" where
  "generate et s e =
     (case getValue et e (getAllocIDPath s) of
        (e, Inl err) \<Rightarrow> (e, Inl err)
      | (e, Inr value) \<Rightarrow> generate_commit et s e value)"

text \<open>\<open>Alloc\<close>, with the call of \<open>generate\<close> as an argument.\<close>

definition Alloc_with :: "('e \<Rightarrow> 'e \<times> (server_error + u64)) \<Rightarrow> idAllocator \<Rightarrow> 'e \<Rightarrow>
    'e \<times> idAllocator \<times> (server_error + u64)" where
  "Alloc_with gen alloc e =
     (case if alloc_base alloc = alloc_end alloc
           then (case gen e of
                   (e, Inl err) \<Rightarrow> (e, Inl err)
                 | (e, Inr end') \<Rightarrow> (e, Inr \<lparr>alloc_base = end' - allocStep, alloc_end = end'\<rparr>))
           else (e, Inr alloc) of
        (e, Inl err) \<Rightarrow> (e, alloc, Inl err)
      | (e, Inr alloc) \<Rightarrow>
          (let alloc = alloc\<lparr>alloc_base := alloc_base alloc + 1\<rparr>
           in (e, alloc, Inr (alloc_base alloc))))"

definition Alloc :: "'e etcd \<Rightarrow> 'z Server_scheme \<Rightarrow> idAllocator \<Rightarrow> 'e \<Rightarrow>
    'e \<times> idAllocator \<times> (server_error + u64)" where
  "Alloc et s alloc e = Alloc_with (generate et s) alloc e"

subsection \<open>The cluster\<close>

text \<open>
  A call of \<open>Alloc\<close> reads the stored value and later commits; other servers run in between, so in the
  cluster the commit works with any value read before, \<open>AllocID p value\<close>. Leader keys come and go.
\<close>

datatype id_event =
    AllocID bytes "bytes option"
  | IdCampaign bytes
  | IdExpire
  | IdRestart bytes

record 'e id_sys =
  ids_etcd :: 'e
  ids_alloc :: "bytes \<Rightarrow> idAllocator"
  ids_log :: "u64 list"

definition id_server :: "string \<Rightarrow> bytes \<Rightarrow> Server" where
  "id_server root p = \<lparr>srv_rootPath = root, srv_memberValue = p\<rparr>"

definition new_alloc :: idAllocator where
  "new_alloc = \<lparr>alloc_base = 0, alloc_end = 0\<rparr>"

fun id_apply :: "'e etcd \<Rightarrow> string \<Rightarrow> id_event \<Rightarrow> 'e id_sys \<Rightarrow> 'e id_sys" where
  "id_apply et root (AllocID p value) sys =
     (case Alloc_with (\<lambda>e. generate_commit et (id_server root p) e value) (ids_alloc sys p) (ids_etcd sys) of
        (e, alloc, r) \<Rightarrow>
          sys\<lparr>ids_etcd := e, ids_alloc := (ids_alloc sys)(p := alloc),
              ids_log := (case r of Inl _ \<Rightarrow> ids_log sys | Inr i \<Rightarrow> i # ids_log sys)\<rparr>)"
| "id_apply et root (IdCampaign p) sys = sys\<lparr>ids_etcd := fst (campaign_txn et (id_server root p) (ids_etcd sys))\<rparr>"
| "id_apply et root IdExpire sys = sys\<lparr>ids_etcd := et_Expire et (ids_etcd sys) (path_Join root ''leader'')\<rparr>"
| "id_apply et root (IdRestart p) sys = sys\<lparr>ids_alloc := (ids_alloc sys)(p := new_alloc)\<rparr>"

text \<open>The stored bound; the runs considered stop before it leaves 64 bits.\<close>

definition stored_end :: "etcd_view \<Rightarrow> string \<Rightarrow> nat" where
  "stored_end m root = (case m (path_Join root ''alloc_id'') of None \<Rightarrow> 0 | Some b \<Rightarrow> unat (be_uint b))"

inductive id_reach :: "'e etcd \<Rightarrow> ('e \<Rightarrow> etcd_view) \<Rightarrow> string \<Rightarrow> 'e id_sys \<Rightarrow> bool" for et view root where
  start: "view e (path_Join root ''alloc_id'') = None \<Longrightarrow>
    id_reach et view root \<lparr>ids_etcd = e, ids_alloc = (\<lambda>_. new_alloc), ids_log = []\<rparr>"
| step: "id_reach et view root sys \<Longrightarrow> stored_end (view (ids_etcd sys)) root + 1000 < 2 ^ 64 \<Longrightarrow>
    id_reach et view root (id_apply et root ev sys)"

subsection \<open>The invariant\<close>

text \<open>The ids a server still has in memory.\<close>

definition reserved :: "idAllocator \<Rightarrow> nat set" where
  "reserved a = {unat (alloc_base a) <.. unat (alloc_end a)}"

definition id_inv :: "etcd_view \<Rightarrow> string \<Rightarrow> (bytes \<Rightarrow> idAllocator) \<Rightarrow> u64 list \<Rightarrow> bool" where
  "id_inv m root al l \<longleftrightarrow>
     (\<forall>b. m (path_Join root ''alloc_id'') = Some b \<longrightarrow> (\<exists>n. b = uint64ToBytes n)) \<and>
     (\<forall>p. unat (alloc_base (al p)) \<le> unat (alloc_end (al p)) \<and> unat (alloc_end (al p)) \<le> stored_end m root) \<and>
     (\<forall>p q. p \<noteq> q \<longrightarrow> reserved (al p) \<inter> reserved (al q) = {}) \<and>
     (\<forall>i \<in> set l. 0 < i \<and> unat i \<le> stored_end m root \<and> (\<forall>p. unat i \<notin> reserved (al p))) \<and> distinct l"

lemma id_invD:
  assumes "id_inv m root al l"
  shows "m (path_Join root ''alloc_id'') = Some b \<Longrightarrow> \<exists>n. b = uint64ToBytes n"
    and "unat (alloc_base (al p)) \<le> unat (alloc_end (al p))" and "unat (alloc_end (al p)) \<le> stored_end m root"
    and "p \<noteq> q \<Longrightarrow> reserved (al p) \<inter> reserved (al q) = {}"
    and "i \<in> set l \<Longrightarrow> 0 < i \<and> unat i \<le> stored_end m root \<and> (\<forall>p. unat i \<notin> reserved (al p))"
    and "distinct l"
  using assms unfolding id_inv_def by blast+

lemma id_invI:
  assumes "\<And>b. m (path_Join root ''alloc_id'') = Some b \<Longrightarrow> \<exists>n. b = uint64ToBytes n"
    and "\<And>p. unat (alloc_base (al p)) \<le> unat (alloc_end (al p)) \<and> unat (alloc_end (al p)) \<le> stored_end m root"
    and "\<And>p q. p \<noteq> q \<Longrightarrow> reserved (al p) \<inter> reserved (al q) = {}"
    and "\<And>i. i \<in> set l \<Longrightarrow> 0 < i \<and> unat i \<le> stored_end m root"
    and "\<And>i p. i \<in> set l \<Longrightarrow> unat i \<notin> reserved (al p)" and "distinct l"
  shows "id_inv m root al l"
  unfolding id_inv_def using assms by simp

text \<open>The stored bound may grow by itself, when a transaction ran but was reported as an error.\<close>

lemma id_inv_grow:
  assumes "id_inv m root al l" "stored_end m root \<le> stored_end m' root"
    "\<And>b. m' (path_Join root ''alloc_id'') = Some b \<Longrightarrow> \<exists>n. b = uint64ToBytes n"
  shows "id_inv m' root al l"
  using assms unfolding id_inv_def by (meson order_trans)

text \<open>Taking the next id out of memory.\<close>

lemma id_inv_take:
  assumes inv: "id_inv m root al l" and ne: "alloc_base (al p) \<noteq> alloc_end (al p)"
    and a: "a = (al p)\<lparr>alloc_base := alloc_base (al p) + 1\<rparr>"
  shows "id_inv m root (al(p := a)) (alloc_base a # l)"
proof -
  have less: "unat (alloc_base (al p)) < unat (alloc_end (al p))"
    using id_invD(2) [OF inv, of p] ne by (metis le_neq_implies_less word_unat_eq_iff)
  moreover have "unat (alloc_end (al p)) < 2 ^ LENGTH(64)" by (rule unsigned_less)
  ultimately have suc: "unat (alloc_base a) = Suc (unat (alloc_base (al p)))"
    by (simp add: a unat_word_ariths)
  have sub: "reserved a \<subseteq> reserved (al p)" and new: "unat (alloc_base a) \<in> reserved (al p)" "unat (alloc_base a) \<notin> reserved a"
    using less suc by (auto simp: reserved_def a)
  have al: "reserved ((al(p := a)) q) \<subseteq> reserved (al q)" for q using sub by simp
  have new_q: "unat (alloc_base a) \<notin> reserved ((al(p := a)) q)" for q
    using id_invD(4) [OF inv, of p q] new by (cases "q = p") auto
  have bounds: "unat (alloc_base ((al(p := a)) q)) \<le> unat (alloc_end ((al(p := a)) q))"
    "unat (alloc_end ((al(p := a)) q)) \<le> stored_end m root" for q
    using id_invD(2,3) [OF inv, of q] less suc by (auto simp: a)
  have i: "0 < alloc_base a" using suc by (simp add: word_less_nat_alt)
  show ?thesis
  proof (rule id_invI)
    show "reserved ((al(p := a)) q) \<inter> reserved ((al(p := a)) q') = {}" if "q \<noteq> q'" for q q'
      using id_invD(4) [OF inv that] al [of q] al [of q'] by blast
    show "0 < i \<and> unat i \<le> stored_end m root" if "i \<in> set (alloc_base a # l)" for i
      using that id_invD(5) [OF inv, of i] i bounds [of p] by auto
    show "unat i \<notin> reserved ((al(p := a)) q)" if "i \<in> set (alloc_base a # l)" for i q
      using that id_invD(5) [OF inv, of i] new_q [of q] al [of q] by auto
    show "distinct (alloc_base a # l)" using id_invD(5,6) [OF inv] new(1) by auto
  qed (use id_invD(1) [OF inv] bounds in auto)
qed

text \<open>A new block above the stored bound.\<close>

lemma id_inv_block:
  assumes inv: "id_inv m root al l" and e: "unat end' = stored_end m root + 1000"
    and m': "m' (path_Join root ''alloc_id'') = Some (uint64ToBytes end')"
  shows "id_inv m' root (al(p := \<lparr>alloc_base = end' - allocStep, alloc_end = end'\<rparr>)) l"
proof -
  let ?a = "\<lparr>alloc_base = end' - allocStep, alloc_end = end'\<rparr>"
  have E: "stored_end m' root = stored_end m root + 1000" using m' e by (simp add: stored_end_def)
  have "allocStep \<le> end'" using e by (simp add: allocStep_def word_le_nat_alt)
  then have base: "unat (end' - allocStep) = stored_end m root" using e by (simp add: unat_sub allocStep_def)
  then have res: "reserved ?a = {stored_end m root <.. stored_end m root + 1000}" using e by (simp add: reserved_def)
  have below: "x \<le> stored_end m root" if "x \<in> reserved (al q)" for x q
    using that id_invD(3) [OF inv, of q] by (auto simp: reserved_def)
  show ?thesis
  proof (rule id_invI)
    show "reserved ((al(p := ?a)) q) \<inter> reserved ((al(p := ?a)) q') = {}" if "q \<noteq> q'" for q q'
      using that id_invD(4) [OF inv, of q q'] below res by (cases "q = p"; cases "q' = p") fastforce+
    show "unat i \<notin> reserved ((al(p := ?a)) q)" if "i \<in> set l" for i q
      using id_invD(5) [OF inv that] res by (cases "q = p") auto
    show "unat (alloc_base ((al(p := ?a)) q)) \<le> unat (alloc_end ((al(p := ?a)) q)) \<and>
        unat (alloc_end ((al(p := ?a)) q)) \<le> stored_end m' root" for q
      using id_invD(2,3) [OF inv, of q] base e E by (cases "q = p") auto
    show "0 < i \<and> unat i \<le> stored_end m' root" if "i \<in> set l" for i
      using id_invD(5) [OF inv that] E by simp
    show "distinct l" by (rule id_invD(6) [OF inv])
    show "\<exists>n. b = uint64ToBytes n" if "m' (path_Join root ''alloc_id'') = Some b" for b
      using that m' by auto
  qed
qed

context etcd_contract
begin

text \<open>What a call of \<open>generate\<close> does to etcd, whatever value it works with.\<close>

lemma generate_commit_view:
  assumes g: "generate_commit et s e value = (e', r)"
    and wf: "\<And>b. view e (getAllocIDPath s) = Some b \<Longrightarrow> \<exists>n. b = uint64ToBytes n"
  shows "(view e' = view e \<and> (\<exists>err. r = Inl err)) \<or>
    (\<exists>n. n = (case view e (getAllocIDPath s) of None \<Rightarrow> 0 | Some b \<Rightarrow> be_uint b) + allocStep \<and>
      view e' = (view e)(getAllocIDPath s := Some (uint64ToBytes n)) \<and> (r = Inr n \<or> (\<exists>err. r = Inl err)))"
proof -
  let ?k = "getAllocIDPath s"
  have txn: "view e' = view e \<and> (\<exists>err. r = Inl err) \<or> cmp_holds (view e) cmp \<and>
      view e' = (view e)(?k := Some (uint64ToBytes n)) \<and> (r = Inr n \<or> (\<exists>err. r = Inl err))"
    if "(case LeaderTxn et s e [cmp] [OpPut ?k (uint64ToBytes n)] of
           (e, Inl err) \<Rightarrow> (e, Inl (ErrEtcd err))
         | (e, Inr succeeded) \<Rightarrow> (e, if succeeded then Inr n else Inl ErrGenerateID)) = (e', r)" for cmp n
    using that LeaderTxn_ok [of s e "[cmp]" "[OpPut ?k (uint64ToBytes n)]" e']
      LeaderTxn_refused [of s e "[cmp]" "[OpPut ?k (uint64ToBytes n)]" e']
      LeaderTxn_error [of s e "[cmp]" "[OpPut ?k (uint64ToBytes n)]" e']
    by (auto simp: txn_apply_def split: prod.splits sum.splits if_splits)
  show ?thesis
  proof (cases "value")
    case None
    then have "(case LeaderTxn et s e [CreateRevisionZero ?k] [OpPut ?k (uint64ToBytes (0 + allocStep))] of
           (e, Inl err) \<Rightarrow> (e, Inl (ErrEtcd err))
         | (e, Inr succeeded) \<Rightarrow> (e, if succeeded then Inr (0 + allocStep) else Inl ErrGenerateID)) = (e', r)"
      using g by (simp add: generate_commit_def Let_def)
    from txn [OF this] show ?thesis by auto
  next
    case (Some v)
    show ?thesis
    proof (cases "bytesToUint64 v")
      case (Inl err)
      then have "e' = e" "r = Inl err" using g Some by (auto simp: generate_commit_def Let_def)
      then show ?thesis by simp
    next
      case (Inr n)
      then have "(case LeaderTxn et s e [ValueEquals ?k v] [OpPut ?k (uint64ToBytes (n + allocStep))] of
           (e, Inl err) \<Rightarrow> (e, Inl (ErrEtcd err))
         | (e, Inr succeeded) \<Rightarrow> (e, if succeeded then Inr (n + allocStep) else Inl ErrGenerateID)) = (e', r)"
        using g Some by (simp add: generate_commit_def Let_def)
      from txn [OF this] Inr wf show ?thesis by (auto simp: bytesToUint64_def split: if_splits)
    qed
  qed
qed

lemma AllocID_inv:
  assumes inv: "id_inv (view (ids_etcd sys)) root (ids_alloc sys) (ids_log sys)"
    and room: "stored_end (view (ids_etcd sys)) root + 1000 < 2 ^ 64"
    and sys': "sys' = id_apply et root (AllocID p value) sys"
  shows "id_inv (view (ids_etcd sys')) root (ids_alloc sys') (ids_log sys')"
proof (cases "alloc_base (ids_alloc sys p) = alloc_end (ids_alloc sys p)")
  case False
  then show ?thesis using id_inv_take [OF inv False refl] by (simp add: sys' Alloc_with_def Let_def)
next
  case True
  let ?k = "path_Join root ''alloc_id''" and ?m = "view (ids_etcd sys)"
  obtain e r where g: "generate_commit et (id_server root p) (ids_etcd sys) value = (e, r)" by fastforce
  define n where "n = (case ?m ?k of None \<Rightarrow> 0 | Some b \<Rightarrow> be_uint b) + allocStep"
  have path: "getAllocIDPath (id_server root p) = ?k" by (simp add: getAllocIDPath_def id_server_def)
  have gen: "(view e = ?m \<and> (\<exists>err. r = Inl err)) \<or>
      (view e = ?m(?k := Some (uint64ToBytes n)) \<and> (r = Inr n \<or> (\<exists>err. r = Inl err)))"
    using generate_commit_view [OF g] id_invD(1) [OF inv] unfolding path n_def by auto
  have n: "unat n = stored_end ?m root + 1000"
    using room by (auto simp: n_def stored_end_def allocStep_def unat_word_ariths split: option.splits)
  show ?thesis
  proof (cases r)
    case (Inl err)
    have "id_inv (view e) root (ids_alloc sys) (ids_log sys)"
      using gen id_invD(1) [OF inv] n by (intro id_inv_grow [OF inv]) (auto simp: stored_end_def)
    then show ?thesis using True g Inl by (simp add: sys' Alloc_with_def)
  next
    case (Inr end')
    then have e: "view e ?k = Some (uint64ToBytes n)" "end' = n" using gen by auto
    let ?al = "(ids_alloc sys)(p := \<lparr>alloc_base = n - allocStep, alloc_end = n\<rparr>)"
    have "id_inv (view e) root ?al (ids_log sys)" using e(1) by (intro id_inv_block [OF inv n])
    moreover have "alloc_base (?al p) \<noteq> alloc_end (?al p)" by (simp add: allocStep_def)
    ultimately show ?thesis
      using id_inv_take [of "view e" root ?al "ids_log sys" p] True g Inr e(2)
      by (simp add: sys' Alloc_with_def Let_def)
  qed
qed

lemma id_apply_inv:
  assumes inv: "id_inv (view (ids_etcd sys)) root (ids_alloc sys) (ids_log sys)"
    and room: "stored_end (view (ids_etcd sys)) root + 1000 < 2 ^ 64"
    and sys': "sys' = id_apply et root ev sys"
  shows "id_inv (view (ids_etcd sys')) root (ids_alloc sys') (ids_log sys')"
proof (cases ev)
  case (AllocID p v)
  then show ?thesis using AllocID_inv [OF inv room] sys' by simp
next
  case (IdCampaign p)
  let ?e = "fst (campaign_txn et (id_server root p) (ids_etcd sys))"
  have "view ?e (path_Join root ''alloc_id'') = view (ids_etcd sys) (path_Join root ''alloc_id'')"
    using campaign_other [of "id_server root p" "ids_etcd sys" ?e] by (simp add: getLeaderPath_def id_server_def prod_eq_iff)
  then have "id_inv (view ?e) root (ids_alloc sys) (ids_log sys)"
    using id_invD(1) [OF inv] by (intro id_inv_grow [OF inv]) (simp_all add: stored_end_def)
  then show ?thesis using IdCampaign sys' by simp
next
  case IdExpire
  let ?e = "et_Expire et (ids_etcd sys) (path_Join root ''leader'')"
  have "id_inv (view ?e) root (ids_alloc sys) (ids_log sys)"
    using id_invD(1) [OF inv] by (intro id_inv_grow [OF inv]) (simp_all add: stored_end_def expire_view)
  then show ?thesis using IdExpire sys' by simp
next
  case (IdRestart p)
  have "reserved new_alloc = {}" by (simp add: reserved_def new_alloc_def)
  then have "id_inv (view (ids_etcd sys)) root ((ids_alloc sys)(p := new_alloc)) (ids_log sys)"
    using id_invD [OF inv] by (intro id_invI) (auto simp: new_alloc_def)
  then show ?thesis using IdRestart sys' by simp
qed

lemma id_reach_inv: "id_reach et view root sys \<Longrightarrow> id_inv (view (ids_etcd sys)) root (ids_alloc sys) (ids_log sys)"
proof (induction rule: id_reach.induct)
  case (start e)
  then show ?case by (intro id_invI) (auto simp: new_alloc_def reserved_def)
next
  case (step sys ev)
  then show ?case using id_apply_inv by blast
qed

end

subsection \<open>Properties\<close>

text \<open>
  (C2) Ids are unique across the cluster: whatever the interleaving of allocations, elections,
  lost leases, failed transactions and restarts, no id is ever given out twice, none is zero, and
  all are covered by the bound stored in etcd.
\<close>
theorem ids_unique:
  assumes "etcd_contract et view" "id_reach et view root sys"
  shows "distinct (ids_log sys) \<and> 0 \<notin> set (ids_log sys) \<and>
    (\<forall>i \<in> set (ids_log sys). unat i \<le> stored_end (view (ids_etcd sys)) root)"
  using id_invD(5,6) [OF etcd_contract.id_reach_inv [OF assms]] by auto


text \<open>Two servers and an outdated read: \<open>[2]\<close> commits with a value read before \<open>[1]\<close> moved the bound.\<close>

definition two_allocators :: "script_etcd id_sys" where
  "two_allocators = fold (id_apply script_etcd ''/pd'')
     [IdCampaign [1], AllocID [1] None, AllocID [1] None, IdExpire, IdCampaign [2], AllocID [2] None,
      AllocID [2] (Some (uint64ToBytes 1000)), AllocID [1] None]
     \<lparr>ids_etcd = ([], []), ids_alloc = (\<lambda>_. new_alloc), ids_log = []\<rparr>"

fun id_run_ok :: "id_event list \<Rightarrow> script_etcd id_sys \<Rightarrow> bool" where
  "id_run_ok [] sys = True"
| "id_run_ok (ev # evs) sys =
     ((case map_of (fst (ids_etcd sys)) ''/pd/alloc_id'' of None \<Rightarrow> True | Some b \<Rightarrow> be_uint b < 18446744073709550616) \<and>
     id_run_ok evs (id_apply script_etcd ''/pd'' ev sys))"

lemma id_run_reach:
  "id_reach script_etcd (\<lambda>e. map_of (fst e)) ''/pd'' sys \<Longrightarrow> id_run_ok evs sys \<Longrightarrow>
     id_reach script_etcd (\<lambda>e. map_of (fst e)) ''/pd'' (fold (id_apply script_etcd ''/pd'') evs sys)"
proof (induction evs arbitrary: sys)
  case (Cons ev evs)
  then have "id_reach script_etcd (\<lambda>e. map_of (fst e)) ''/pd'' (id_apply script_etcd ''/pd'' ev sys)"
    by (intro id_reach.step) (auto simp: stored_end_def path_Join_def word_less_nat_alt split: option.splits)
  with Cons show ?case by simp
qed simp

theorem ids_unique_witness:
  "ids_log two_allocators = [3, 1001, 2, 1] \<and> distinct (ids_log two_allocators)"
proof -
  have "id_reach script_etcd (\<lambda>e. map_of (fst e)) ''/pd'' two_allocators"
    unfolding two_allocators_def
    by (rule id_run_reach, rule id_reach.start, simp) code_simp
  from ids_unique [OF script.etcd_contract_axioms this] have "distinct (ids_log two_allocators)" by blast
  moreover have "ids_log two_allocators = [3, 1001, 2, 1]" by code_simp
  ultimately show ?thesis by blast
qed

text \<open>An etcd that never fails.\<close>

definition map_etcd :: "etcd_view etcd" where
  "map_etcd = \<lparr>et_Get = (\<lambda>m k. (m, Inr (m k))),
     et_Commit = (\<lambda>m cs ops. (if txn_holds m cs then txn_apply ops m else m, Inr (txn_holds m cs))),
     et_Expire = (\<lambda>m k. m(k := None))\<rparr>"

interpretation reliable: etcd_contract map_etcd "\<lambda>m. m"
  by unfold_locales (auto simp: map_etcd_def)


end
