(* ===== verification/OperatorKind.thy ===== *)
theory OperatorKind
  imports Prelude
begin

text \<open>
  \<open>server/schedule/operator_kind.go\<close>: the bit field of operator kinds and its text form. The theorem:
  parsing the printed kind gives the kind back.
\<close>

unbundle bit_operations_syntax

type_synonym OperatorKind = u32

definition OpLeader :: OperatorKind where "OpLeader = 1"
definition OpRegion :: OperatorKind where "OpRegion = 2"
definition OpAdmin :: OperatorKind where "OpAdmin = 4"
definition OpHotRegion :: OperatorKind where "OpHotRegion = 8"
definition OpAdjacent :: OperatorKind where "OpAdjacent = 16"
definition OpReplica :: OperatorKind where "OpReplica = 32"
definition OpBalance :: OperatorKind where "OpBalance = 64"
definition OpMerge :: OperatorKind where "OpMerge = 128"
definition OpRange :: OperatorKind where "OpRange = 256"

lemmas kind_defs = OpLeader_def OpRegion_def OpAdmin_def OpHotRegion_def OpAdjacent_def OpReplica_def
  OpBalance_def OpMerge_def OpRange_def

definition flagToName :: "(OperatorKind \<times> string) list" where
  "flagToName = [(OpLeader, ''leader''), (OpRegion, ''region''), (OpAdmin, ''admin''),
     (OpHotRegion, ''hot-region''), (OpAdjacent, ''adjacent''), (OpReplica, ''replica''),
     (OpBalance, ''balance''), (OpMerge, ''merge''), (OpRange, ''range'')]"

definition nameToFlag :: "(string \<times> OperatorKind) list" where
  "nameToFlag = [(''leader'', OpLeader), (''region'', OpRegion), (''admin'', OpAdmin),
     (''hot-region'', OpHotRegion), (''adjacent'', OpAdjacent), (''replica'', OpReplica),
     (''balance'', OpBalance), (''merge'', OpMerge), (''range'', OpRange)]"

text \<open>\<open>strings.Join\<close> and \<open>strings.Split\<close> with a one-character separator.\<close>

fun strings_Join :: "string list \<Rightarrow> char \<Rightarrow> string" where
  "strings_Join [] sep = []"
| "strings_Join [s] sep = s"
| "strings_Join (s # t # ss) sep = s @ sep # strings_Join (t # ss) sep"

fun split_loop :: "char \<Rightarrow> string \<Rightarrow> string \<Rightarrow> string list" where
  "split_loop sep acc [] = [acc]"
| "split_loop sep acc (c # cs) =
     (if c = sep then acc # split_loop sep [] cs else split_loop sep (acc @ [c]) cs)"

definition strings_Split :: "string \<Rightarrow> char \<Rightarrow> string list" where
  "strings_Split s sep = split_loop sep [] s"

text \<open>The loop visits the flags \<open>1\<close>, \<open>2\<close>, \<open>4\<close>, ... below \<open>opMax\<close>, in this order.\<close>

definition OperatorKind_String :: "OperatorKind \<Rightarrow> string" where
  "OperatorKind_String k =
     (let flagNames = map snd (filter (\<lambda>(flag, name). k AND flag \<noteq> 0) flagToName)
      in if flagNames = [] then ''unknown'' else strings_Join flagNames CHR '','')"

fun Parse_loop :: "OperatorKind \<Rightarrow> string list \<Rightarrow> string + OperatorKind" where
  "Parse_loop k [] = Inr k"
| "Parse_loop k (flagName # names) =
     (case map_of nameToFlag flagName of
        None \<Rightarrow> Inl flagName
      | Some flag \<Rightarrow> Parse_loop (k OR flag) names)"

text \<open>The error carries the unknown name.\<close>

definition ParseOperatorKind :: "string \<Rightarrow> string + OperatorKind" where
  "ParseOperatorKind str = Parse_loop 0 (strings_Split str CHR '','')"

subsection \<open>Lemmas\<close>

lemma split_loop_no_sep: "sep \<notin> set s \<Longrightarrow> split_loop sep acc s = [acc @ s]"
  by (induction s arbitrary: acc) auto

lemma split_loop_append: "sep \<notin> set s \<Longrightarrow> split_loop sep acc (s @ sep # t) = (acc @ s) # split_loop sep [] t"
  by (induction s arbitrary: acc) auto

lemma Split_Join:
  "ss \<noteq> [] \<Longrightarrow> \<forall>s \<in> set ss. sep \<notin> set s \<Longrightarrow> strings_Split (strings_Join ss sep) sep = ss"
  unfolding strings_Split_def
proof (induction ss sep rule: strings_Join.induct)
  case (2 s sep)
  then show ?case by (simp add: split_loop_no_sep)
next
  case (3 s t ss sep)
  then show ?case by (simp add: split_loop_append)
qed simp

lemma names_inverse: "(flag, name) \<in> set flagToName \<Longrightarrow> map_of nameToFlag name = Some flag"
proof -
  have "list_all (\<lambda>(flag, name). map_of nameToFlag name = Some flag) flagToName" by code_simp
  then show "(flag, name) \<in> set flagToName \<Longrightarrow> map_of nameToFlag name = Some flag" by (auto simp: list_all_iff)
qed

lemma Parse_loop_names:
  "set ps \<subseteq> set flagToName \<Longrightarrow> Parse_loop k (map snd ps) = Inr (fold (\<lambda>p k. k OR fst p) ps k)"
proof (induction ps arbitrary: k)
  case (Cons p ps)
  then show ?case using names_inverse [of "fst p" "snd p"] by simp
qed simp

lemma bit_fold_or: "bit (fold (\<lambda>p k. k OR fst p) ps k) n \<longleftrightarrow> bit k n \<or> (\<exists>p \<in> set ps. bit (fst p) n)"
  for k :: u32
  by (induction ps arbitrary: k) (auto simp: bit_or_iff)

text \<open>The flags are the single bits \<open>0\<close> to \<open>8\<close>.\<close>

lemma flags_bits: "map fst flagToName = map (\<lambda>i. push_bit i 1) [0..<9]"
  unfolding flagToName_def kind_defs by code_simp

lemma and_bit: "k AND push_bit i 1 \<noteq> 0 \<longleftrightarrow> bit k i" if "i < 32" for k :: u32
proof
  assume "k AND push_bit i 1 \<noteq> 0"
  then obtain n where "bit (k AND push_bit i 1) n" using bit_word_eqI [of "k AND push_bit i 1" 0] by auto
  then show "bit k i" by (auto simp: bit_simps)
next
  assume "bit k i"
  then have "bit (k AND push_bit i 1) i" using that by (simp add: bit_simps)
  then show "k AND push_bit i 1 \<noteq> 0" by auto
qed

lemma flags_or: "fold (\<lambda>p k. k OR fst p) (filter (\<lambda>(flag, name). k AND flag \<noteq> 0) flagToName) 0 = k AND 511"
proof (rule bit_word_eqI)
  fix n assume n: "n < LENGTH(32)"
  have "bit (511 :: u32) n \<longleftrightarrow> n < 9"
  proof -
    have "(511 :: u32) = mask 9" by code_simp
    moreover have "bit (mask 9 :: u32) n \<longleftrightarrow> n < 9" using n by (auto simp: bit_mask_iff)
    ultimately show ?thesis by (simp only:)
  qed
  moreover have "(\<exists>p \<in> set (filter (\<lambda>(flag, name). k AND flag \<noteq> 0) flagToName). bit (fst p) n) \<longleftrightarrow>
      (\<exists>f \<in> set (map fst flagToName). k AND f \<noteq> 0 \<and> bit f n)"
    by force
  moreover have "\<dots> \<longleftrightarrow> n < 9 \<and> bit k n"
    unfolding flags_bits using and_bit n by (auto simp: bit_simps)
  ultimately show "bit (fold (\<lambda>p k. k OR fst p) (filter (\<lambda>(flag, name). k AND flag \<noteq> 0) flagToName) 0) n \<longleftrightarrow>
      bit (k AND 511) n"
    by (auto simp: bit_fold_or bit_and_iff)
qed

subsection \<open>Properties\<close>

text \<open>
  Printing and parsing operator kinds: the text of a kind with at least one known flag parses
  to its known flags, so a kind made of known flags is recovered exactly; a kind without any known
  flag prints as a text that is refused.
\<close>
theorem ParseOperatorKind_String:
  "ParseOperatorKind (OperatorKind_String k) = (if k AND 511 \<noteq> 0 then Inr (k AND 511) else Inl ''unknown'')"
proof -
  let ?ps = "filter (\<lambda>(flag, name). k AND flag \<noteq> 0) flagToName"
  have "list_all (\<lambda>s. CHR '','' \<notin> set s) (map snd flagToName)" by code_simp
  then have comma: "\<forall>s \<in> set (map snd ?ps). CHR '','' \<notin> set s" by (auto simp: list_all_iff)
  have sub: "set ?ps \<subseteq> set flagToName" by auto
  have unknown: "Parse_loop 0 (strings_Split ''unknown'' CHR '','') = Inl ''unknown''" by code_simp
  have "k AND 511 = 0 \<longleftrightarrow> ?ps = []"
  proof
    assume zero: "k AND 511 = 0"
    have "p \<notin> set ?ps" for p
    proof
      assume p: "p \<in> set ?ps"
      then have "fst p \<in> set (map fst flagToName)" by auto
      then obtain i where "i < 9" "fst p = push_bit i 1" unfolding flags_bits by auto
      then have "bit (fst p) i" by (simp add: bit_simps)
      then have "bit (k AND 511) i" unfolding flags_or [symmetric] bit_fold_or using p by blast
      with zero show False by simp
    qed
    then show "?ps = []" using list.set_intros(1) by (metis neq_Nil_conv)
  next
    assume "?ps = []"
    then show "k AND 511 = 0" using flags_or [of k] by simp
  qed
  then show ?thesis
    using Split_Join [OF _ comma] Parse_loop_names [OF sub, of 0] flags_or [of k]
    using unknown by (auto simp: ParseOperatorKind_def OperatorKind_String_def Let_def)
qed

end
