(* ===== verification/Operator.thy ===== *)
theory Operator
  imports OperatorKind Region Store
begin

text \<open>
  \<open>server/schedule/operator.go\<close>, first half: the steps of a scheduling operator, when a step counts as
  finished, what it does to the load of the stores (\<open>OpInfluence\<close> of \<open>operator_controller.go\<close>), and the
  operator itself with its cursor over the steps. Clock readings are arguments; metrics are left out.
\<close>

subsection \<open>Influence on stores\<close>

record StoreInfluence =
  inf_RegionSize :: i64
  inf_RegionCount :: i64
  inf_LeaderSize :: i64
  inf_LeaderCount :: i64
  inf_StepCost :: i64

definition no_influence :: StoreInfluence where
  "no_influence = \<lparr>inf_RegionSize = 0, inf_RegionCount = 0, inf_LeaderSize = 0, inf_LeaderCount = 0,
     inf_StepCost = 0\<rparr>"

type_synonym OpInfluence = "(u64, StoreInfluence) fmap"

text \<open>\<open>GetStoreInfluence\<close> creates a missing entry and returns a pointer; \<open>upd_influence\<close> writes through it.\<close>

definition GetStoreInfluence :: "OpInfluence \<Rightarrow> u64 \<Rightarrow> StoreInfluence" where
  "GetStoreInfluence m i = (case fmlookup m i of None \<Rightarrow> no_influence | Some s \<Rightarrow> s)"

definition upd_influence :: "u64 \<Rightarrow> (StoreInfluence \<Rightarrow> StoreInfluence) \<Rightarrow> OpInfluence \<Rightarrow> OpInfluence" where
  "upd_influence i f m = fmupd i (f (GetStoreInfluence m i)) m"

subsection \<open>Steps\<close>

definition RegionInfluence :: i64 where
  "RegionInfluence = 1000"

definition smallRegionInfluence :: i64 where
  "smallRegionInfluence = 200"

definition smallRegionThreshold :: i64 where
  "smallRegionThreshold = 20"

datatype OperatorStep =
    TransferLeader u64 u64
  | AddPeer u64 u64
  | AddLearner u64 u64
  | PromoteLearner u64 u64
  | RemovePeer u64
  | MergeRegion metapb_Region metapb_Region bool
  | SplitRegion bytes bytes i32
  | AddLightPeer u64 u64
  | AddLightLearner u64 u64

text \<open>
  The arguments are, in the order of the Go fields: \<open>FromStore\<close> and \<open>ToStore\<close> of a leader transfer,
  \<open>ToStore\<close> and \<open>PeerID\<close> of the steps that add or promote a peer, \<open>FromStore\<close> of a removal, both regions
  and \<open>IsPassive\<close> of a merge, and the key range and policy of a split.
\<close>

subsubsection \<open>Printing\<close>

definition TransferLeader_String :: "u64 \<Rightarrow> u64 \<Rightarrow> string" where
  "TransferLeader_String fromStore toStore =
     ''transfer leader from store '' @ FormatUint fromStore @ '' to store '' @ FormatUint toStore"

definition AddPeer_String :: "u64 \<Rightarrow> u64 \<Rightarrow> string" where
  "AddPeer_String toStore peerID = ''add peer '' @ FormatUint peerID @ '' on store '' @ FormatUint toStore"

definition AddLearner_String :: "u64 \<Rightarrow> u64 \<Rightarrow> string" where
  "AddLearner_String toStore peerID = ''add learner peer '' @ FormatUint peerID @ '' on store '' @ FormatUint toStore"

definition PromoteLearner_String :: "u64 \<Rightarrow> u64 \<Rightarrow> string" where
  "PromoteLearner_String toStore peerID =
     ''promote learner peer '' @ FormatUint peerID @ '' on store '' @ FormatUint toStore @ '' to voter''"

definition RemovePeer_String :: "u64 \<Rightarrow> string" where
  "RemovePeer_String fromStore = ''remove peer on store '' @ FormatUint fromStore"

definition MergeRegion_String :: "metapb_Region \<Rightarrow> metapb_Region \<Rightarrow> string" where
  "MergeRegion_String fromRegion toRegion =
     ''merge region '' @ FormatUint (Region_Id fromRegion) @ '' into region '' @ FormatUint (Region_Id toRegion)"

text \<open>The names of the split policies are generated code: \<open>policy_name\<close> stands for them.\<close>

definition SplitRegion_String :: "(i32 \<Rightarrow> string) \<Rightarrow> i32 \<Rightarrow> string" where
  "SplitRegion_String policy_name policy = ''split region with policy '' @ policy_name policy"

definition AddLightPeer_String :: "u64 \<Rightarrow> u64 \<Rightarrow> string" where
  "AddLightPeer_String toStore peerID = ''add peer '' @ FormatUint peerID @ '' on store '' @ FormatUint toStore"

definition AddLightLearner_String :: "u64 \<Rightarrow> u64 \<Rightarrow> string" where
  "AddLightLearner_String toStore peerID = ''add learner peer '' @ FormatUint peerID @ '' on store '' @ FormatUint toStore"

subsubsection \<open>When a step is finished\<close>

definition TransferLeader_IsFinish :: "u64 \<Rightarrow> u64 \<Rightarrow> RegionInfo \<Rightarrow> bool" where
  "TransferLeader_IsFinish fromStore toStore region = (Peer_GetStoreId (ri_leader region) = toStore)"

definition AddPeer_IsFinish :: "u64 \<Rightarrow> u64 \<Rightarrow> RegionInfo \<Rightarrow> bool" where
  "AddPeer_IsFinish toStore peerID region =
     (case RegionInfo_GetStoreVoter region toStore of
        None \<Rightarrow> False
      | Some p \<Rightarrow> if Peer_Id p \<noteq> peerID then False else RegionInfo_GetPendingVoter region (Peer_Id p) = None)"

definition AddLearner_IsFinish :: "u64 \<Rightarrow> u64 \<Rightarrow> RegionInfo \<Rightarrow> bool" where
  "AddLearner_IsFinish toStore peerID region =
     (case RegionInfo_GetStoreLearner region toStore of
        None \<Rightarrow> False
      | Some p \<Rightarrow> if Peer_Id p \<noteq> peerID then False else RegionInfo_GetPendingLearner region (Peer_Id p) = None)"

definition PromoteLearner_IsFinish :: "u64 \<Rightarrow> u64 \<Rightarrow> RegionInfo \<Rightarrow> bool" where
  "PromoteLearner_IsFinish toStore peerID region =
     (case RegionInfo_GetStoreVoter region toStore of None \<Rightarrow> False | Some p \<Rightarrow> Peer_Id p = peerID)"

definition RemovePeer_IsFinish :: "u64 \<Rightarrow> RegionInfo \<Rightarrow> bool" where
  "RemovePeer_IsFinish fromStore region = (RegionInfo_GetStorePeer region fromStore = None)"

definition MergeRegion_IsFinish :: "metapb_Region \<Rightarrow> metapb_Region \<Rightarrow> bool \<Rightarrow> RegionInfo \<Rightarrow> bool" where
  "MergeRegion_IsFinish fromRegion toRegion isPassive region =
     (if isPassive
      then RegionInfo_GetStartKey region \<noteq> Region_StartKey toRegion \<or> RegionInfo_GetEndKey region \<noteq> Region_EndKey toRegion
      else False)"

definition SplitRegion_IsFinish :: "bytes \<Rightarrow> bytes \<Rightarrow> i32 \<Rightarrow> RegionInfo \<Rightarrow> bool" where
  "SplitRegion_IsFinish startKey endKey policy region =
     (RegionInfo_GetStartKey region \<noteq> startKey \<or> RegionInfo_GetEndKey region \<noteq> endKey)"

definition AddLightPeer_IsFinish :: "u64 \<Rightarrow> u64 \<Rightarrow> RegionInfo \<Rightarrow> bool" where
  "AddLightPeer_IsFinish toStore peerID region =
     (case RegionInfo_GetStoreVoter region toStore of
        None \<Rightarrow> False
      | Some p \<Rightarrow> if Peer_Id p \<noteq> peerID then False else RegionInfo_GetPendingVoter region (Peer_Id p) = None)"

definition AddLightLearner_IsFinish :: "u64 \<Rightarrow> u64 \<Rightarrow> RegionInfo \<Rightarrow> bool" where
  "AddLightLearner_IsFinish toStore peerID region =
     (case RegionInfo_GetStoreLearner region toStore of
        None \<Rightarrow> False
      | Some p \<Rightarrow> if Peer_Id p \<noteq> peerID then False else RegionInfo_GetPendingLearner region (Peer_Id p) = None)"

subsubsection \<open>What a step does to the stores\<close>

definition TransferLeader_Influence :: "u64 \<Rightarrow> u64 \<Rightarrow> OpInfluence \<Rightarrow> RegionInfo \<Rightarrow> OpInfluence" where
  "TransferLeader_Influence fromStore toStore m region =
     upd_influence toStore
       (\<lambda>to. to\<lparr>inf_LeaderSize := inf_LeaderSize to + ri_approximateSize region, inf_LeaderCount := inf_LeaderCount to + 1\<rparr>)
       (upd_influence fromStore
         (\<lambda>from. from\<lparr>inf_LeaderSize := inf_LeaderSize from - ri_approximateSize region,
            inf_LeaderCount := inf_LeaderCount from - 1\<rparr>) m)"

definition add_region :: "RegionInfo \<Rightarrow> StoreInfluence \<Rightarrow> StoreInfluence" where
  "add_region region to = to\<lparr>inf_RegionSize := inf_RegionSize to + ri_approximateSize region,
     inf_RegionCount := inf_RegionCount to + 1\<rparr>"

text \<open>What \<open>AddPeer\<close> and \<open>AddLearner\<close> charge to the rate limiter of the store.\<close>

definition add_cost :: "RegionInfo \<Rightarrow> StoreInfluence \<Rightarrow> StoreInfluence" where
  "add_cost region to =
     (let regionSize = ri_approximateSize region
      in if smallRegionThreshold <s regionSize then to\<lparr>inf_StepCost := inf_StepCost to + RegionInfluence\<rparr>
         else if regionSize \<le>s smallRegionThreshold \<and> EmptyRegionApproximateSize <s regionSize
         then to\<lparr>inf_StepCost := inf_StepCost to + smallRegionInfluence\<rparr>
         else to)"

definition AddPeer_Influence :: "u64 \<Rightarrow> u64 \<Rightarrow> OpInfluence \<Rightarrow> RegionInfo \<Rightarrow> OpInfluence" where
  "AddPeer_Influence toStore peerID m region = upd_influence toStore (\<lambda>to. add_cost region (add_region region to)) m"

definition AddLearner_Influence :: "u64 \<Rightarrow> u64 \<Rightarrow> OpInfluence \<Rightarrow> RegionInfo \<Rightarrow> OpInfluence" where
  "AddLearner_Influence toStore peerID m region = upd_influence toStore (\<lambda>to. add_cost region (add_region region to)) m"

definition PromoteLearner_Influence :: "u64 \<Rightarrow> u64 \<Rightarrow> OpInfluence \<Rightarrow> RegionInfo \<Rightarrow> OpInfluence" where
  "PromoteLearner_Influence toStore peerID m region = m"

definition RemovePeer_Influence :: "u64 \<Rightarrow> OpInfluence \<Rightarrow> RegionInfo \<Rightarrow> OpInfluence" where
  "RemovePeer_Influence fromStore m region =
     upd_influence fromStore
       (\<lambda>from. from\<lparr>inf_RegionSize := inf_RegionSize from - ri_approximateSize region,
          inf_RegionCount := inf_RegionCount from - 1\<rparr>) m"

text \<open>One turn of the loops of \<open>MergeRegion\<close> and \<open>SplitRegion\<close> over the peers.\<close>

definition count_peer :: "i64 \<Rightarrow> RegionInfo \<Rightarrow> metapb_Peer \<Rightarrow> OpInfluence \<Rightarrow> OpInfluence" where
  "count_peer d region p m =
     upd_influence (Peer_StoreId p)
       (\<lambda>s. let s = s\<lparr>inf_RegionCount := inf_RegionCount s + d\<rparr>
            in if Peer_GetId (ri_leader region) = Peer_Id p
               then s\<lparr>inf_LeaderCount := inf_LeaderCount s + d\<rparr> else s) m"

definition MergeRegion_Influence :: "metapb_Region \<Rightarrow> metapb_Region \<Rightarrow> bool \<Rightarrow> OpInfluence \<Rightarrow> RegionInfo \<Rightarrow> OpInfluence" where
  "MergeRegion_Influence fromRegion toRegion isPassive m region =
     (if isPassive then fold (count_peer (- 1) region) (RegionInfo_GetPeers region) m else m)"

definition SplitRegion_Influence :: "bytes \<Rightarrow> bytes \<Rightarrow> i32 \<Rightarrow> OpInfluence \<Rightarrow> RegionInfo \<Rightarrow> OpInfluence" where
  "SplitRegion_Influence startKey endKey policy m region = fold (count_peer 1 region) (RegionInfo_GetPeers region) m"

definition AddLightPeer_Influence :: "u64 \<Rightarrow> u64 \<Rightarrow> OpInfluence \<Rightarrow> RegionInfo \<Rightarrow> OpInfluence" where
  "AddLightPeer_Influence toStore peerID m region = upd_influence toStore (add_region region) m"

definition AddLightLearner_Influence :: "u64 \<Rightarrow> u64 \<Rightarrow> OpInfluence \<Rightarrow> RegionInfo \<Rightarrow> OpInfluence" where
  "AddLightLearner_Influence toStore peerID m region = upd_influence toStore (add_region region) m"

subsubsection \<open>The interface of steps\<close>

fun step_String :: "(i32 \<Rightarrow> string) \<Rightarrow> OperatorStep \<Rightarrow> string" where
  "step_String policy_name (TransferLeader fromStore toStore) = TransferLeader_String fromStore toStore"
| "step_String policy_name (AddPeer toStore peerID) = AddPeer_String toStore peerID"
| "step_String policy_name (AddLearner toStore peerID) = AddLearner_String toStore peerID"
| "step_String policy_name (PromoteLearner toStore peerID) = PromoteLearner_String toStore peerID"
| "step_String policy_name (RemovePeer fromStore) = RemovePeer_String fromStore"
| "step_String policy_name (MergeRegion fromRegion toRegion isPassive) = MergeRegion_String fromRegion toRegion"
| "step_String policy_name (SplitRegion startKey endKey policy) = SplitRegion_String policy_name policy"
| "step_String policy_name (AddLightPeer toStore peerID) = AddLightPeer_String toStore peerID"
| "step_String policy_name (AddLightLearner toStore peerID) = AddLightLearner_String toStore peerID"

fun step_IsFinish :: "OperatorStep \<Rightarrow> RegionInfo \<Rightarrow> bool" where
  "step_IsFinish (TransferLeader fromStore toStore) region = TransferLeader_IsFinish fromStore toStore region"
| "step_IsFinish (AddPeer toStore peerID) region = AddPeer_IsFinish toStore peerID region"
| "step_IsFinish (AddLearner toStore peerID) region = AddLearner_IsFinish toStore peerID region"
| "step_IsFinish (PromoteLearner toStore peerID) region = PromoteLearner_IsFinish toStore peerID region"
| "step_IsFinish (RemovePeer fromStore) region = RemovePeer_IsFinish fromStore region"
| "step_IsFinish (MergeRegion fromRegion toRegion isPassive) region = MergeRegion_IsFinish fromRegion toRegion isPassive region"
| "step_IsFinish (SplitRegion startKey endKey policy) region = SplitRegion_IsFinish startKey endKey policy region"
| "step_IsFinish (AddLightPeer toStore peerID) region = AddLightPeer_IsFinish toStore peerID region"
| "step_IsFinish (AddLightLearner toStore peerID) region = AddLightLearner_IsFinish toStore peerID region"

fun step_Influence :: "OperatorStep \<Rightarrow> OpInfluence \<Rightarrow> RegionInfo \<Rightarrow> OpInfluence" where
  "step_Influence (TransferLeader fromStore toStore) m region = TransferLeader_Influence fromStore toStore m region"
| "step_Influence (AddPeer toStore peerID) m region = AddPeer_Influence toStore peerID m region"
| "step_Influence (AddLearner toStore peerID) m region = AddLearner_Influence toStore peerID m region"
| "step_Influence (PromoteLearner toStore peerID) m region = PromoteLearner_Influence toStore peerID m region"
| "step_Influence (RemovePeer fromStore) m region = RemovePeer_Influence fromStore m region"
| "step_Influence (MergeRegion fromRegion toRegion isPassive) m region = MergeRegion_Influence fromRegion toRegion isPassive m region"
| "step_Influence (SplitRegion startKey endKey policy) m region = SplitRegion_Influence startKey endKey policy m region"
| "step_Influence (AddLightPeer toStore peerID) m region = AddLightPeer_Influence toStore peerID m region"
| "step_Influence (AddLightLearner toStore peerID) m region = AddLightLearner_Influence toStore peerID m region"

lemmas step_finish_defs = TransferLeader_IsFinish_def AddPeer_IsFinish_def AddLearner_IsFinish_def PromoteLearner_IsFinish_def
  RemovePeer_IsFinish_def MergeRegion_IsFinish_def SplitRegion_IsFinish_def AddLightPeer_IsFinish_def AddLightLearner_IsFinish_def

lemmas step_influence_defs = TransferLeader_Influence_def AddPeer_Influence_def AddLearner_Influence_def PromoteLearner_Influence_def
  RemovePeer_Influence_def MergeRegion_Influence_def SplitRegion_Influence_def AddLightPeer_Influence_def AddLightLearner_Influence_def

subsection \<open>Operators\<close>

text \<open>\<open>server/core/resource_kind.go\<close>: the priorities.\<close>

type_synonym PriorityLevel = nat

definition LowPriority :: PriorityLevel where "LowPriority = 0"
definition NormalPriority :: PriorityLevel where "NormalPriority = 1"
definition HighPriority :: PriorityLevel where "HighPriority = 2"

definition LeaderOperatorWaitTime :: duration where
  "LeaderOperatorWaitTime = 10 * Second"

definition RegionOperatorWaitTime :: duration where
  "RegionOperatorWaitTime = 10 * Minute"

record Operator =
  op_desc :: string
  op_regionID :: u64
  op_regionEpoch :: "metapb_RegionEpoch option"
  op_kind :: OperatorKind
  op_steps :: "OperatorStep list"
  op_currentStep :: nat
  op_createTime :: time
  op_startTime :: time
  op_stepTime :: int
  op_level :: PriorityLevel

definition NewOperator :: "time \<Rightarrow> string \<Rightarrow> u64 \<Rightarrow> metapb_RegionEpoch option \<Rightarrow> OperatorKind \<Rightarrow> OperatorStep list \<Rightarrow> Operator" where
  "NewOperator now desc regionID regionEpoch kind steps =
     \<lparr>op_desc = desc, op_regionID = regionID, op_regionEpoch = regionEpoch, op_kind = kind, op_steps = steps,
      op_currentStep = 0, op_createTime = now, op_startTime = zero_time, op_stepTime = wrap64 now,
      op_level = NormalPriority\<rparr>"

definition Operator_SetDesc :: "string \<Rightarrow> Operator \<Rightarrow> Operator" where
  "Operator_SetDesc desc op = op\<lparr>op_desc := desc\<rparr>"

definition Operator_AttachKind :: "OperatorKind \<Rightarrow> Operator \<Rightarrow> Operator" where
  "Operator_AttachKind kind op = op\<lparr>op_kind := op_kind op OR kind\<rparr>"

definition Operator_ElapsedTime :: "time \<Rightarrow> Operator \<Rightarrow> duration" where
  "Operator_ElapsedTime now op = time_Sub now (op_createTime op)"

definition Operator_RunningTime :: "time \<Rightarrow> Operator \<Rightarrow> duration" where
  "Operator_RunningTime now op = time_Sub now (op_startTime op)"

definition Operator_SetStartTime :: "time \<Rightarrow> Operator \<Rightarrow> Operator" where
  "Operator_SetStartTime t op = op\<lparr>op_startTime := t\<rparr>"

definition Operator_Len :: "Operator \<Rightarrow> nat" where
  "Operator_Len op = length (op_steps op)"

definition Operator_Step :: "Operator \<Rightarrow> int \<Rightarrow> OperatorStep option" where
  "Operator_Step op i = (if 0 \<le> i \<and> i < int (length (op_steps op)) then Some (op_steps op ! nat i) else None)"

text \<open>The loop of \<open>Check\<close> over the steps from the current one on.\<close>

fun Check_loop :: "time \<Rightarrow> RegionInfo \<Rightarrow> Operator \<Rightarrow> OperatorStep list \<Rightarrow> Operator \<times> OperatorStep option" where
  "Check_loop now region op [] = (op, None)"
| "Check_loop now region op (st # rest) =
     (if step_IsFinish st region
      then Check_loop now region (op\<lparr>op_currentStep := op_currentStep op + 1, op_stepTime := wrap64 now\<rparr>) rest
      else (op, Some st))"

definition Operator_Check :: "time \<Rightarrow> Operator \<Rightarrow> RegionInfo \<Rightarrow> Operator \<times> OperatorStep option" where
  "Operator_Check now op region = Check_loop now region op (drop (op_currentStep op) (op_steps op))"

definition Operator_SetPriorityLevel :: "PriorityLevel \<Rightarrow> Operator \<Rightarrow> Operator" where
  "Operator_SetPriorityLevel level op = op\<lparr>op_level := level\<rparr>"

definition Operator_IsFinish :: "Operator \<Rightarrow> bool" where
  "Operator_IsFinish op \<longleftrightarrow> op_currentStep op \<ge> length (op_steps op)"

definition Operator_IsTimeout :: "time \<Rightarrow> Operator \<Rightarrow> bool" where
  "Operator_IsTimeout now op =
     (if Operator_IsFinish op then False
      else if op_startTime op = zero_time then False
      else if op_kind op AND OpRegion \<noteq> 0 then time_Sub now (op_startTime op) > RegionOperatorWaitTime
      else time_Sub now (op_startTime op) > LeaderOperatorWaitTime)"

definition Operator_UnfinishedInfluence :: "Operator \<Rightarrow> OpInfluence \<Rightarrow> RegionInfo \<Rightarrow> OpInfluence" where
  "Operator_UnfinishedInfluence op m region =
     fold (\<lambda>st m. if \<not> step_IsFinish st region then step_Influence st m region else m)
       (drop (op_currentStep op) (op_steps op)) m"

definition Operator_TotalInfluence :: "Operator \<Rightarrow> OpInfluence \<Rightarrow> RegionInfo \<Rightarrow> OpInfluence" where
  "Operator_TotalInfluence op m region = fold (\<lambda>st m. step_Influence st m region) (op_steps op) m"

record OperatorHistory =
  oh_FinishTime :: time
  oh_From :: u64
  oh_To :: u64
  oh_Kind :: ResourceKind

fun History_loop :: "time \<Rightarrow> OperatorHistory list \<times> u64 list \<times> u64 list \<Rightarrow> OperatorStep list \<Rightarrow>
    OperatorHistory list \<times> u64 list \<times> u64 list" where
  "History_loop now acc [] = acc"
| "History_loop now (hs, adds, removes) (st # rest) =
     History_loop now
       (case st of
          TransferLeader fromStore toStore \<Rightarrow>
            (hs @ [\<lparr>oh_FinishTime = now, oh_From = fromStore, oh_To = toStore, oh_Kind = LeaderKind\<rparr>], adds, removes)
        | AddPeer toStore _ \<Rightarrow> (hs, adds @ [toStore], removes)
        | AddLightPeer toStore _ \<Rightarrow> (hs, adds @ [toStore], removes)
        | AddLearner toStore _ \<Rightarrow> (hs, adds @ [toStore], removes)
        | AddLightLearner toStore _ \<Rightarrow> (hs, adds @ [toStore], removes)
        | RemovePeer fromStore \<Rightarrow> (hs, adds, removes @ [fromStore])
        | _ \<Rightarrow> (hs, adds, removes)) rest"

text \<open>The second loop pairs the \<open>i\<close>-th addition with the \<open>i\<close>-th removal while there is one.\<close>

definition Operator_History :: "time \<Rightarrow> Operator \<Rightarrow> OperatorHistory list" where
  "Operator_History now op =
     (case History_loop now ([], [], []) (op_steps op) of
        (hs, adds, removes) \<Rightarrow>
          hs @ map2 (\<lambda>to from. \<lparr>oh_FinishTime = now, oh_From = from, oh_To = to, oh_Kind = RegionKind\<rparr>) adds removes)"

fun Valid_loop :: "u64 list \<Rightarrow> OperatorStep list \<Rightarrow> bool" where
  "Valid_loop removeStores [] = True"
| "Valid_loop removeStores (TransferLeader fromStore toStore # rest) =
     (if \<exists>store \<in> set removeStores. store = fromStore \<or> store = toStore then False
      else Valid_loop removeStores rest)"
| "Valid_loop removeStores (RemovePeer fromStore # rest) = Valid_loop (removeStores @ [fromStore]) rest"
| "Valid_loop removeStores (_ # rest) = Valid_loop removeStores rest"

definition CheckOperatorValid :: "Operator \<Rightarrow> bool" where
  "CheckOperatorValid op = Valid_loop [] (op_steps op)"

subsection \<open>Lemmas\<close>

lemma Check_loop_eq:
  "Check_loop now region op rest =
     (let n = length (takeWhile (\<lambda>st. step_IsFinish st region) rest)
      in (if n = 0 then op else op\<lparr>op_currentStep := op_currentStep op + n, op_stepTime := wrap64 now\<rparr>,
          if n < length rest then Some (rest ! n) else None))"
  by (induction rest arbitrary: op) (auto simp: Let_def)

text \<open>No leader transfer comes after the removal of the peer it starts from or goes to.\<close>

definition transfers_valid :: "u64 set \<Rightarrow> OperatorStep list \<Rightarrow> bool" where
  "transfers_valid gone steps \<longleftrightarrow>
     (\<forall>j < length steps. \<forall>a b. steps ! j = TransferLeader a b \<longrightarrow>
        a \<notin> gone \<and> b \<notin> gone \<and> (\<forall>i < j. steps ! i \<noteq> RemovePeer a \<and> steps ! i \<noteq> RemovePeer b))"

lemma transfers_valid_Nil [simp]: "transfers_valid gone []"
  by (simp add: transfers_valid_def)

lemma transfers_valid_Cons:
  "transfers_valid gone (st # rest) \<longleftrightarrow>
     (\<forall>a b. st = TransferLeader a b \<longrightarrow> a \<notin> gone \<and> b \<notin> gone) \<and>
     transfers_valid (gone \<union> {x. st = RemovePeer x}) rest"
  unfolding transfers_valid_def by (simp add: All_less_Suc2) blast

lemma Valid_loop_iff: "Valid_loop rs steps \<longleftrightarrow> transfers_valid (set rs) steps"
  by (induction rs steps rule: Valid_loop.induct) (auto simp: transfers_valid_Cons)

subsection \<open>Properties\<close>

text \<open>
  (C32) \<open>Check\<close> moves the cursor over finished steps only, never back, and returns the first step that is
  not finished, or nothing when the operator is finished.
\<close>
theorem Operator_Check_correct:
  "case Operator_Check now op region of (op', st) \<Rightarrow>
     op_steps op' = op_steps op \<and> op_currentStep op \<le> op_currentStep op' \<and>
     (\<forall>i \<in> {op_currentStep op..<op_currentStep op'}. step_IsFinish (op_steps op ! i) region) \<and>
     (case st of
        None \<Rightarrow> Operator_IsFinish op'
      | Some s \<Rightarrow> op_currentStep op' < length (op_steps op) \<and> s = op_steps op ! op_currentStep op' \<and> \<not> step_IsFinish s region)"
proof -
  let ?rest = "drop (op_currentStep op) (op_steps op)"
  let ?n = "length (takeWhile (\<lambda>st. step_IsFinish st region) ?rest)"
  have "step_IsFinish (op_steps op ! i) region" if "op_currentStep op \<le> i" "i < op_currentStep op + ?n" for i
  proof -
    have "i - op_currentStep op < ?n" using that by simp
    then have "step_IsFinish (?rest ! (i - op_currentStep op)) region" by (metis (no_types) nth_mem set_takeWhileD takeWhile_nth)
    moreover have "op_currentStep op \<le> length (op_steps op)" using that by (cases "op_currentStep op \<le> length (op_steps op)") auto
    ultimately show ?thesis using that(1) by (simp add: nth_drop)
  qed
  moreover have "\<not> step_IsFinish (?rest ! ?n) region" if "?n < length ?rest" using nth_length_takeWhile [OF that] .
  moreover have "?n \<le> length ?rest" by (rule length_takeWhile_le)
  ultimately show ?thesis by (auto simp: Operator_Check_def Check_loop_eq Let_def Operator_IsFinish_def nth_drop)
qed

definition sample_op :: Operator where
  "sample_op = NewOperator 0 ''x'' 1 None 0 [TransferLeader 1 0, TransferLeader 1 2]"

definition empty_region :: RegionInfo where
  "empty_region = NewRegionInfo
     \<lparr>Region_Id = 1, Region_StartKey = [], Region_EndKey = [], Region_RegionEpoch = None, Region_Peers = []\<rparr> None []"

theorem Operator_Check_correct_witness:
  "op_currentStep (fst (Operator_Check 0 sample_op empty_region)) = 1 \<and> step_IsFinish (op_steps sample_op ! 0) empty_region \<and>
   op_steps (fst (Operator_Check 0 sample_op empty_region)) = op_steps sample_op"
proof -
  have cur: "op_currentStep (fst (Operator_Check 0 sample_op empty_region)) = 1" "op_currentStep sample_op = 0" by code_simp+
  with Operator_Check_correct [where now = 0 and op = sample_op and region = empty_region]
  show ?thesis by (auto split: prod.splits)
qed

text \<open>
  (C33) \<open>CheckOperatorValid\<close> accepts exactly the operators in which no leader transfer comes after the
  removal of the peer it starts from or goes to.
\<close>
theorem CheckOperatorValid_iff:
  "CheckOperatorValid op \<longleftrightarrow> \<not> (\<exists>i j a b. i < j \<and> j < length (op_steps op) \<and> op_steps op ! j = TransferLeader a b \<and>
     op_steps op ! i \<in> {RemovePeer a, RemovePeer b})"
  unfolding CheckOperatorValid_def Valid_loop_iff transfers_valid_def by auto

end
