(* ===== verification/OperatorCreate.thy ===== *)
theory OperatorCreate
  imports Operator
begin

text \<open>
  \<open>server/schedule/operator.go\<close>, second half: the functions that build operators. \<open>Cluster\<close> holds what
  they call of the interface \<open>schedule.Cluster\<close>: the stores with the heap of their messages, the label
  property check, whether learners are used, and the allocation of peers, which changes the state of
  the allocator. The iteration order of Go maps and the random draw of the scatter operator are
  arguments; \<open>None\<close> is a panic.
\<close>

datatype op_error = ErrAllocPeer | ErrNoFollower | ErrMismatchCount | ErrWrongCount

record 'c Cluster =
  cl_IsRaftLearnerEnabled :: bool
  cl_heap :: store_heap
  cl_GetStore :: "u64 \<Rightarrow> StoreInfo option"
  cl_CheckLabelProperty :: "string \<Rightarrow> metapb_StoreLabel list \<Rightarrow> bool"
  cl_AllocPeer :: "'c \<Rightarrow> u64 \<Rightarrow> 'c \<times> (op_error + metapb_Peer)"

definition RejectLeader :: string where
  "RejectLeader = ''reject-leader''"

abbreviation new_op :: "time \<Rightarrow> string \<Rightarrow> RegionInfo \<Rightarrow> OperatorKind \<Rightarrow> OperatorStep list \<Rightarrow> Operator" where
  "new_op now desc region kind steps \<equiv>
     NewOperator now desc (RegionInfo_GetID region) (RegionInfo_GetRegionEpoch region) kind steps"

subsection \<open>Adding, promoting and removing one peer\<close>

definition CreateAddPeerSteps :: "u64 \<Rightarrow> u64 \<Rightarrow> 'c Cluster \<Rightarrow> OperatorStep list" where
  "CreateAddPeerSteps newStore peerID cluster =
     (if cl_IsRaftLearnerEnabled cluster then [AddLearner newStore peerID, PromoteLearner newStore peerID]
      else [AddPeer newStore peerID])"

definition CreateAddLightPeerSteps :: "u64 \<Rightarrow> u64 \<Rightarrow> 'c Cluster \<Rightarrow> OperatorStep list" where
  "CreateAddLightPeerSteps newStore peerID cluster =
     (if cl_IsRaftLearnerEnabled cluster then [AddLightLearner newStore peerID, PromoteLearner newStore peerID]
      else [AddLightPeer newStore peerID])"

definition CreateAddPeerOperator ::
    "time \<Rightarrow> string \<Rightarrow> 'c Cluster \<Rightarrow> RegionInfo \<Rightarrow> u64 \<Rightarrow> u64 \<Rightarrow> OperatorKind \<Rightarrow> Operator" where
  "CreateAddPeerOperator now desc cluster region peerID toStoreID kind =
     new_op now desc region (kind OR OpRegion) (CreateAddPeerSteps toStoreID peerID cluster)"

definition CreateAddLearnerOperator ::
    "time \<Rightarrow> string \<Rightarrow> 'c Cluster \<Rightarrow> RegionInfo \<Rightarrow> u64 \<Rightarrow> u64 \<Rightarrow> OperatorKind \<Rightarrow> Operator" where
  "CreateAddLearnerOperator now desc cluster region peerID toStoreID kind =
     new_op now desc region (kind OR OpRegion) [AddLearner toStoreID peerID]"

definition CreatePromoteLearnerOperator :: "time \<Rightarrow> string \<Rightarrow> RegionInfo \<Rightarrow> metapb_Peer option \<Rightarrow> Operator" where
  "CreatePromoteLearnerOperator now desc region peer =
     new_op now desc region OpRegion [PromoteLearner (Peer_GetStoreId peer) (Peer_GetId peer)]"

definition CreateTransferLeaderOperator ::
    "time \<Rightarrow> string \<Rightarrow> RegionInfo \<Rightarrow> u64 \<Rightarrow> u64 \<Rightarrow> OperatorKind \<Rightarrow> Operator" where
  "CreateTransferLeaderOperator now desc region sourceStoreID targetStoreID kind =
     new_op now desc region (kind OR OpLeader) [TransferLeader sourceStoreID targetStoreID]"

definition getRegionFollowerIDs :: "u64 list \<Rightarrow> RegionInfo \<Rightarrow> u64 list" where
  "getRegionFollowerIDs order region = filter (fmhas (RegionInfo_GetFollowers region)) order"

text \<open>The condition of the loop of \<open>removePeerSteps\<close> on a candidate for the leadership.\<close>

definition may_lead :: "'c Cluster \<Rightarrow> u64 \<Rightarrow> bool" where
  "may_lead cluster i =
     (case cl_GetStore cluster i of
        None \<Rightarrow> False
      | Some follower \<Rightarrow> \<not> cl_CheckLabelProperty cluster RejectLeader
          (map (sh_label (cl_heap cluster)) (StoreInfo_GetLabels (cl_heap cluster) follower)))"

definition removePeerSteps ::
    "'c Cluster \<Rightarrow> RegionInfo \<Rightarrow> u64 \<Rightarrow> u64 list \<Rightarrow> op_error + OperatorKind \<times> OperatorStep list" where
  "removePeerSteps cluster region storeID followerIDs =
     (if ri_leader region \<noteq> None \<and> Peer_GetStoreId (ri_leader region) = storeID
      then case List.find (may_lead cluster) followerIDs of
             None \<Rightarrow> Inl ErrNoFollower
           | Some i \<Rightarrow> Inr (OpLeader OR OpRegion, [TransferLeader storeID i, RemovePeer storeID])
      else Inr (OpRegion, [RemovePeer storeID]))"

definition CreateRemovePeerOperator ::
    "time \<Rightarrow> u64 list \<Rightarrow> string \<Rightarrow> 'c Cluster \<Rightarrow> OperatorKind \<Rightarrow> RegionInfo \<Rightarrow> u64 \<Rightarrow> op_error + Operator" where
  "CreateRemovePeerOperator now order desc cluster kind region storeID =
     (case removePeerSteps cluster region storeID (getRegionFollowerIDs order region) of
        Inl err \<Rightarrow> Inl err
      | Inr (removeKind, steps) \<Rightarrow> Inr (new_op now desc region (removeKind OR kind) steps))"

definition CreateMovePeerOperator ::
    "time \<Rightarrow> u64 list \<Rightarrow> string \<Rightarrow> 'c Cluster \<Rightarrow> RegionInfo \<Rightarrow> OperatorKind \<Rightarrow> u64 \<Rightarrow> u64 \<Rightarrow> u64 \<Rightarrow> op_error + Operator" where
  "CreateMovePeerOperator now order desc cluster region kind oldStore newStore peerID =
     (case removePeerSteps cluster region oldStore (getRegionFollowerIDs order region @ [newStore]) of
        Inl err \<Rightarrow> Inl err
      | Inr (removeKind, steps) \<Rightarrow>
          let st = CreateAddPeerSteps newStore peerID cluster
          in Inr (new_op now desc region (removeKind OR kind OR OpRegion) (st @ steps)))"

definition CreateMoveLeaderOperator ::
    "time \<Rightarrow> string \<Rightarrow> 'c Cluster \<Rightarrow> RegionInfo \<Rightarrow> OperatorKind \<Rightarrow> u64 \<Rightarrow> u64 \<Rightarrow> u64 \<Rightarrow> op_error + Operator" where
  "CreateMoveLeaderOperator now desc cluster region kind oldStore newStore peerID =
     (case removePeerSteps cluster region oldStore [newStore] of
        Inl err \<Rightarrow> Inl err
      | Inr (removeKind, steps) \<Rightarrow>
          let st = CreateAddPeerSteps newStore peerID cluster @ [TransferLeader oldStore newStore]
          in Inr (new_op now desc region (removeKind OR kind OR OpLeader OR OpRegion) (st @ steps)))"

text \<open>The table of split policies is generated code: \<open>checkPolicy\<close> stands for it.\<close>

definition CreateSplitRegionOperator ::
    "time \<Rightarrow> (string \<Rightarrow> i32 option) \<Rightarrow> string \<Rightarrow> RegionInfo \<Rightarrow> OperatorKind \<Rightarrow> string \<Rightarrow> Operator" where
  "CreateSplitRegionOperator now checkPolicy desc region kind policy =
     new_op now desc region kind
       [SplitRegion (RegionInfo_GetStartKey region) (RegionInfo_GetEndKey region)
          (case checkPolicy (strings_ToUpper policy) of None \<Rightarrow> 0 | Some v \<Rightarrow> v)]"

subsection \<open>Moving a region to given stores\<close>

fun move_adds :: "'c Cluster \<Rightarrow> RegionInfo \<Rightarrow> u64 list \<Rightarrow> OperatorStep list \<Rightarrow> 'c \<Rightarrow> 'c \<times> (op_error + OperatorStep list)" where
  "move_adds cluster region [] steps c = (c, Inr steps)"
| "move_adds cluster region (i # is') steps c =
     (if RegionInfo_GetStorePeer region i \<noteq> None then move_adds cluster region is' steps c
      else case cl_AllocPeer cluster c i of
             (c, Inl err) \<Rightarrow> (c, Inl err)
           | (c, Inr peer) \<Rightarrow> move_adds cluster region is' (steps @ CreateAddPeerSteps i (Peer_Id peer) cluster) c)"

fun move_removes :: "RegionInfo \<Rightarrow> u64 list \<Rightarrow> metapb_Peer list \<Rightarrow> OperatorStep list \<Rightarrow> OperatorStep list" where
  "move_removes region order [] steps = steps"
| "move_removes region order (peer # peers) steps =
     (if Peer_StoreId peer \<in> set order then move_removes region order peers steps
      else let steps = (if Peer_GetId (ri_leader region) = Peer_Id peer
                        then steps @ map (TransferLeader (Peer_StoreId peer)) (take 1 order)
                        else steps)
           in move_removes region order peers (steps @ [RemovePeer (Peer_StoreId peer)]))"

text \<open>
  The set of stores is given by the two orders in which the loops over it run; the second loop only
  takes the first element.
\<close>

definition CreateMoveRegionOperator ::
    "time \<Rightarrow> u64 list \<Rightarrow> u64 list \<Rightarrow> string \<Rightarrow> 'c Cluster \<Rightarrow> RegionInfo \<Rightarrow> OperatorKind \<Rightarrow> 'c \<Rightarrow> 'c \<times> (op_error + Operator)" where
  "CreateMoveRegionOperator now order1 order2 desc cluster region kind c =
     (case move_adds cluster region order1 [] c of
        (c, Inl err) \<Rightarrow> (c, Inl err)
      | (c, Inr steps) \<Rightarrow>
          (c, Inr (new_op now desc region (kind OR OpRegion)
                 (move_removes region order2 (RegionInfo_GetPeers region) steps))))"

subsection \<open>Merging two regions\<close>

definition getIntersectionStores :: "metapb_Peer list \<Rightarrow> metapb_Peer list \<Rightarrow> u64 fset" where
  "getIntersectionStores a b =
     (let hash = fold (\<lambda>peer. finsert (Peer_StoreId peer)) a {||}
      in fold (\<lambda>peer intersection. if Peer_StoreId peer |\<in>| hash then finsert (Peer_StoreId peer) intersection
                 else intersection) b {||})"

text \<open>The loop over the target's peers: the steps that add each missing peer, and the first added store.\<close>

fun match_adds :: "'c Cluster \<Rightarrow> u64 fset \<Rightarrow> metapb_Peer list \<Rightarrow> OperatorStep list list \<Rightarrow> u64 \<Rightarrow> OperatorKind \<Rightarrow> 'c \<Rightarrow>
    'c \<times> (op_error + OperatorStep list list \<times> u64 \<times> OperatorKind)" where
  "match_adds cluster intersection [] toAdds targetLeader kind c = (c, Inr (toAdds, targetLeader, kind))"
| "match_adds cluster intersection (peer # peers) toAdds targetLeader kind c =
     (let storeID = Peer_StoreId peer
      in if storeID |\<in>| intersection then match_adds cluster intersection peers toAdds targetLeader kind c
         else case cl_AllocPeer cluster c storeID of
                (c, Inl err) \<Rightarrow> (c, Inl err)
              | (c, Inr peer) \<Rightarrow>
                  match_adds cluster intersection peers (toAdds @ [CreateAddPeerSteps storeID (Peer_Id peer) cluster])
                    (if targetLeader = 0 then storeID else targetLeader) (kind OR OpRegion) c)"

fun match_leader :: "u64 \<Rightarrow> u64 \<Rightarrow> u64 list \<Rightarrow> u64" where
  "match_leader leaderID targetLeader [] = targetLeader"
| "match_leader leaderID targetLeader (storeID # order) =
     (if storeID = leaderID then 0 else match_leader leaderID storeID order)"

text \<open>The loop over the source's peers; reading \<open>toAdds\<close> behind its end panics.\<close>

fun match_removes :: "u64 fset \<Rightarrow> u64 \<Rightarrow> u64 \<Rightarrow> OperatorStep list list \<Rightarrow> metapb_Peer list \<Rightarrow> nat \<Rightarrow> OperatorStep list \<Rightarrow>
    OperatorKind \<Rightarrow> (nat \<times> OperatorStep list \<times> OperatorKind) option" where
  "match_removes intersection targetLeader leaderID toAdds [] index steps kind = Some (index, steps, kind)"
| "match_removes intersection targetLeader leaderID toAdds (peer # peers) index steps kind =
     (if Peer_StoreId peer |\<in>| intersection
      then match_removes intersection targetLeader leaderID toAdds peers index steps kind
      else if targetLeader \<noteq> 0 \<and> Peer_StoreId peer = leaderID
      then match_removes intersection targetLeader leaderID toAdds peers index steps kind
      else if index < length toAdds
      then match_removes intersection targetLeader leaderID toAdds peers (index + 1)
             (steps @ toAdds ! index @ [RemovePeer (Peer_StoreId peer)]) (kind OR OpRegion)
      else None)"

text \<open>What follows the loop over the source's peers: the leader goes last.\<close>

definition match_last :: "u64 \<Rightarrow> u64 \<Rightarrow> OperatorStep list list \<Rightarrow> nat \<times> OperatorStep list \<times> OperatorKind \<Rightarrow>
    (op_error + OperatorStep list \<times> OperatorKind) option" where
  "match_last targetLeader leaderID toAdds res =
     (case res of (index, steps, kind) \<Rightarrow>
        let wrong_count = (\<lambda>index steps kind. if index \<noteq> length toAdds then Inl ErrWrongCount else Inr (steps, kind))
        in if targetLeader \<noteq> 0
           then if index < length toAdds
                then Some (wrong_count (index + 1)
                       (steps @ toAdds ! index @ [TransferLeader leaderID targetLeader, RemovePeer leaderID])
                       (kind OR OpLeader OR OpRegion))
                else None
           else Some (wrong_count index steps kind))"

definition matchPeerSteps :: "u64 list \<Rightarrow> 'c Cluster \<Rightarrow> RegionInfo \<Rightarrow> RegionInfo \<Rightarrow> 'c \<Rightarrow>
    'c \<times> (op_error + OperatorStep list \<times> OperatorKind) option" where
  "matchPeerSteps order cluster source target c =
     (let sourcePeers = RegionInfo_GetPeers source;
          targetPeers = RegionInfo_GetPeers target
      in if length sourcePeers \<noteq> length targetPeers then (c, Some (Inl ErrMismatchCount))
         else let intersection = getIntersectionStores sourcePeers targetPeers
              in case match_adds cluster intersection targetPeers [] 0 0 c of
                   (c, Inl err) \<Rightarrow> (c, Some (Inl err))
                 | (c, Inr (toAdds, targetLeader, kind)) \<Rightarrow>
                     let leaderID = Peer_GetStoreId (ri_leader source);
                         targetLeader = match_leader leaderID targetLeader order;
                         transfer = (fcard intersection \<noteq> 0 \<and> targetLeader \<noteq> 0);
                         steps = (if transfer then [TransferLeader leaderID targetLeader] else []);
                         kind = (if transfer then kind OR OpLeader else kind);
                         targetLeader = (if transfer then 0 else targetLeader)
                     in (c, Option.bind (match_removes intersection targetLeader leaderID toAdds sourcePeers 0 steps kind)
                              (match_last targetLeader leaderID toAdds)))"

definition CreateMergeRegionOperator :: "time \<Rightarrow> u64 list \<Rightarrow> string \<Rightarrow> 'c Cluster \<Rightarrow> RegionInfo \<Rightarrow> RegionInfo \<Rightarrow>
    OperatorKind \<Rightarrow> 'c \<Rightarrow> 'c \<times> (op_error + Operator list) option" where
  "CreateMergeRegionOperator now order desc cluster source target kind c =
     (case matchPeerSteps order cluster source target c of
        (c, None) \<Rightarrow> (c, None)
      | (c, Some (Inl err)) \<Rightarrow> (c, Some (Inl err))
      | (c, Some (Inr (steps, kinds))) \<Rightarrow>
          let steps = steps @ [MergeRegion (ri_meta source) (ri_meta target) False];
              op1 = new_op now desc source (kinds OR kind OR OpMerge) steps;
              op2 = new_op now desc target (kinds OR kind OR OpMerge) [MergeRegion (ri_meta source) (ri_meta target) True]
          in (c, Some (Inr [op1, op2])))"

subsection \<open>Scattering a region\<close>

text \<open>
  The loop over the other target peers; \<open>replacedPeers\<close> is read at the same position, so it is cut in
  step with \<open>targetPeers\<close> and running out of it panics.
\<close>

fun scatter_loop :: "'c Cluster \<Rightarrow> RegionInfo \<Rightarrow> u64 \<Rightarrow> metapb_Peer list \<Rightarrow> metapb_Peer list \<Rightarrow>
    OperatorStep list \<Rightarrow> OperatorStep list \<Rightarrow> OperatorKind \<Rightarrow> (OperatorStep list \<times> OperatorStep list \<times> OperatorKind) option" where
  "scatter_loop cluster origin leaderPeerID [] replaced steps deferSteps kind = Some (steps, deferSteps, kind)"
| "scatter_loop cluster origin leaderPeerID (peer # peers) replaced steps deferSteps kind =
     (if Peer_Id peer = leaderPeerID
      then scatter_loop cluster origin leaderPeerID peers (drop 1 replaced) steps deferSteps kind
      else if Peer_StoreId peer |\<in>| RegionInfo_GetStoreIds origin
      then scatter_loop cluster origin leaderPeerID peers (drop 1 replaced) steps deferSteps kind
      else case replaced of
             [] \<Rightarrow> None
           | r # _ \<Rightarrow>
               let st = CreateAddLightPeerSteps (Peer_StoreId peer) (Peer_Id peer) cluster @ [RemovePeer (Peer_StoreId r)]
               in if Peer_StoreId r = Peer_GetStoreId (ri_leader origin)
                  then scatter_loop cluster origin leaderPeerID peers (drop 1 replaced) steps (deferSteps @ st)
                         (kind OR OpRegion OR OpLeader)
                  else scatter_loop cluster origin leaderPeerID peers (drop 1 replaced) (steps @ st) deferSteps
                         (kind OR OpRegion))"

text \<open>The steps for the chosen leader: the steps, the deferred steps and the kind to start with.\<close>

definition scatter_first :: "'c Cluster \<Rightarrow> RegionInfo \<Rightarrow> metapb_Peer list \<Rightarrow> metapb_Peer \<Rightarrow> nat \<Rightarrow>
    (OperatorStep list \<times> OperatorStep list \<times> OperatorKind) option" where
  "scatter_first cluster origin replacedPeers leader i =
     (let originLeader = Peer_GetStoreId (ri_leader origin);
          target = Peer_StoreId leader
      in if target |\<notin>| RegionInfo_GetStoreIds origin
         then if i < length replacedPeers
              then Some (CreateAddLightPeerSteps target (Peer_Id leader) cluster,
                     [TransferLeader originLeader target, RemovePeer (Peer_StoreId (replacedPeers ! i))],
                     OpLeader OR OpRegion)
              else None
         else if target \<noteq> originLeader then Some ([TransferLeader originLeader target], [], OpLeader)
         else Some ([], [], 0))"

text \<open>A nil operator is the inner \<open>None\<close>; the draw \<open>i\<close> is below the number of targets.\<close>

definition CreateScatterRegionOperator :: "time \<Rightarrow> nat \<Rightarrow> string \<Rightarrow> 'c Cluster \<Rightarrow> RegionInfo \<Rightarrow> metapb_Peer list \<Rightarrow>
    metapb_Peer list \<Rightarrow> Operator option option" where
  "CreateScatterRegionOperator now i desc cluster origin replacedPeers targetPeers =
     (if targetPeers = [] then None
      else let leader = targetPeers ! i;
               sameLeader = (Peer_StoreId leader = Peer_GetStoreId (ri_leader origin))
           in if sameLeader \<and> list_all (\<lambda>peer. Peer_StoreId peer |\<in>| RegionInfo_GetStoreIds origin) targetPeers
              then Some None
              else Option.bind (scatter_first cluster origin replacedPeers leader i)
                     (\<lambda>(steps, deferSteps, kind).
                        map_option (\<lambda>(steps, deferSteps, kind). Some (new_op now desc origin kind (steps @ deferSteps)))
                          (scatter_loop cluster origin (Peer_Id leader) targetPeers replacedPeers steps deferSteps kind)))"

end
