(* ===== verification/OperatorRun.thy ===== *)
theory OperatorRun
  imports OperatorCreate
begin

text \<open>
  \<open>server/schedule/test_util.go\<close>: running an operator on a region. \<open>ApplyOperatorStep\<close> is the code's own
  account of what the stores do with each step; it panics on a step that cannot be carried out, and the
  loop of \<open>ApplyOperator\<close> ends only if every step gets finished. The lemmas reduce a run to the
  sequence of steps and give the effect of adding, transferring and removing on the list of peers.
\<close>

definition voter :: "u64 \<Rightarrow> u64 \<Rightarrow> metapb_Peer" where
  "voter peerID toStore = \<lparr>Peer_Id = peerID, Peer_StoreId = toStore, Peer_IsLearner = False\<rparr>"

definition learner :: "u64 \<Rightarrow> u64 \<Rightarrow> metapb_Peer" where
  "learner peerID toStore = \<lparr>Peer_Id = peerID, Peer_StoreId = toStore, Peer_IsLearner = True\<rparr>"

fun apply_step :: "OperatorStep \<Rightarrow> RegionInfo \<Rightarrow> RegionInfo option" where
  "apply_step (TransferLeader fromStore toStore) region =
     Some (RegionInfo_Clone region [WithLeader (RegionInfo_GetStorePeer region toStore)])"
| "apply_step (AddPeer toStore peerID) region =
     (if RegionInfo_GetStorePeer region toStore \<noteq> None then None
      else Some (RegionInfo_Clone region [WithAddPeer (voter peerID toStore)]))"
| "apply_step (AddLightPeer toStore peerID) region =
     (if RegionInfo_GetStorePeer region toStore \<noteq> None then None
      else Some (RegionInfo_Clone region [WithAddPeer (voter peerID toStore)]))"
| "apply_step (RemovePeer fromStore) region =
     (if RegionInfo_GetStorePeer region fromStore = None then None
      else if Peer_GetStoreId (ri_leader region) = fromStore then None
      else Some (RegionInfo_Clone region [WithRemoveStorePeer fromStore]))"
| "apply_step (AddLearner toStore peerID) region =
     (if RegionInfo_GetStorePeer region toStore \<noteq> None then None
      else Some (RegionInfo_Clone region [WithAddPeer (learner peerID toStore)]))"
| "apply_step (AddLightLearner toStore peerID) region =
     (if RegionInfo_GetStorePeer region toStore \<noteq> None then None
      else Some (RegionInfo_Clone region [WithAddPeer (learner peerID toStore)]))"
| "apply_step (PromoteLearner toStore peerID) region =
     (if RegionInfo_GetStoreLearner region toStore = None then None
      else Some (RegionInfo_Clone region [WithRemoveStorePeer toStore, WithAddPeer (voter peerID toStore)]))"
| "apply_step (MergeRegion fromRegion toRegion isPassive) region = None"
| "apply_step (SplitRegion startKey endKey policy) region = None"

definition ApplyOperatorStep :: "time \<Rightarrow> RegionInfo \<Rightarrow> Operator \<Rightarrow> (RegionInfo \<times> Operator) option" where
  "ApplyOperatorStep now region op =
     (case Operator_Check now op region of
        (op, None) \<Rightarrow> Some (region, op)
      | (op, Some st) \<Rightarrow> map_option (\<lambda>region. (region, op)) (apply_step st region))"

text \<open>The loop of \<open>ApplyOperator\<close>: \<open>None\<close> when a step panics or the loop does not end.\<close>

partial_function (option) ApplyOperator :: "time \<Rightarrow> RegionInfo \<Rightarrow> Operator \<Rightarrow> (RegionInfo \<times> Operator) option" where
  "ApplyOperator now region op =
     (if Operator_IsFinish op then Some (region, op)
      else Option.bind (ApplyOperatorStep now region op) (\<lambda>(region, op). ApplyOperator now region op))"

text \<open>A given number of rounds of that loop, for operators whose last step is for the stores alone.\<close>

fun ApplySteps :: "nat \<Rightarrow> time \<Rightarrow> RegionInfo \<Rightarrow> Operator \<Rightarrow> (RegionInfo \<times> Operator) option" where
  "ApplySteps 0 now region op = Some (region, op)"
| "ApplySteps (Suc n) now region op =
     Option.bind (ApplyOperatorStep now region op) (\<lambda>(region, op). ApplySteps n now region op)"

subsection \<open>From operators to sequences of steps\<close>

fun run_steps :: "OperatorStep list \<Rightarrow> RegionInfo \<Rightarrow> RegionInfo option" where
  "run_steps [] region = Some region"
| "run_steps (st # rest) region =
     (if step_IsFinish st region then run_steps rest region
      else case apply_step st region of
             None \<Rightarrow> None
           | Some region \<Rightarrow> if step_IsFinish st region then run_steps rest region else None)"

lemma run_steps_append: "run_steps (xs @ ys) region = Option.bind (run_steps xs region) (run_steps ys)"
  by (induction xs arbitrary: region) (auto split: option.splits)

abbreviation advance :: "time \<Rightarrow> Operator \<Rightarrow> Operator" where
  "advance now op \<equiv> op\<lparr>op_currentStep := op_currentStep op + 1, op_stepTime := wrap64 now\<rparr>"

lemma Operator_Check_advance:
  assumes "drop (op_currentStep op) (op_steps op) = st # rest" "step_IsFinish st region"
  shows "Operator_Check now op region = Operator_Check now (advance now op) region"
proof -
  have "drop (op_currentStep op + 1) (op_steps op) = rest"
    using assms(1) by (metis Suc_eq_plus1 drop_Suc_Cons drop_drop drop0 plus_1_eq_Suc)
  then show ?thesis using assms by (simp add: Operator_Check_def)
qed

lemma not_finish_drop: "drop (op_currentStep op) (op_steps op) = st # rest \<Longrightarrow> \<not> Operator_IsFinish op"
  unfolding Operator_IsFinish_def by (metis drop_all list.distinct(1))

lemma ApplyOperator_advance:
  assumes "drop (op_currentStep op) (op_steps op) = st # rest" "step_IsFinish st region"
  shows "ApplyOperator now region op = ApplyOperator now region (advance now op)"
proof (cases "rest")
  case Nil
  then have "ApplyOperatorStep now region op = Some (region, advance now op)"
    using assms by (simp add: ApplyOperatorStep_def Operator_Check_def)
  then show ?thesis
    using not_finish_drop [OF assms(1)] by (subst ApplyOperator.simps) simp
next
  case (Cons st' rest')
  have "drop (op_currentStep (advance now op)) (op_steps (advance now op)) = st' # rest'"
    using assms(1) Cons by simp (metis drop_Suc_Cons drop_drop drop0 plus_1_eq_Suc)
  from not_finish_drop [OF this] not_finish_drop [OF assms(1)]
  show ?thesis
    by (subst (1 2) ApplyOperator.simps)
      (simp add: ApplyOperatorStep_def Operator_Check_advance [OF assms, of now])
qed

lemma ApplyOperator_run:
  assumes "run_steps (drop (op_currentStep op) (op_steps op)) region = Some region'"
  shows "\<exists>op'. ApplyOperator now region op = Some (region', op') \<and> Operator_IsFinish op'"
  using assms
proof (induction "drop (op_currentStep op) (op_steps op)" arbitrary: op region)
  case Nil
  then have "Operator_IsFinish op" by (simp add: Operator_IsFinish_def)
  then show ?case using Nil by (subst ApplyOperator.simps) simp
next
  case (Cons st rest)
  note dr = Cons.hyps(2) [symmetric]
  have tail: "rest = drop (op_currentStep (advance now op)) (op_steps (advance now op))"
    using dr by simp (metis drop_Suc_Cons drop_drop drop0 plus_1_eq_Suc)
  have ih: "\<exists>op'. ApplyOperator now r (advance now op) = Some (region', op') \<and> Operator_IsFinish op'"
    if "run_steps rest r = Some region'" for r
    using Cons.hyps(1) [OF tail, of r] that unfolding tail [symmetric] by blast
  show ?case
  proof (cases "step_IsFinish st region")
    case True
    then show ?thesis
      using Cons.prems ih [of region] ApplyOperator_advance [OF dr True, of now] dr by simp
  next
    case False
    with Cons.prems dr obtain r1 where r1: "apply_step st region = Some r1" "step_IsFinish st r1" "run_steps rest r1 = Some region'"
      by (auto split: option.splits if_splits)
    have "ApplyOperatorStep now region op = Some (r1, op)"
      using dr False r1 by (simp add: ApplyOperatorStep_def Operator_Check_def)
    then have "ApplyOperator now region op = ApplyOperator now r1 op"
      using not_finish_drop [OF dr] by (subst ApplyOperator.simps) simp
    then show ?thesis
      using ih [OF r1(3)] ApplyOperator_advance [OF dr r1(2), of now] by simp
  qed
qed

lemma ApplyOperator_new:
  assumes "run_steps steps region = Some region'"
  shows "\<exists>op'. ApplyOperator now region (NewOperator t desc i e kind steps) = Some (region', op') \<and> Operator_IsFinish op'"
  by (rule ApplyOperator_run) (simp add: NewOperator_def assms)

lemma ApplySteps_advance:
  assumes "drop (op_currentStep op) (op_steps op) = st # rest" "step_IsFinish st region"
    and "ApplySteps n now region (advance now op) = Some (region', op')" "snd (Operator_Check now op' region') = Some m"
  shows "\<exists>n op'. ApplySteps n now region op = Some (region', op') \<and> snd (Operator_Check now op' region') = Some m"
proof (cases n)
  case 0
  then show ?thesis
    using assms Operator_Check_advance [OF assms(1,2), of now] by (intro exI [of _ 0] exI [of _ op]) auto
next
  case (Suc k)
  then show ?thesis
    using assms(3,4) Operator_Check_advance [OF assms(1,2), of now]
    by (intro exI [of _ n] exI [of _ op']) (simp add: ApplyOperatorStep_def)
qed

lemma ApplySteps_until:
  assumes "drop (op_currentStep op) (op_steps op) = steps @ [m]" "run_steps steps region = Some region'"
    and "\<not> step_IsFinish m region'"
  shows "\<exists>n op'. ApplySteps n now region op = Some (region', op') \<and> snd (Operator_Check now op' region') = Some m"
  using assms
proof (induction steps arbitrary: op region)
  case Nil
  then show ?case by (intro exI [of _ 0] exI [of _ op]) (simp add: Operator_Check_def)
next
  case (Cons st rest)
  have tail: "drop (op_currentStep (advance now op)) (op_steps (advance now op)) = rest @ [m]"
    using Cons.prems(1) by simp (metis drop_Suc_Cons drop_drop drop0 plus_1_eq_Suc)
  have dr: "drop (op_currentStep op) (op_steps op) = st # rest @ [m]" using Cons.prems(1) by simp
  have finished: "\<exists>n op'. ApplySteps n now r op = Some (region', op') \<and> snd (Operator_Check now op' region') = Some m"
    if "step_IsFinish st r" "run_steps rest r = Some region'" for r
    using Cons.IH [OF tail that(2) Cons.prems(3)] ApplySteps_advance [OF dr that(1)] by blast
  show ?case
  proof (cases "step_IsFinish st region")
    case True
    then show ?thesis using finished Cons.prems(2) by simp
  next
    case False
    with Cons.prems(2) obtain r1 where r1: "apply_step st region = Some r1" "step_IsFinish st r1" "run_steps rest r1 = Some region'"
      by (auto split: option.splits if_splits)
    have "ApplyOperatorStep now region op = Some (r1, op)"
      using dr False r1 by (simp add: ApplyOperatorStep_def Operator_Check_def)
    moreover obtain n op' where "ApplySteps n now r1 op = Some (region', op')" "snd (Operator_Check now op' region') = Some m"
      using finished [OF r1(2,3)] by blast
    ultimately show ?thesis by (intro exI [of _ "Suc n"] exI [of _ op']) simp
  qed
qed

subsection \<open>The effect of steps on the peers\<close>

definition region_with :: "RegionInfo \<Rightarrow> metapb_Peer list \<Rightarrow> metapb_Peer option \<Rightarrow> RegionInfo" where
  "region_with r ps l = r\<lparr>ri_meta := (ri_meta r)\<lparr>Region_Peers := ps\<rparr>, ri_leader := l,
     ri_learners := filter Peer_IsLearner ps, ri_voters := filter (\<lambda>p. \<not> Peer_IsLearner p) ps\<rparr>"

abbreviation stores :: "metapb_Peer list \<Rightarrow> u64 set" where
  "stores ps \<equiv> Peer_StoreId ` set ps"

lemma region_with_simps [simp]:
  "Region_Peers (ri_meta (region_with r ps l)) = ps" "ri_leader (region_with r ps l) = l"
  "ri_voters (region_with r ps l) = filter (\<lambda>p. \<not> Peer_IsLearner p) ps"
  "ri_learners (region_with r ps l) = filter Peer_IsLearner ps"
  "ri_pendingPeers (region_with r ps l) = ri_pendingPeers r"
  by (simp_all add: region_with_def)

lemma region_with_self:
  "region_classified r \<Longrightarrow> region_with r (Region_Peers (ri_meta r)) (ri_leader r) = r"
  by (simp add: region_with_def region_classified_def)

lemma Clone_region_with:
  "RegionInfo_Clone (region_with r ps l) [WithLeader x] = region_with r ps x"
  "RegionInfo_Clone (region_with r ps l) [WithAddPeer p] = region_with r (ps @ [p]) l"
  "RegionInfo_Clone (region_with r ps l) [WithRemoveStorePeer s] = region_with r (filter (\<lambda>p. Peer_StoreId p \<noteq> s) ps) l"
  "RegionInfo_Clone (region_with r ps l) [WithRemoveStorePeer s, WithAddPeer p] =
     region_with r (filter (\<lambda>p. Peer_StoreId p \<noteq> s) ps @ [p]) l"
  by (simp_all add: RegionInfo_Clone_def apply_opts_def region_option_defs classifyVoterAndLearner_eq region_with_def Let_def)

lemma find_store_None: "List.find (\<lambda>p. Peer_StoreId p = s) ps = None \<longleftrightarrow> s \<notin> stores ps"
  by (auto simp: find_None_iff)

lemma find_store_Some:
  "distinct (map Peer_StoreId ps) \<Longrightarrow> p \<in> set ps \<Longrightarrow> List.find (\<lambda>q. Peer_StoreId q = Peer_StoreId p) ps = Some p"
  by (induction ps) auto

lemma find_append_new: "s \<notin> stores ps \<Longrightarrow> Peer_StoreId p = s \<Longrightarrow> List.find (\<lambda>q. Peer_StoreId q = s) (ps @ [p]) = Some p"
  by (induction ps) auto

lemma find_filter_new:
  "s \<notin> stores ps \<Longrightarrow> List.find (\<lambda>q. Peer_StoreId q = s) ps = None"
  "s \<notin> stores ps \<Longrightarrow> List.find (\<lambda>q. Peer_StoreId q = s) (filter P ps) = None"
  "s \<notin> stores ps \<Longrightarrow> Peer_StoreId p = s \<Longrightarrow> List.find (\<lambda>q. Peer_StoreId q = s) (filter P ps @ [p]) = Some p"
  by (auto simp: find_None_iff intro!: find_append_new)

lemma filter_new: "s \<notin> stores ps \<Longrightarrow> filter (\<lambda>q. Peer_StoreId q \<noteq> s) ps = ps"
  by (auto simp: filter_id_conv)

definition not_pending :: "RegionInfo \<Rightarrow> u64 \<Rightarrow> bool" where
  "not_pending r i \<longleftrightarrow> (\<forall>p \<in> set (ri_pendingPeers r). Peer_Id p \<noteq> i)"

text \<open>A group of steps that puts a new voter on a store, whatever the region otherwise looks like.\<close>

definition adds_voter :: "OperatorStep list \<Rightarrow> u64 \<Rightarrow> u64 \<Rightarrow> bool" where
  "adds_voter steps s i \<longleftrightarrow>
     (\<forall>r ps l rest. s \<notin> stores ps \<and> not_pending r i \<longrightarrow>
        run_steps (steps @ rest) (region_with r ps l) = run_steps rest (region_with r (ps @ [voter i s]) l))"

lemma pending_None:
  "not_pending r i \<Longrightarrow> RegionInfo_GetPendingVoter (region_with r ps l) i = None"
  "not_pending r i \<Longrightarrow> RegionInfo_GetPendingLearner (region_with r ps l) i = None"
  by (auto simp: RegionInfo_GetPendingVoter_def RegionInfo_GetPendingLearner_def find_None_iff not_pending_def)

lemmas step_run_simps = step_finish_defs RegionInfo_GetStoreVoter_def RegionInfo_GetStoreLearner_def RegionInfo_GetStorePeer_def
  find_store_None find_append_new find_filter_new pending_None Clone_region_with filter_new

lemma CreateAddPeerSteps_adds: "adds_voter (CreateAddPeerSteps s i cluster) s i"
  by (simp add: adds_voter_def CreateAddPeerSteps_def step_run_simps voter_def learner_def)

lemma CreateAddLightPeerSteps_adds: "adds_voter (CreateAddLightPeerSteps s i cluster) s i"
  by (simp add: adds_voter_def CreateAddLightPeerSteps_def step_run_simps voter_def learner_def)

lemma run_transfer:
  assumes "distinct (map Peer_StoreId ps)" "q \<in> set ps" "p \<in> set ps" "Peer_StoreId p = t"
  shows "run_steps (TransferLeader f t # rest) (region_with r ps (Some q)) = run_steps rest (region_with r ps (Some p))"
proof (cases "Peer_StoreId q = t")
  case True
  then have "q = p" using assms by (metis find_store_Some option.inject)
  then show ?thesis using True by (simp add: step_run_simps)
next
  case False
  then show ?thesis using find_store_Some [OF assms(1,3)] assms(4) by (simp add: step_run_simps)
qed

lemma run_remove:
  assumes "Peer_StoreId q \<noteq> s"
  shows "run_steps (RemovePeer s # rest) (region_with r ps (Some q)) =
    run_steps rest (region_with r (filter (\<lambda>p. Peer_StoreId p \<noteq> s) ps) (Some q))"
  using assms by (auto simp: step_run_simps)

end
