(* ===== verification/OperatorGoals.thy ===== *)
theory OperatorGoals
  imports OperatorRun
begin

text \<open>
  What the operators achieve: running the operator built by each \<open>Create\<close> function ends, never panics,
  and leaves the region with exactly the peers the operator is for and a voter as its leader.
\<close>

subsection \<open>Rounds of adding one peer and removing another\<close>

text \<open>A round: the steps that add a peer, its store and id, and the store to remove from.\<close>

type_synonym op_round = "OperatorStep list \<times> u64 \<times> u64 \<times> u64"

definition round_steps :: "op_round \<Rightarrow> OperatorStep list" where
  "round_steps = (\<lambda>(steps, s, i, x). steps @ [RemovePeer x])"

definition round_peer :: "op_round \<Rightarrow> metapb_Peer" where
  "round_peer = (\<lambda>(steps, s, i, x). voter i s)"

definition round_from :: "op_round \<Rightarrow> u64" where
  "round_from = (\<lambda>(steps, s, i, x). x)"

definition round_ok :: "RegionInfo \<Rightarrow> op_round \<Rightarrow> bool" where
  "round_ok r = (\<lambda>(steps, s, i, x). adds_voter steps s i \<and> not_pending r i)"

lemma voter_simps [simp]: "Peer_Id (voter i s) = i" "Peer_StoreId (voter i s) = s" "\<not> Peer_IsLearner (voter i s)"
  by (simp_all add: voter_def)

lemma round_simps [simp]:
  "round_steps (steps, s, i, x) = steps @ [RemovePeer x]" "round_peer (steps, s, i, x) = voter i s"
  "round_from (steps, s, i, x) = x" "round_ok r (steps, s, i, x) \<longleftrightarrow> adds_voter steps s i \<and> not_pending r i"
  by (simp_all add: round_steps_def round_peer_def round_from_def round_ok_def)

lemma adds_voterD:
  "adds_voter steps s i \<Longrightarrow> s \<notin> stores ps \<Longrightarrow> not_pending r i \<Longrightarrow>
   run_steps (steps @ rest) (region_with r ps l) = run_steps rest (region_with r (ps @ [voter i s]) l)"
  by (simp add: adds_voter_def)

lemma run_rounds:
  assumes "\<forall>rd \<in> set rounds. round_ok r rd" "distinct (map (Peer_StoreId \<circ> round_peer) rounds)"
    and "stores (map round_peer rounds) \<inter> stores ps = {}"
    and "stores (map round_peer rounds) \<inter> round_from ` set rounds = {}"
    and "Peer_StoreId q \<notin> round_from ` set rounds"
  shows "run_steps (concat (map round_steps rounds) @ rest) (region_with r ps (Some q)) =
    run_steps rest (region_with r (filter (\<lambda>p. Peer_StoreId p \<notin> round_from ` set rounds) ps @ map round_peer rounds) (Some q))"
  using assms
proof (induction rounds arbitrary: ps)
  case (Cons rd rounds)
  obtain st s i x where rd: "rd = (st, s, i, x)" by (cases rd) auto
  let ?ps = "filter (\<lambda>p. Peer_StoreId p \<noteq> x) ps @ [voter i s]"
  have ne: "s \<noteq> x" "Peer_StoreId q \<noteq> x" "s \<notin> stores ps" "adds_voter st s i" "not_pending r i"
    "s \<notin> round_from ` set rounds"
    using Cons.prems by (auto simp: rd)
  have "stores ?ps \<subseteq> insert s (stores ps)" "s \<notin> stores (map round_peer rounds)"
    "stores (map round_peer rounds) \<inter> stores ps = {}"
    using Cons.prems(2,3) by (auto simp: rd image_image)
  then have disj: "stores (map round_peer rounds) \<inter> stores ?ps = {}" by blast
  have "run_steps (concat (map round_steps (rd # rounds)) @ rest) (region_with r ps (Some q)) =
      run_steps (concat (map round_steps rounds) @ rest) (region_with r ?ps (Some q))"
    using ne by (simp add: rd adds_voterD run_remove del: run_steps.simps)
  also have "\<dots> = run_steps rest (region_with r (filter (\<lambda>p. Peer_StoreId p \<notin> round_from ` set rounds) ?ps @
      map round_peer rounds) (Some q))"
    using Cons.prems(1,2,4,5) disj by (intro Cons.IH) auto
  also have "filter (\<lambda>p. Peer_StoreId p \<notin> round_from ` set rounds) ?ps @ map round_peer rounds =
      filter (\<lambda>p. Peer_StoreId p \<notin> round_from ` set (rd # rounds)) ps @ map round_peer (rd # rounds)"
    using ne by (auto simp: rd intro: filter_cong)
  finally show ?case .
qed simp

subsection \<open>Well-formed regions\<close>

definition region_ok :: "RegionInfo \<Rightarrow> bool" where
  "region_ok r \<longleftrightarrow> region_classified r \<and> distinct (map Peer_StoreId (RegionInfo_GetPeers r)) \<and>
     (\<exists>q \<in> set (RegionInfo_GetPeers r). ri_leader r = Some q \<and> \<not> Peer_IsLearner q)"

lemma GetStoreIds_iff: "s |\<in>| RegionInfo_GetStoreIds r \<longleftrightarrow> s \<in> stores (RegionInfo_GetPeers r)"
  by (simp add: RegionInfo_GetStoreIds_def fset_of_list.rep_eq)

lemma region_okE:
  assumes "region_ok r"
  obtains q where "ri_leader r = Some q" "q \<in> set (RegionInfo_GetPeers r)" "\<not> Peer_IsLearner q"
    "distinct (map Peer_StoreId (RegionInfo_GetPeers r))" "r = region_with r (RegionInfo_GetPeers r) (Some q)"
  using assms region_with_self [of r] unfolding region_ok_def RegionInfo_GetPeers_def by metis

lemma region_with_classified [simp]: "region_classified (region_with r ps l)"
  by (simp add: region_classified_def)

lemma region_ok_with:
  "region_ok (region_with r ps (Some q)) \<longleftrightarrow> distinct (map Peer_StoreId ps) \<and> q \<in> set ps \<and> \<not> Peer_IsLearner q"
  by (auto simp: region_ok_def)

lemma GetFollowers_lookup:
  assumes "fmlookup (RegionInfo_GetFollowers r) s = Some p"
  shows "p \<in> set (ri_voters r) \<and> is_follower r p \<and> Peer_StoreId p = s"
proof -
  have "fmlookup (fold (\<lambda>p m. if is_follower r p then fmupd (Peer_StoreId p) p m else m) vs m) s = Some p \<Longrightarrow>
      fmlookup m s = Some p \<or> (p \<in> set vs \<and> is_follower r p \<and> Peer_StoreId p = s)" for vs m
  proof (induction vs arbitrary: m)
    case (Cons v vs)
    from Cons.IH [of "if is_follower r v then fmupd (Peer_StoreId v) v m else m"] Cons.prems
    show ?case by (auto split: if_splits)
  qed simp
  from this [of "ri_voters r" fmempty] assms show ?thesis by (simp add: RegionInfo_GetFollowers_def)
qed

text \<open>A candidate of \<open>getRegionFollowerIDs\<close> is the store of a voter other than the leader.\<close>

lemma followerIDs_voter:
  assumes "region_ok r" "s \<in> set (getRegionFollowerIDs order r)"
  obtains p where "p \<in> set (RegionInfo_GetPeers r)" "\<not> Peer_IsLearner p" "Peer_StoreId p = s" "s \<noteq> Peer_GetStoreId (ri_leader r)"
proof -
  obtain q where q: "ri_leader r = Some q" "q \<in> set (RegionInfo_GetPeers r)" "distinct (map Peer_StoreId (RegionInfo_GetPeers r))"
    using assms(1) by (rule region_okE)
  obtain p where p: "p \<in> set (ri_voters r)" "is_follower r p" "Peer_StoreId p = s"
    using assms(2) GetFollowers_lookup by (fastforce simp: getRegionFollowerIDs_def fmhas_def)
  have "p \<in> set (RegionInfo_GetPeers r)" "\<not> Peer_IsLearner p"
    using assms(1) p(1) by (auto simp: region_ok_def region_classified_def)
  moreover have "s \<noteq> Peer_GetStoreId (ri_leader r)"
  proof
    assume "s = Peer_GetStoreId (ri_leader r)"
    then have "p = q" using find_store_Some [OF q(3,2)] find_store_Some [OF q(3) calculation(1)] p(3) q(1) by simp
    then show False using p(2) q(1) by (simp add: is_follower_def)
  qed
  ultimately show ?thesis using that p by blast
qed

subsection \<open>Removing and moving a peer\<close>

lemma removePeerSteps_run:
  assumes "removePeerSteps cluster region old cs = Inr (k, steps)" "ri_leader region = Some q"
    and "distinct (map Peer_StoreId ps)" "q \<in> set ps" "\<not> Peer_IsLearner q"
    and "\<And>s. s \<in> set cs \<Longrightarrow> Peer_StoreId q = old \<Longrightarrow> \<exists>p \<in> set ps. \<not> Peer_IsLearner p \<and> Peer_StoreId p = s \<and> s \<noteq> old"
  shows "\<exists>q'. run_steps steps (region_with r ps (Some q)) =
      Some (region_with r (filter (\<lambda>p. Peer_StoreId p \<noteq> old) ps) (Some q')) \<and>
    q' \<in> set ps \<and> Peer_StoreId q' \<noteq> old \<and> \<not> Peer_IsLearner q' \<and>
    (if Peer_StoreId q = old then Peer_StoreId q' \<in> set cs \<and> may_lead cluster (Peer_StoreId q') else q' = q)"
proof (cases "Peer_StoreId q = old")
  case True
  then obtain s where s: "List.find (may_lead cluster) cs = Some s" "steps = [TransferLeader old s, RemovePeer old]"
    using assms(1,2) by (auto simp: removePeerSteps_def split: option.splits)
  then have "may_lead cluster s" "s \<in> set cs" by (auto dest: find_Some_set)
  moreover from assms(6) [OF this(2) True] obtain p
    where p: "p \<in> set ps" "\<not> Peer_IsLearner p" "Peer_StoreId p = s" "s \<noteq> old" by blast
  moreover have "run_steps steps (region_with r ps (Some q)) = Some (region_with r (filter (\<lambda>p. Peer_StoreId p \<noteq> old) ps) (Some p))"
    using run_transfer [OF assms(3,4) p(1,3)] run_remove [of p old] p by (simp add: s(2) del: run_steps.simps(2))
  ultimately show ?thesis using True by auto
next
  case False
  then have "steps = [RemovePeer old]" using assms(1,2) by (simp add: removePeerSteps_def)
  then show ?thesis using False run_remove [of q old "[]" r ps] assms by (auto simp del: run_steps.simps(2))
qed

lemma removePeerSteps_error:
  "ri_leader region = Some q \<Longrightarrow> removePeerSteps cluster region old cs = Inl e \<longleftrightarrow>
     e = ErrNoFollower \<and> Peer_StoreId q = old \<and> (\<forall>s \<in> set cs. \<not> may_lead cluster s)"
  by (auto simp: removePeerSteps_def find_None_iff split: option.splits dest: find_Some_set)

lemma move_candidate:
  assumes "region_ok region" "ri_leader region = Some q" "q \<in> set (RegionInfo_GetPeers region)"
    and "newStore \<notin> stores (RegionInfo_GetPeers region)"
    and "s \<in> set (getRegionFollowerIDs order region @ [newStore])" "Peer_StoreId q = oldStore"
  shows "\<exists>p \<in> set (RegionInfo_GetPeers region @ [voter peerID newStore]). \<not> Peer_IsLearner p \<and> Peer_StoreId p = s \<and> s \<noteq> oldStore"
proof (cases "s = newStore")
  case True
  then show ?thesis using assms(3,4,6) by auto
next
  case False
  then have "s \<in> set (getRegionFollowerIDs order region)" using assms(5) by simp
  then show ?thesis by (rule followerIDs_voter [OF assms(1)]) (use assms(2,6) in auto)
qed

lemma move_peer_run:
  assumes "region_ok region" "newStore |\<notin>| RegionInfo_GetStoreIds region" "not_pending region peerID"
    and "oldStore |\<in>| RegionInfo_GetStoreIds region" "ri_leader region = Some q"
    and "removePeerSteps cluster region oldStore (getRegionFollowerIDs order region @ [newStore]) = Inr (k, steps)"
  shows "\<exists>q'. run_steps (CreateAddPeerSteps newStore peerID cluster @ steps) region = Some (region_with region
      (filter (\<lambda>p. Peer_StoreId p \<noteq> oldStore) (RegionInfo_GetPeers region) @ [voter peerID newStore]) (Some q')) \<and>
    region_ok (region_with region
      (filter (\<lambda>p. Peer_StoreId p \<noteq> oldStore) (RegionInfo_GetPeers region) @ [voter peerID newStore]) (Some q')) \<and>
    (if Peer_StoreId q = oldStore then may_lead cluster (Peer_StoreId q') else q' = q)"
proof -
  let ?ps = "RegionInfo_GetPeers region" and ?cs = "getRegionFollowerIDs order region @ [newStore]"
  let ?all = "?ps @ [voter peerID newStore]"
  have q: "ri_leader region = Some q" "q \<in> set ?ps" "\<not> Peer_IsLearner q"
    "distinct (map Peer_StoreId ?ps)" "region = region_with region ?ps (Some q)"
    using region_okE [OF assms(1)] assms(5) by fastforce+
  have new: "newStore \<notin> stores ?ps" "newStore \<noteq> oldStore"
    using assms(2,4) by (auto simp: GetStoreIds_iff)
  have dist: "distinct (map Peer_StoreId ?all)" "q \<in> set ?all" using q new by auto
  obtain q' where q': "run_steps steps (region_with region ?all (Some q)) =
      Some (region_with region (filter (\<lambda>p. Peer_StoreId p \<noteq> oldStore) ?all) (Some q'))"
    "q' \<in> set ?all" "Peer_StoreId q' \<noteq> oldStore" "\<not> Peer_IsLearner q'"
    "if Peer_StoreId q = oldStore then Peer_StoreId q' \<in> set ?cs \<and> may_lead cluster (Peer_StoreId q') else q' = q"
    using removePeerSteps_run [OF assms(6) q(1) dist q(3), where r = region] move_candidate [OF assms(1) q(1,2) new(1)]
    by blast
  have "run_steps (CreateAddPeerSteps newStore peerID cluster @ steps) region =
      run_steps steps (region_with region ?all (Some q))"
    using adds_voterD [OF CreateAddPeerSteps_adds new(1) assms(3), where rest = steps and l = "Some q"] q(5) by metis
  moreover have "filter (\<lambda>p. Peer_StoreId p \<noteq> oldStore) ?all = filter (\<lambda>p. Peer_StoreId p \<noteq> oldStore) ?ps @ [voter peerID newStore]"
    using new by simp
  moreover have "region_ok (region_with region (filter (\<lambda>p. Peer_StoreId p \<noteq> oldStore) ?all) (Some q'))"
    using q'(2-4) dist(1) by (auto simp: region_ok_with distinct_map_filter)
  ultimately show ?thesis using q'(1,5) by (intro exI [of _ q']) (auto split: if_splits)
qed


subsection \<open>An instance\<close>

definition sample_cluster :: "u64 Cluster" where
  "sample_cluster = \<lparr>cl_IsRaftLearnerEnabled = True, cl_heap = sample_heap, cl_GetStore = (\<lambda>s. Some (sample_store 1)),
     cl_CheckLabelProperty = (\<lambda>typ labels. False), cl_AllocPeer = (\<lambda>c s. (c + 1, Inr (voter c s)))\<rparr>"

definition sample_region :: "u64 \<Rightarrow> metapb_Peer list \<Rightarrow> RegionInfo" where
  "sample_region i peers = NewRegionInfo
     \<lparr>Region_Id = i, Region_StartKey = [], Region_EndKey = [], Region_RegionEpoch = None, Region_Peers = peers\<rparr> (Some (hd peers)) []"

lemma sample_region_simps [simp]:
  "RegionInfo_GetPeers (sample_region i peers) = peers" "ri_leader (sample_region i peers) = Some (hd peers)"
  "ri_pendingPeers (sample_region i peers) = []" "ri_learners (sample_region i peers) = filter Peer_IsLearner peers"
  "region_classified (sample_region i peers)"
  by (simp_all add: sample_region_def NewRegionInfo_def apply_opts_def classifyVoterAndLearner_eq region_classified_def)


end
