(* ===== verification/OperatorMatch.thy ===== *)
theory OperatorMatch
  imports OperatorGoals
begin

text \<open>
  Merging needs both regions on the same stores. The lemmas follow the three loops of \<open>matchPeerSteps\<close>
  and show that its steps move the source onto the stores of the target before the merge is asked for.
\<close>

subsection \<open>The loops of matchPeerSteps\<close>

lemma getIntersectionStores_iff:
  "s |\<in>| getIntersectionStores a b \<longleftrightarrow> s \<in> stores a \<inter> stores b"
proof -
  have hash: "s |\<in>| fold (\<lambda>peer. finsert (Peer_StoreId peer)) xs A \<longleftrightarrow> s \<in> stores xs \<or> s |\<in>| A" for s xs A
    by (induction xs arbitrary: A) auto
  have meet: "s |\<in>| fold (\<lambda>peer I. if P (Peer_StoreId peer) then finsert (Peer_StoreId peer) I else I) xs A \<longleftrightarrow>
      s \<in> stores xs \<and> P s \<or> s |\<in>| A" for xs A P
    by (induction xs arbitrary: A) auto
  show ?thesis using meet [where P = "\<lambda>s. s \<in> stores a" and xs = b and A = "{||}"]
    by (simp add: getIntersectionStores_def hash conj_commute)
qed

lemma fset_getIntersectionStores: "fset (getIntersectionStores a b) = stores a \<inter> stores b"
  by (rule set_eqI) (rule getIntersectionStores_iff)

text \<open>Every peer id the cluster hands out is unknown to the region.\<close>

definition alloc_fresh :: "'c Cluster \<Rightarrow> RegionInfo \<Rightarrow> bool" where
  "alloc_fresh cluster r \<longleftrightarrow>
     (\<forall>c s c' p. cl_AllocPeer cluster c s = (c', Inr p) \<longrightarrow> not_pending r (Peer_Id p))"

lemma match_adds_result:
  assumes "match_adds cluster I tp toAdds t kind c = (c', Inr (toAdds', t', kind'))" "alloc_fresh cluster r"
    and "0 \<notin> stores tp"
  shows "\<exists>ids. length ids = length (filter (\<lambda>p. Peer_StoreId p |\<notin>| I) tp) \<and> (\<forall>i \<in> set ids. not_pending r i) \<and>
    toAdds' = toAdds @ map2 (\<lambda>p i. CreateAddPeerSteps (Peer_StoreId p) i cluster) (filter (\<lambda>p. Peer_StoreId p |\<notin>| I) tp) ids \<and>
    t' = (if t = 0 \<and> filter (\<lambda>p. Peer_StoreId p |\<notin>| I) tp \<noteq> []
           then Peer_StoreId (hd (filter (\<lambda>p. Peer_StoreId p |\<notin>| I) tp)) else t)"
  using assms
proof (induction tp arbitrary: toAdds t kind c)
  case (Cons p tp)
  show ?case
  proof (cases "Peer_StoreId p |\<in>| I")
    case True
    then have skip: "filter (\<lambda>p. Peer_StoreId p |\<notin>| I) (p # tp) = filter (\<lambda>p. Peer_StoreId p |\<notin>| I) tp" by simp
    show ?thesis unfolding skip by (rule Cons.IH) (use Cons.prems True in auto)
  next
    case False
    then obtain c1 q where q: "cl_AllocPeer cluster c (Peer_StoreId p) = (c1, Inr q)"
      "match_adds cluster I tp (toAdds @ [CreateAddPeerSteps (Peer_StoreId p) (Peer_Id q) cluster])
        (if t = 0 then Peer_StoreId p else t) (kind OR OpRegion) c1 = (c', Inr (toAdds', t', kind'))"
      using Cons.prems(1) by (auto simp: Let_def split: prod.splits sum.splits)
    have new: "not_pending r (Peer_Id q)" using q(1) assms(2) by (auto simp: alloc_fresh_def)
    have nz: "(if t = 0 then Peer_StoreId p else t) \<noteq> 0" "0 \<notin> stores tp" using Cons.prems(3) by auto
    obtain ids where "length ids = length (filter (\<lambda>p. Peer_StoreId p |\<notin>| I) tp) \<and> (\<forall>i \<in> set ids. not_pending r i) \<and>
      toAdds' = (toAdds @ [CreateAddPeerSteps (Peer_StoreId p) (Peer_Id q) cluster]) @
        map2 (\<lambda>p i. CreateAddPeerSteps (Peer_StoreId p) i cluster) (filter (\<lambda>p. Peer_StoreId p |\<notin>| I) tp) ids \<and>
      t' = (if (if t = 0 then Peer_StoreId p else t) = 0 \<and> filter (\<lambda>p. Peer_StoreId p |\<notin>| I) tp \<noteq> []
        then Peer_StoreId (hd (filter (\<lambda>p. Peer_StoreId p |\<notin>| I) tp)) else (if t = 0 then Peer_StoreId p else t))"
      using Cons.IH [OF q(2) assms(2) nz(2)] by (rule exE)
    then show ?thesis using False nz(1) new by (intro exI [of _ "Peer_Id q # ids"]) simp
  qed
qed simp

lemma match_adds_error:
  assumes "match_adds cluster I tp toAdds t kind c = (c', Inl e)"
  shows "\<exists>c s c'. s \<in> stores tp \<and> s |\<notin>| I \<and> cl_AllocPeer cluster c s = (c', Inl e)"
  using assms
proof (induction tp arbitrary: toAdds t kind c)
  case (Cons p tp)
  have rec: "\<exists>c s c'. s \<in> stores (p # tp) \<and> s |\<notin>| I \<and> cl_AllocPeer cluster c s = (c', Inl e)"
    if "match_adds cluster I tp toAdds t kind c = (c', Inl e)" for toAdds t kind c
    using Cons.IH [OF that] by (metis image_eqI insert_iff list.simps(15) imageE)
  show ?case
  proof (cases "Peer_StoreId p |\<in>| I")
    case True
    then show ?thesis using Cons.prems by (intro rec) simp
  next
    case new: False
    show ?thesis
    proof (cases "cl_AllocPeer cluster c (Peer_StoreId p)")
      case (Pair c1 r)
      show ?thesis
      proof (cases r)
        case (Inl e')
        then show ?thesis using Cons.prems Pair new by (intro exI [of _ c] exI [of _ "Peer_StoreId p"] exI [of _ c1]) (simp add: Let_def)
      next
        case (Inr q)
        then show ?thesis using Cons.prems Pair new by (intro rec) (simp add: Let_def)
      qed
    qed
  qed
qed simp

lemma match_leader_eq:
  "match_leader L t order = (if L \<in> set order then 0 else if order = [] then t else last order)"
  by (induction order arbitrary: t) auto

lemma match_removes_result:
  assumes "R = filter (\<lambda>p. Peer_StoreId p |\<notin>| I \<and> \<not> (t \<noteq> 0 \<and> Peer_StoreId p = L)) sp"
    and "index + length R \<le> length toAdds"
  shows "\<exists>kind'. match_removes I t L toAdds sp index steps kind =
    Some (index + length R, steps @ concat (map2 (\<lambda>a p. a @ [RemovePeer (Peer_StoreId p)]) (drop index toAdds) R), kind')"
  using assms
proof (induction sp arbitrary: R index steps kind)
  case (Cons p sp)
  show ?case
  proof (cases "Peer_StoreId p |\<notin>| I \<and> \<not> (t \<noteq> 0 \<and> Peer_StoreId p = L)")
    case True
    let ?R = "filter (\<lambda>p. Peer_StoreId p |\<notin>| I \<and> \<not> (t \<noteq> 0 \<and> Peer_StoreId p = L)) sp"
    have R: "R = p # ?R" using Cons.prems(1) True by simp
    then have "index < length toAdds" "index + 1 + length ?R \<le> length toAdds" using Cons.prems(2) by auto
    with Cons.IH [OF refl this(2), of "steps @ toAdds ! index @ [RemovePeer (Peer_StoreId p)]" "kind OR OpRegion"] True
    show ?thesis by (auto simp: R Cons_nth_drop_Suc [symmetric])
  next
    case False
    then have "match_removes I t L toAdds (p # sp) index steps kind = match_removes I t L toAdds sp index steps kind" by auto
    moreover have "R = filter (\<lambda>p. Peer_StoreId p |\<notin>| I \<and> \<not> (t \<noteq> 0 \<and> Peer_StoreId p = L)) sp"
      using Cons.prems(1) False by (simp only: filter.simps if_False)
    ultimately show ?thesis using Cons.IH [OF _ Cons.prems(2)] by simp
  qed
qed simp

subsection \<open>Running the steps\<close>

definition match_rounds :: "'c Cluster \<Rightarrow> metapb_Peer list \<Rightarrow> u64 list \<Rightarrow> metapb_Peer list \<Rightarrow> op_round list" where
  "match_rounds cluster as ids R =
     map2 (\<lambda>(p, i) x. (CreateAddPeerSteps (Peer_StoreId p) i cluster, Peer_StoreId p, i, Peer_StoreId x)) (zip as ids) R"

abbreviation new_voters :: "metapb_Peer list \<Rightarrow> u64 list \<Rightarrow> metapb_Peer list" where
  "new_voters as ids \<equiv> map2 (\<lambda>p i. voter i (Peer_StoreId p)) as ids"

lemma match_rounds_steps:
  "concat (map2 (\<lambda>a p. a @ [RemovePeer (Peer_StoreId p)])
     (map2 (\<lambda>p i. CreateAddPeerSteps (Peer_StoreId p) i cluster) as ids) R) = concat (map round_steps (match_rounds cluster as ids R))"
  unfolding match_rounds_def
proof (induction as ids arbitrary: R rule: list_induct2')
  case (4 p as i ids)
  then show ?case by (cases R) simp_all
qed simp_all

lemma match_rounds_facts:
  assumes "length as = length ids" "length ids = length R"
  shows "map round_peer (match_rounds cluster as ids R) = new_voters as ids \<and>
    round_from ` set (match_rounds cluster as ids R) = stores R \<and>
    map (Peer_StoreId \<circ> round_peer) (match_rounds cluster as ids R) = map Peer_StoreId as \<and>
    ((\<forall>i \<in> set ids. not_pending r i) \<longrightarrow> (\<forall>rd \<in> set (match_rounds cluster as ids R). round_ok r rd))"
  using assms unfolding match_rounds_def
  by (induction as ids R rule: list_induct3) (auto simp: CreateAddPeerSteps_adds)

lemma stores_new_voters: "length as = length ids \<Longrightarrow> stores (new_voters as ids) = stores as"
  by (induction as ids rule: list_induct2') auto

lemma run_match_rounds:
  assumes "length as = length ids" "length ids = length R" "\<forall>i \<in> set ids. not_pending r i"
    and "distinct (map Peer_StoreId as)" "stores as \<inter> stores ps = {}" "set R \<subseteq> set ps" "Peer_StoreId q \<notin> stores R"
  shows "run_steps (concat (map2 (\<lambda>a p. a @ [RemovePeer (Peer_StoreId p)])
      (map2 (\<lambda>p i. CreateAddPeerSteps (Peer_StoreId p) i cluster) as ids) R) @ rest) (region_with r ps (Some q)) =
    run_steps rest (region_with r (filter (\<lambda>p. Peer_StoreId p \<notin> stores R) ps @ new_voters as ids) (Some q))"
proof -
  let ?rs = "match_rounds cluster as ids R"
  have facts: "map round_peer ?rs = new_voters as ids" "round_from ` set ?rs = stores R"
    "map (Peer_StoreId \<circ> round_peer) ?rs = map Peer_StoreId as" "\<forall>rd \<in> set ?rs. round_ok r rd"
    using match_rounds_facts [OF assms(1,2), of cluster r] assms(3) by blast+
  have "stores as \<inter> stores R = {}" using assms(5,6) by blast
  then show ?thesis
    unfolding match_rounds_steps using run_rounds [OF facts(4), of ps q rest] assms(4,5,7)
    unfolding facts(1-3) stores_new_voters [OF assms(1)] by blast
qed

lemma stores_append: "stores (a @ b) = stores a \<union> stores b"
  by auto

lemma stores_filter_notin: "stores (filter (\<lambda>p. Peer_StoreId p \<notin> S) ps) = stores ps - S"
  by auto

lemma map_store_new_voters: "length as = length ids \<Longrightarrow> map Peer_StoreId (new_voters as ids) = map Peer_StoreId as"
  by (induction as ids rule: list_induct2) auto

lemma distinct_stores_append:
  assumes "distinct (map Peer_StoreId ps)" "distinct (map Peer_StoreId as)" "stores as \<inter> stores ps = {}" "length as = length ids"
  shows "distinct (map Peer_StoreId (filter P ps @ new_voters as ids))"
  unfolding map_append distinct_append map_store_new_voters [OF assms(4)]
  using assms(1-3) by (auto simp: distinct_map_filter)

lemma length_missing:
  assumes "distinct (map Peer_StoreId xs)"
  shows "length (filter (\<lambda>p. Peer_StoreId p \<notin> S) xs) = card (stores xs - S)"
proof -
  have "distinct (map Peer_StoreId (filter (\<lambda>p. Peer_StoreId p \<notin> S) xs))" using assms by (simp add: distinct_map_filter)
  then have "length (filter (\<lambda>p. Peer_StoreId p \<notin> S) xs) = card (stores (filter (\<lambda>p. Peer_StoreId p \<notin> S) xs))"
    by (metis distinct_card length_map set_map)
  also have "stores (filter (\<lambda>p. Peer_StoreId p \<notin> S) xs) = stores xs - S" by auto
  finally show ?thesis .
qed

lemma length_stores: "distinct (map Peer_StoreId xs) \<Longrightarrow> card (stores xs) = length xs"
  by (metis distinct_card length_map set_map)

lemma missing_equal:
  assumes "distinct (map Peer_StoreId sp)" "distinct (map Peer_StoreId tp)" "length sp = length tp"
  shows "length (filter (\<lambda>p. Peer_StoreId p \<notin> stores sp \<inter> stores tp) tp) = length (filter (\<lambda>p. Peer_StoreId p \<notin> stores sp \<inter> stores tp) sp)"
proof -
  have "stores tp \<inter> (stores sp \<inter> stores tp) = stores sp \<inter> stores tp" "stores sp \<inter> (stores sp \<inter> stores tp) = stores sp \<inter> stores tp"
    by auto
  then show ?thesis
    unfolding length_missing [OF assms(1)] length_missing [OF assms(2)]
    using assms by (simp add: card_Diff_subset_Int length_stores)
qed

text \<open>The loop when the leader stays: all peers outside the common stores are replaced.\<close>

lemma run_match_keep:
  assumes "distinct (map Peer_StoreId sp)" "distinct (map Peer_StoreId tp)"
    and "length sp = length tp" "as = filter (\<lambda>p. Peer_StoreId p \<notin> stores sp \<inter> stores tp) tp"
    and "R = filter (\<lambda>p. Peer_StoreId p \<notin> stores sp \<inter> stores tp) sp"
    and "length as = length ids" "\<forall>i \<in> set ids. not_pending r i"
    and "q \<in> set sp" "\<not> Peer_IsLearner q" "Peer_StoreId q \<in> stores tp"
  shows "\<exists>r'. run_steps (concat (map2 (\<lambda>a p. a @ [RemovePeer (Peer_StoreId p)])
      (map2 (\<lambda>p i. CreateAddPeerSteps (Peer_StoreId p) i cluster) as ids) R)) (region_with r sp (Some q)) = Some r' \<and>
    region_ok r' \<and> stores (RegionInfo_GetPeers r') = stores tp"
proof -
  let ?ps = "filter (\<lambda>p. Peer_StoreId p \<notin> stores R) sp @ new_voters as ids"
  have len: "length ids = length R" using missing_equal [OF assms(1-3)] assms(4-6) by simp
  have disj: "stores as \<inter> stores sp = {}" "distinct (map Peer_StoreId as)" "Peer_StoreId q \<notin> stores R" "set R \<subseteq> set sp"
    using assms(2,8,10) by (auto simp: assms(4,5) distinct_map_filter)
  have "stores R = stores sp - stores tp" "stores as = stores tp - stores sp" by (auto simp: assms(4,5))
  then have st: "stores ?ps = stores tp"
    unfolding stores_append stores_filter_notin stores_new_voters [OF assms(6)] by auto
  have "region_ok (region_with r ?ps (Some q))"
    using disj(3) assms(8,9) distinct_stores_append [OF assms(1) disj(2,1) assms(6)] by (simp add: region_ok_with)
  moreover have "run_steps (concat (map2 (\<lambda>a p. a @ [RemovePeer (Peer_StoreId p)])
      (map2 (\<lambda>p i. CreateAddPeerSteps (Peer_StoreId p) i cluster) as ids) R)) (region_with r sp (Some q)) =
      Some (region_with r ?ps (Some q))"
    using run_match_rounds [OF assms(6) len assms(7) disj(2,1,4,3), of cluster "[]"] by simp
  ultimately show ?thesis using st by (intro exI [of _ "region_with r ?ps (Some q)"]) simp
qed

text \<open>The loop when there is no common store: the leader is the last to be replaced.\<close>

lemma zip_shorter: "length ys \<le> length xs \<Longrightarrow> zip xs ys = zip (take (length ys) xs) ys"
  by (induction xs ys rule: list_induct2') auto

lemma filter_only:
  assumes "distinct (map Peer_StoreId sp)" "q \<in> set sp"
  shows "filter (\<lambda>p. Peer_StoreId p \<notin> stores (filter (\<lambda>p. Peer_StoreId p \<noteq> Peer_StoreId q) sp)) sp = [q]"
    and "length (filter (\<lambda>p. Peer_StoreId p \<noteq> Peer_StoreId q) sp) = length sp - 1"
proof -
  have "filter (\<lambda>p. Peer_StoreId p = Peer_StoreId q) sp = [q]"
    using assms by (induction sp) (auto simp: filter_empty_conv, metis image_eqI)
  moreover have "filter (\<lambda>p. Peer_StoreId p \<notin> stores (filter (\<lambda>p. Peer_StoreId p \<noteq> Peer_StoreId q) sp)) sp =
      filter (\<lambda>p. Peer_StoreId p = Peer_StoreId q) sp" by (rule filter_cong) auto
  ultimately show "filter (\<lambda>p. Peer_StoreId p \<notin> stores (filter (\<lambda>p. Peer_StoreId p \<noteq> Peer_StoreId q) sp)) sp = [q]" by simp
  have "length (filter (\<lambda>p. Peer_StoreId p \<notin> {Peer_StoreId q}) sp) = card (stores sp - {Peer_StoreId q})"
    by (rule length_missing [OF assms(1)])
  then show "length (filter (\<lambda>p. Peer_StoreId p \<noteq> Peer_StoreId q) sp) = length sp - 1"
    using assms by (simp add: length_stores)
qed

lemma run_match_last:
  assumes "distinct (map Peer_StoreId tp)" "length tp = length ids" "tp = as @ [t]" "ids = is' @ [i]"
    and "Peer_StoreId q \<notin> stores tp" "not_pending r i"
  shows "\<exists>p. run_steps (CreateAddPeerSteps (Peer_StoreId t) i cluster @
      [TransferLeader (Peer_StoreId q) (Peer_StoreId (hd tp)), RemovePeer (Peer_StoreId q)])
      (region_with r (q # new_voters as is') (Some q)) = Some (region_with r (new_voters tp ids) (Some p)) \<and>
    p \<in> set (new_voters tp ids) \<and> \<not> Peer_IsLearner p"
proof -
  let ?p = "hd (new_voters tp ids)"
  have len: "length as = length is'" using assms(2-4) by simp
  have all: "new_voters tp ids = new_voters as is' @ [voter i (Peer_StoreId t)]" using len by (simp add: assms(3,4))
  have "tp \<noteq> []" "ids \<noteq> []" using assms(3,4) by auto
  then have p: "?p \<in> set (new_voters tp ids)" "Peer_StoreId ?p = Peer_StoreId (hd tp)" "\<not> Peer_IsLearner ?p"
    by (cases tp; cases ids; simp)+
  have dist: "distinct (map Peer_StoreId (q # new_voters tp ids))"
    unfolding list.map(2) map_store_new_voters [OF assms(2)] using assms(1,5) by simp
  have fresh: "Peer_StoreId t \<notin> stores (q # new_voters as is')"
    using assms(1,5) stores_new_voters [OF len] by (auto simp: assms(3))
  have "run_steps (CreateAddPeerSteps (Peer_StoreId t) i cluster @
      [TransferLeader (Peer_StoreId q) (Peer_StoreId (hd tp)), RemovePeer (Peer_StoreId q)])
      (region_with r (q # new_voters as is') (Some q)) =
    run_steps [TransferLeader (Peer_StoreId q) (Peer_StoreId (hd tp)), RemovePeer (Peer_StoreId q)]
      (region_with r (q # new_voters tp ids) (Some q))"
    using adds_voterD [OF CreateAddPeerSteps_adds fresh assms(6)] by (simp add: all del: run_steps.simps)
  also have "\<dots> = run_steps [RemovePeer (Peer_StoreId q)] (region_with r (q # new_voters tp ids) (Some ?p))"
    using p by (intro run_transfer [OF dist]) auto
  also have "\<dots> = run_steps [] (region_with r (new_voters tp ids) (Some ?p))"
  proof -
    have "Peer_StoreId ?p \<noteq> Peer_StoreId q" using p(2) assms(5) \<open>tp \<noteq> []\<close> by (metis hd_in_set image_eqI)
    moreover have "filter (\<lambda>p. Peer_StoreId p \<noteq> Peer_StoreId q) (new_voters tp ids) = new_voters tp ids"
      using stores_new_voters [OF assms(2)] assms(5) by (intro filter_new) simp
    ultimately show ?thesis by (simp add: run_remove del: run_steps.simps(2))
  qed
  finally show ?thesis using p(1,3) by (intro exI [of _ ?p]) simp
qed

lemma run_match_move:
  assumes "distinct (map Peer_StoreId sp)" "distinct (map Peer_StoreId tp)" "length sp = length tp"
    and "stores sp \<inter> stores tp = {}" "q \<in> set sp" "length tp = length ids" "\<forall>i \<in> set ids. not_pending r i"
    and "R = filter (\<lambda>p. Peer_StoreId p \<noteq> Peer_StoreId q) sp"
    and "toAdds = map2 (\<lambda>p i. CreateAddPeerSteps (Peer_StoreId p) i cluster) tp ids"
  shows "\<exists>r'. run_steps (concat (map2 (\<lambda>a p. a @ [RemovePeer (Peer_StoreId p)]) toAdds R) @ toAdds ! length R @
      [TransferLeader (Peer_StoreId q) (Peer_StoreId (hd tp)), RemovePeer (Peer_StoreId q)]) (region_with r sp (Some q)) = Some r' \<and>
    region_ok r' \<and> stores (RegionInfo_GetPeers r') = stores tp"
proof -
  have "tp \<noteq> []" "ids \<noteq> []" using assms(3,5,6) by auto
  then obtain as t is' i where split: "tp = as @ [t]" "ids = is' @ [i]" by (metis rev_exhaust)
  then have "length as = length is'" using assms(6) by simp
  note split = split this
  have lenR: "length is' = length R" using filter_only(2) [OF assms(1,5)] assms(3,8) split by simp
  have adds: "map2 (\<lambda>a p. a @ [RemovePeer (Peer_StoreId p)]) toAdds R =
      map2 (\<lambda>a p. a @ [RemovePeer (Peer_StoreId p)]) (map2 (\<lambda>p i. CreateAddPeerSteps (Peer_StoreId p) i cluster) as is') R"
    "toAdds ! length R = CreateAddPeerSteps (Peer_StoreId t) i cluster"
    using lenR split(3) by (simp_all add: assms(9) split(1,2) nth_append zip_append1)
  have "Peer_StoreId q \<notin> stores tp" using assms(4,5) by blast
  then have tp: "Peer_StoreId q \<notin> stores tp" "distinct (map Peer_StoreId as)" "stores as \<inter> stores sp = {}"
    "\<forall>i \<in> set is'. not_pending r i" "set R \<subseteq> set sp" "Peer_StoreId q \<notin> stores R" "not_pending r i"
    using assms(2,4,5,7) by (auto simp: split(1,2) assms(8))
  obtain p where p: "run_steps (CreateAddPeerSteps (Peer_StoreId t) i cluster @
      [TransferLeader (Peer_StoreId q) (Peer_StoreId (hd tp)), RemovePeer (Peer_StoreId q)])
      (region_with r (q # new_voters as is') (Some q)) = Some (region_with r (new_voters tp ids) (Some p))"
    "p \<in> set (new_voters tp ids)" "\<not> Peer_IsLearner p"
    using run_match_last [OF assms(2,6) split(1,2) tp(1,7), of cluster] by blast
  have "run_steps (concat (map2 (\<lambda>a p. a @ [RemovePeer (Peer_StoreId p)]) toAdds R) @ toAdds ! length R @
      [TransferLeader (Peer_StoreId q) (Peer_StoreId (hd tp)), RemovePeer (Peer_StoreId q)]) (region_with r sp (Some q)) =
      Some (region_with r (new_voters tp ids) (Some p))"
    unfolding adds using run_match_rounds [OF split(3) lenR tp(4,2,3,5,6), of cluster]
      filter_only(1) [OF assms(1,5), folded assms(8)] p(1)
    by (simp del: run_steps.simps)
  moreover have "region_ok (region_with r (new_voters tp ids) (Some p))"
    unfolding region_ok_with map_store_new_voters [OF assms(6)] using assms(2) p(2,3) by blast
  ultimately show ?thesis using stores_new_voters [OF assms(6)] by (intro exI [of _ "region_with r (new_voters tp ids) (Some p)"]) simp
qed

text \<open>The rest of \<open>matchPeerSteps\<close>, once the leader is on a common store.\<close>

lemma match_keep:
  assumes "distinct (map Peer_StoreId sp)" "distinct (map Peer_StoreId tp)" "length sp = length tp"
    and "I = getIntersectionStores sp tp" "length (filter (\<lambda>p. Peer_StoreId p |\<notin>| I) tp) = length ids"
    and "\<forall>i \<in> set ids. not_pending r i"
    and "toAdds = map2 (\<lambda>p i. CreateAddPeerSteps (Peer_StoreId p) i cluster) (filter (\<lambda>p. Peer_StoreId p |\<notin>| I) tp) ids"
    and "run_steps steps0 source = Some (region_with r sp (Some q))" "q \<in> set sp" "\<not> Peer_IsLearner q" "Peer_StoreId q \<in> stores tp"
  shows "\<exists>steps kind r'. Option.bind (match_removes I 0 L toAdds sp 0 steps0 k) (match_last 0 L toAdds) = Some (Inr (steps, kind)) \<and>
    run_steps steps source = Some r' \<and> region_ok r' \<and> stores (RegionInfo_GetPeers r') = stores tp"
proof -
  have I: "(\<lambda>p. Peer_StoreId p |\<notin>| I) = (\<lambda>p. Peer_StoreId p \<notin> stores sp \<inter> stores tp)"
    by (simp only: assms(4) getIntersectionStores_iff)
  let ?R = "filter (\<lambda>p. Peer_StoreId p |\<notin>| I) sp"
  have len: "length ?R = length toAdds"
    using missing_equal [OF assms(1-3), folded I] assms(5) by (simp add: assms(7))
  then obtain kind where kind: "match_removes I 0 L toAdds sp 0 steps0 k =
      Some (length ?R, steps0 @ concat (map2 (\<lambda>a p. a @ [RemovePeer (Peer_StoreId p)]) toAdds ?R), kind)"
    using match_removes_result [of ?R I 0 L sp 0 toAdds steps0 k] by auto
  obtain r' where "run_steps (concat (map2 (\<lambda>a p. a @ [RemovePeer (Peer_StoreId p)]) toAdds ?R)) (region_with r sp (Some q)) = Some r'"
    "region_ok r'" "stores (RegionInfo_GetPeers r') = stores tp"
    using run_match_keep [OF assms(1-3) refl refl assms(5,6,9-11) [unfolded I], of cluster, folded I] unfolding assms(7) by blast
  then show ?thesis using kind len assms(8) by (auto simp: match_last_def run_steps_append)
qed

text \<open>The rest of \<open>matchPeerSteps\<close> when the regions have no store in common.\<close>

lemma match_move:
  assumes "distinct (map Peer_StoreId sp)" "distinct (map Peer_StoreId tp)" "length sp = length tp"
    and "stores sp \<inter> stores tp = {}" "q \<in> set sp" "length tp = length ids" "\<forall>i \<in> set ids. not_pending r i"
    and "toAdds = map2 (\<lambda>p i. CreateAddPeerSteps (Peer_StoreId p) i cluster) tp ids"
    and "t = Peer_StoreId (hd tp)" "t \<noteq> 0"
  shows "\<exists>steps kind r'. Option.bind (match_removes {||} t (Peer_StoreId q) toAdds sp 0 [] k) (match_last t (Peer_StoreId q) toAdds) =
      Some (Inr (steps, kind)) \<and>
    run_steps steps (region_with r sp (Some q)) = Some r' \<and> region_ok r' \<and> stores (RegionInfo_GetPeers r') = stores tp"
proof -
  let ?R = "filter (\<lambda>p. Peer_StoreId p \<noteq> Peer_StoreId q) sp"
  have len: "Suc (length ?R) = length toAdds"
    using filter_only(2) [OF assms(1,5)] assms(3,5,6) length_pos_if_in_set [OF assms(5)] by (simp add: assms(8))
  then obtain kind where "match_removes {||} t (Peer_StoreId q) toAdds sp 0 [] k =
      Some (length ?R, concat (map2 (\<lambda>a p. a @ [RemovePeer (Peer_StoreId p)]) toAdds ?R), kind)"
    using match_removes_result [of ?R "{||}" t "Peer_StoreId q" sp 0 toAdds "[]" k] assms(10) by auto
  then show ?thesis
    using run_match_move [OF assms(1-7) refl assms(8)] len assms(10) by (auto simp: match_last_def assms(9))
qed

lemma matchPeerSteps_eq:
  assumes "length (RegionInfo_GetPeers source) = length (RegionInfo_GetPeers target)"
    and "I = getIntersectionStores (RegionInfo_GetPeers source) (RegionInfo_GetPeers target)"
    and "match_adds cluster I (RegionInfo_GetPeers target) [] 0 0 c = (c', Inr (toAdds, t, k))"
    and "L = Peer_GetStoreId (ri_leader source)" "t' = match_leader L t order"
  shows "matchPeerSteps order cluster source target c = (c',
    if fcard I \<noteq> 0 \<and> t' \<noteq> 0
    then Option.bind (match_removes I 0 L toAdds (RegionInfo_GetPeers source) 0 [TransferLeader L t'] (k OR OpLeader)) (match_last 0 L toAdds)
    else Option.bind (match_removes I t' L toAdds (RegionInfo_GetPeers source) 0 [] k) (match_last t' L toAdds))"
  using assms by (simp add: matchPeerSteps_def Let_def)

lemma matchPeerSteps_run:
  assumes "region_ok source" "\<forall>p \<in> set (RegionInfo_GetPeers source). \<not> Peer_IsLearner p"
    and "distinct (map Peer_StoreId (RegionInfo_GetPeers target))" "0 \<notin> stores (RegionInfo_GetPeers target)"
    and "set_order order (getIntersectionStores (RegionInfo_GetPeers source) (RegionInfo_GetPeers target))"
    and "alloc_fresh cluster source"
    and "match_adds cluster (getIntersectionStores (RegionInfo_GetPeers source) (RegionInfo_GetPeers target))
      (RegionInfo_GetPeers target) [] 0 0 c = (c', Inr (toAdds, t, k))"
    and "length (RegionInfo_GetPeers source) = length (RegionInfo_GetPeers target)"
  shows "\<exists>steps kind r'. matchPeerSteps order cluster source target c = (c', Some (Inr (steps, kind))) \<and>
    run_steps steps source = Some r' \<and> region_ok r' \<and> stores (RegionInfo_GetPeers r') = stores (RegionInfo_GetPeers target)"
proof -
  let ?sp = "RegionInfo_GetPeers source" and ?tp = "RegionInfo_GetPeers target"
  let ?I = "getIntersectionStores ?sp ?tp" and ?L = "Peer_GetStoreId (ri_leader source)"
  obtain q where q: "ri_leader source = Some q" "q \<in> set ?sp" "\<not> Peer_IsLearner q"
    "distinct (map Peer_StoreId ?sp)" "source = region_with source ?sp (Some q)"
    using assms(1) by (rule region_okE)
  have ord: "set order = stores ?sp \<inter> stores ?tp"
    using assms(5) unfolding set_order_iff fset_getIntersectionStores by blast
  let ?A = "filter (\<lambda>p. Peer_StoreId p |\<notin>| ?I) ?tp"
  obtain ids where "length ids = length ?A \<and> (\<forall>i \<in> set ids. not_pending source i) \<and>
      toAdds = [] @ map2 (\<lambda>p i. CreateAddPeerSteps (Peer_StoreId p) i cluster) ?A ids \<and>
      t = (if (0 :: u64) = 0 \<and> ?A \<noteq> [] then Peer_StoreId (hd ?A) else 0)"
    using match_adds_result [OF assms(7,6,4)] by (rule exE)
  then have ids: "length ?A = length ids" "\<forall>i \<in> set ids. not_pending source i"
    "toAdds = map2 (\<lambda>p i. CreateAddPeerSteps (Peer_StoreId p) i cluster) ?A ids"
    "?A \<noteq> [] \<Longrightarrow> t = Peer_StoreId (hd ?A)"
    by simp_all
  note keep = match_keep [OF q(4) assms(3,8) refl ids(1-3)]
  note eq = matchPeerSteps_eq [OF assms(8) refl assms(7) refl refl, of order]
  have card: "fcard ?I = 0 \<longleftrightarrow> order = []"
    using ord fset_getIntersectionStores [of ?sp ?tp] by (metis bot_fset.rep_eq fcard_0_eq fset_inject set_empty)
  consider (stays) "?L \<in> set order" | (joins) "?L \<notin> set order" "order \<noteq> []" | (moves) "order = []" by blast
  then show ?thesis
  proof cases
    case stays
    then have "run_steps [] source = Some (region_with source ?sp (Some q))" "Peer_StoreId q \<in> stores ?tp"
      using ord q by auto
    from keep [OF this(1) q(2,3) this(2), of ?L k] show ?thesis
      unfolding eq match_leader_eq using stays by auto
  next
    case joins
    have "last order \<in> stores ?sp" "last order \<in> stores ?tp" using last_in_set [OF joins(2)] ord by blast+
    moreover from this(2) have "last order \<noteq> 0" using assms(4) by metis
    ultimately obtain p where p: "p \<in> set ?sp" "Peer_StoreId p = last order" "Peer_StoreId p \<in> stores ?tp" "last order \<noteq> 0"
      by (metis imageE)
    have "run_steps [TransferLeader ?L (last order)] source = Some (region_with source ?sp (Some p))"
      using run_transfer [OF q(4,2) p(1,2), of ?L "[]" source] q(5) run_steps.simps(1) by metis
    from keep [OF this p(1) _ p(3), of ?L "k OR OpLeader"] assms(2) p(1)
    show ?thesis unfolding eq match_leader_eq using joins p(4) card by auto
  next
    case moves
    then have disj: "stores ?sp \<inter> stores ?tp = {}" "?I = {||}" "?A = ?tp"
      using ord card fset_getIntersectionStores [of ?sp ?tp] by auto
    have ne: "?tp \<noteq> []" using q(2) assms(8) by auto
    with ids(4) disj(3) assms(4) have t: "t = Peer_StoreId (hd ?tp)" "t \<noteq> 0" by (auto simp: image_iff)
    from match_move [OF q(4) assms(3,8) disj(1) q(2) ids(1) [unfolded disj(3)] ids(2,3) [unfolded disj(3)] t, of k]
    show ?thesis unfolding eq match_leader_eq using moves t(2) q(1,5) disj(2) by auto
  qed
qed

lemma stores_eq_GetStoreIds: "stores (RegionInfo_GetPeers a) = stores (RegionInfo_GetPeers b) \<longleftrightarrow> RegionInfo_GetStoreIds a = RegionInfo_GetStoreIds b"
  by (metis GetStoreIds_iff fset_eqI subsetI subset_antisym)

lemma matchPeerSteps_error:
  assumes "matchPeerSteps order cluster source target c = (c', Some (Inl e))"
    and "\<And>toAdds t k c'. match_adds cluster (getIntersectionStores (RegionInfo_GetPeers source) (RegionInfo_GetPeers target))
      (RegionInfo_GetPeers target) [] 0 0 c \<noteq> (c', Inr (toAdds, t, k))"
    and "length (RegionInfo_GetPeers source) = length (RegionInfo_GetPeers target)"
  shows "\<exists>c s c'. s |\<in>| RegionInfo_GetStoreIds target |-| RegionInfo_GetStoreIds source \<and> cl_AllocPeer cluster c s = (c', Inl e)"
proof -
  let ?I = "getIntersectionStores (RegionInfo_GetPeers source) (RegionInfo_GetPeers target)"
  obtain c1 e1 where m: "match_adds cluster ?I (RegionInfo_GetPeers target) [] 0 0 c = (c1, Inl e1)"
    using assms(2) by (metis old.prod.exhaust sumE)
  then have "e1 = e" using assms(1,3) by (simp add: matchPeerSteps_def)
  with match_adds_error [OF m] show ?thesis
    unfolding fminus_iff GetStoreIds_iff getIntersectionStores_iff by blast
qed



text \<open>
  (C34) A source without a leader: if the regions share no store and all allocations succeed,
  \<open>matchPeerSteps\<close> reads one group of add steps too many and panics. Regions loaded from storage have no
  leader until their first heartbeat, and the handler for merges on request does not look at the leader.
\<close>
theorem matchPeerSteps_leaderless_panics:
  assumes "ri_leader source = None" "RegionInfo_GetPeers target \<noteq> []" "0 |\<notin>| RegionInfo_GetStoreIds source"
    and "length (RegionInfo_GetPeers source) = length (RegionInfo_GetPeers target)" "0 |\<notin>| RegionInfo_GetStoreIds target"
    and "getIntersectionStores (RegionInfo_GetPeers source) (RegionInfo_GetPeers target) = {||}"
    and "\<And>c s. \<exists>c' p. cl_AllocPeer cluster c s = (c', Inr p)"
  shows "snd (matchPeerSteps [] cluster source target c) = None"
proof -
  let ?sp = "RegionInfo_GetPeers source" and ?tp = "RegionInfo_GetPeers target"
  have zero: "0 \<notin> stores ?sp" "0 \<notin> stores ?tp" using assms(3,5) unfolding GetStoreIds_iff by blast+
  obtain c' toAdds t k where adds: "match_adds cluster {||} ?tp [] 0 0 c = (c', Inr (toAdds, t, k))"
    using match_adds_error [of cluster "{||}" ?tp "[]" 0 0 c] assms(7) by (metis Inl_Inr_False old.prod.exhaust prod.inject sumE)
  have "alloc_fresh cluster (source\<lparr>ri_pendingPeers := []\<rparr>)" by (simp add: alloc_fresh_def not_pending_def)
  from match_adds_result [OF adds this zero(2)] have t: "length toAdds = length ?tp" "t = Peer_StoreId (hd ?tp)"
    using assms(2) by auto
  then have "t \<noteq> 0" using zero(2) assms(2) by (metis hd_in_set image_eqI)
  moreover have "filter (\<lambda>p. Peer_StoreId p |\<notin>| {||} \<and> \<not> (t \<noteq> 0 \<and> Peer_StoreId p = 0)) ?sp = ?sp"
    using zero(1) by (auto simp: filter_id_conv)
  moreover obtain k' steps where "match_removes {||} t 0 toAdds ?sp 0 [] k = Some (length ?sp, steps, k')"
    using match_removes_result [of ?sp "{||}" t 0 ?sp 0 toAdds "[]" k] t(1) assms(4) calculation(2) by auto
  ultimately show ?thesis
    using matchPeerSteps_eq [OF assms(4) assms(6) [symmetric] adds refl refl, of "[]"] assms(1,4) t(1)
    by (simp add: match_last_def)
qed

theorem matchPeerSteps_leaderless_panics_witness:
  "ri_leader ((sample_region 7 [voter 1 1])\<lparr>ri_leader := None\<rparr>) = None \<and>
   snd (matchPeerSteps [] sample_cluster ((sample_region 7 [voter 1 1])\<lparr>ri_leader := None\<rparr>) (sample_region 8 [voter 2 2]) 9) = None"
proof -
  let ?s = "(sample_region 7 [voter 1 1])\<lparr>ri_leader := None\<rparr>" and ?t = "sample_region 8 [voter 2 2]"
  have s: "RegionInfo_GetPeers ?s = [voter 1 1]" using sample_region_simps(1) [of 7 "[voter 1 1]"] by simp
  have "getIntersectionStores [voter 1 1] [voter 2 2] = {||}" by (simp add: getIntersectionStores_def)
  then show ?thesis
    by (auto intro!: matchPeerSteps_leaderless_panics
      simp: s GetStoreIds_iff sample_cluster_def simp del: RegionInfo_GetPeers_def)
qed

end
