(* ===== verification/OperatorScatter.thy ===== *)
theory OperatorScatter
  imports OperatorMatch
begin

text \<open>
  Scattering a region and moving it to given stores. The effect of each group of steps is stated on the
  set of stores that hold a peer, with \<open>peers_ok\<close> as the invariant of the run.
\<close>

subsection \<open>Groups of steps on sets of stores\<close>

definition peers_ok :: "metapb_Peer list \<Rightarrow> metapb_Peer \<Rightarrow> bool" where
  "peers_ok ps q \<longleftrightarrow> distinct (map Peer_StoreId ps) \<and> q \<in> set ps \<and> \<not> Peer_IsLearner q"

lemma peers_ok_region: "peers_ok ps q \<longleftrightarrow> region_ok (region_with r ps (Some q))"
  by (simp add: peers_ok_def region_ok_with)

text \<open>The steps take the region from one list of peers and leader to another, whatever comes after them.\<close>

definition runs_to :: "RegionInfo \<Rightarrow> OperatorStep list \<Rightarrow> metapb_Peer list \<Rightarrow> metapb_Peer \<Rightarrow> metapb_Peer list \<Rightarrow> metapb_Peer \<Rightarrow> bool" where
  "runs_to r steps ps q ps' q' \<longleftrightarrow>
     (\<forall>rest. run_steps (steps @ rest) (region_with r ps (Some q)) = run_steps rest (region_with r ps' (Some q')))"

lemma runs_to_append: "runs_to r a ps q ps' q' \<Longrightarrow> runs_to r b ps' q' ps'' q'' \<Longrightarrow> runs_to r (a @ b) ps q ps'' q''"
  by (simp add: runs_to_def)

lemma runs_to_Some: "runs_to r steps ps q ps' q' \<Longrightarrow> run_steps steps (region_with r ps (Some q)) = Some (region_with r ps' (Some q'))"
  by (metis append_Nil2 run_steps.simps(1) runs_to_def)

lemma run_add_set:
  assumes "peers_ok ps q" "adds_voter steps s i" "s \<notin> stores ps" "not_pending r i"
  shows "\<exists>ps'. runs_to r steps ps q ps' q \<and> peers_ok ps' q \<and> stores ps' = insert s (stores ps) \<and> set ps \<subseteq> set ps' \<and> voter i s \<in> set ps'"
  using assms by (intro exI [of _ "ps @ [voter i s]"]) (auto simp: adds_voterD peers_ok_def runs_to_def)

lemma run_transfer_set:
  assumes "peers_ok ps q" "p \<in> set ps" "\<not> Peer_IsLearner p"
  shows "runs_to r [TransferLeader f (Peer_StoreId p)] ps q ps p \<and> peers_ok ps p"
  using assms run_transfer [of ps q p "Peer_StoreId p"] unfolding peers_ok_def runs_to_def append_Cons append_Nil by blast

lemma run_remove_set:
  assumes "peers_ok ps q" "Peer_StoreId q \<noteq> s"
  shows "\<exists>ps'. runs_to r [RemovePeer s] ps q ps' q \<and> peers_ok ps' q \<and> stores ps' = stores ps - {s} \<and> (\<forall>p \<in> set ps. Peer_StoreId p \<noteq> s \<longrightarrow> p \<in> set ps')"
  using assms run_remove [OF assms(2)]
  by (intro exI [of _ "filter (\<lambda>p. Peer_StoreId p \<noteq> s) ps"]) (auto simp: peers_ok_def runs_to_def distinct_map_filter simp del: run_steps.simps)

lemma run_rounds_set:
  assumes "peers_ok ps q" "\<forall>rd \<in> set rounds. round_ok r rd" "distinct (map (Peer_StoreId \<circ> round_peer) rounds)"
    and "stores (map round_peer rounds) \<inter> stores ps = {}" "stores (map round_peer rounds) \<inter> round_from ` set rounds = {}"
    and "Peer_StoreId q \<notin> round_from ` set rounds"
  shows "\<exists>ps'. runs_to r (concat (map round_steps rounds)) ps q ps' q \<and>
    peers_ok ps' q \<and> stores ps' = (stores ps - round_from ` set rounds) \<union> stores (map round_peer rounds) \<and>
    (\<forall>p \<in> set ps. Peer_StoreId p \<notin> round_from ` set rounds \<longrightarrow> p \<in> set ps')"
proof -
  let ?ps = "filter (\<lambda>p. Peer_StoreId p \<notin> round_from ` set rounds) ps @ map round_peer rounds"
  have "distinct (map Peer_StoreId ?ps)"
    using assms(1,3,4) by (auto simp: peers_ok_def distinct_map_filter)
  then have "peers_ok ?ps q" using assms(1,6) by (simp add: peers_ok_def)
  moreover have "stores ?ps = (stores ps - round_from ` set rounds) \<union> stores (map round_peer rounds)"
    unfolding stores_append stores_filter_notin ..
  ultimately show ?thesis using run_rounds [OF assms(2-6)] by (intro exI [of _ ?ps]) (auto simp: runs_to_def)
qed

subsection \<open>The loop of CreateScatterRegionOperator\<close>

definition scatter_round :: "'c Cluster \<Rightarrow> metapb_Peer \<times> metapb_Peer \<Rightarrow> op_round" where
  "scatter_round cluster = (\<lambda>(t, x). (CreateAddLightPeerSteps (Peer_StoreId t) (Peer_Id t) cluster,
     Peer_StoreId t, Peer_Id t, Peer_StoreId x))"

text \<open>The pairs of a new peer and the peer it replaces, leader's pair excluded, by whether the latter leads.\<close>

definition scatter_pairs :: "RegionInfo \<Rightarrow> u64 \<Rightarrow> bool \<Rightarrow> (metapb_Peer \<times> metapb_Peer) list \<Rightarrow> (metapb_Peer \<times> metapb_Peer) list" where
  "scatter_pairs origin lid b = filter (\<lambda>(t, x). Peer_Id t \<noteq> lid \<and> Peer_StoreId t |\<notin>| RegionInfo_GetStoreIds origin \<and>
     (Peer_StoreId x = Peer_GetStoreId (ri_leader origin)) = b)"

lemma scatter_pairs_Cons:
  "scatter_pairs origin lid b ((t, x) # ps) =
     (if Peer_Id t \<noteq> lid \<and> Peer_StoreId t |\<notin>| RegionInfo_GetStoreIds origin \<and>
        (Peer_StoreId x = Peer_GetStoreId (ri_leader origin)) = b
      then (t, x) # scatter_pairs origin lid b ps else scatter_pairs origin lid b ps)"
  by (simp add: scatter_pairs_def)

lemma scatter_round_steps:
  "round_steps (scatter_round cluster (t, x)) = CreateAddLightPeerSteps (Peer_StoreId t) (Peer_Id t) cluster @ [RemovePeer (Peer_StoreId x)]"
  by (simp add: scatter_round_def)

lemma scatter_loop_eq:
  assumes "length tps = length rps"
  shows "\<exists>kind'. scatter_loop cluster origin lid tps rps steps defers kind = Some
    (steps @ concat (map (round_steps \<circ> scatter_round cluster) (scatter_pairs origin lid False (zip tps rps))),
     defers @ concat (map (round_steps \<circ> scatter_round cluster) (scatter_pairs origin lid True (zip tps rps))), kind')"
  using assms
proof (induction tps rps arbitrary: steps defers kind rule: list_induct2)
  case (Cons t tps x rps)
  let ?st = "CreateAddLightPeerSteps (Peer_StoreId t) (Peer_Id t) cluster @ [RemovePeer (Peer_StoreId x)]"
  consider (skip) "Peer_Id t = lid \<or> Peer_StoreId t |\<in>| RegionInfo_GetStoreIds origin"
    | (later) "Peer_Id t \<noteq> lid" "Peer_StoreId t |\<notin>| RegionInfo_GetStoreIds origin" "Peer_StoreId x = Peer_GetStoreId (ri_leader origin)"
    | (now) "Peer_Id t \<noteq> lid" "Peer_StoreId t |\<notin>| RegionInfo_GetStoreIds origin" "Peer_StoreId x \<noteq> Peer_GetStoreId (ri_leader origin)"
    by blast
  then show ?case
  proof cases
    case skip
    then show ?thesis using Cons.IH [of steps defers kind] by (auto simp: scatter_pairs_Cons)
  next
    case later
    then show ?thesis using Cons.IH [of steps "defers @ ?st" "kind OR OpRegion OR OpLeader"]
      by (simp add: scatter_pairs_Cons scatter_round_steps)
  next
    case now
    then show ?thesis using Cons.IH [of "steps @ ?st" defers "kind OR OpRegion"]
      by (simp add: scatter_pairs_Cons scatter_round_steps)
  qed
qed (simp add: scatter_pairs_def)

subsection \<open>Plans\<close>

text \<open>
  What the scatterer hands over: for every peer of the region the peer itself or a new peer on a store
  that holds none, all on different stores with different ids.
\<close>

definition scatter_plan :: "RegionInfo \<Rightarrow> metapb_Peer list \<Rightarrow> metapb_Peer list \<Rightarrow> bool" where
  "scatter_plan origin rps tps \<longleftrightarrow> rps = RegionInfo_GetPeers origin \<and> length tps = length rps \<and>
     distinct (map Peer_StoreId tps) \<and> distinct (map Peer_Id tps) \<and>
     list_all2 (\<lambda>t x. t = x \<or> Peer_StoreId t |\<notin>| RegionInfo_GetStoreIds origin \<and> not_pending origin (Peer_Id t)) tps rps"

lemma plan_pair:
  assumes "scatter_plan origin rps tps" "(t, x) \<in> set (zip tps rps)"
  shows "t \<in> set tps" "x \<in> set rps" "t = x \<or> Peer_StoreId t \<notin> stores rps \<and> not_pending origin (Peer_Id t)"
proof -
  have "rps = RegionInfo_GetPeers origin" and
    l: "list_all2 (\<lambda>t x. t = x \<or> Peer_StoreId t |\<notin>| RegionInfo_GetStoreIds origin \<and> not_pending origin (Peer_Id t)) tps rps"
    using assms(1) unfolding scatter_plan_def by blast+
  then show "t = x \<or> Peer_StoreId t \<notin> stores rps \<and> not_pending origin (Peer_Id t)"
    using assms(2) by (auto simp: list_all2_iff GetStoreIds_iff simp del: RegionInfo_GetPeers_def)
qed (use assms(2) in \<open>auto dest: set_zip_leftD set_zip_rightD\<close>)

lemma zip_unique:
  assumes "length tps = length rps" "(t, x) \<in> set (zip tps rps)" "(t', x') \<in> set (zip tps rps)"
  shows "distinct (map f rps) \<Longrightarrow> f x = f x' \<Longrightarrow> (t, x) = (t', x')"
    and "distinct (map f tps) \<Longrightarrow> f t = f t' \<Longrightarrow> (t, x) = (t', x')"
  using assms by (auto simp: in_set_zip distinct_conv_nth)

text \<open>The pairs that stand for a real replacement.\<close>

definition new_pairs :: "metapb_Peer list \<Rightarrow> metapb_Peer list \<Rightarrow> (metapb_Peer \<times> metapb_Peer) set" where
  "new_pairs tps rps = {(t, x) \<in> set (zip tps rps). Peer_StoreId t \<notin> stores rps}"

lemma plan_stores:
  assumes "scatter_plan origin rps tps" "distinct (map Peer_StoreId rps)"
  shows "stores tps = (stores rps - Peer_StoreId ` snd ` new_pairs tps rps) \<union> Peer_StoreId ` fst ` new_pairs tps rps"
proof -
  have len: "length tps = length rps" using assms(1) by (simp add: scatter_plan_def)
  have fsts: "stores tps = Peer_StoreId ` fst ` set (zip tps rps)" "stores rps = Peer_StoreId ` snd ` set (zip tps rps)"
    using len by (metis map_fst_zip set_map, metis map_snd_zip set_map)
  have same: "t = x" if "(t, x) \<in> set (zip tps rps)" "Peer_StoreId t \<in> stores rps" for t x
    using plan_pair(3) [OF assms(1) that(1)] that(2) by blast
  show ?thesis (is "_ = ?R")
  proof (intro set_eqI iffI)
    fix s assume "s \<in> stores tps"
    then obtain t x where tx: "(t, x) \<in> set (zip tps rps)" "s = Peer_StoreId t" using fsts(1) by auto
    show "s \<in> ?R"
    proof (cases "s \<in> stores rps")
      case True
      then have "t = x" using same [OF tx(1)] tx(2) by simp
      have "s \<notin> Peer_StoreId ` snd ` new_pairs tps rps"
      proof
        assume "s \<in> Peer_StoreId ` snd ` new_pairs tps rps"
        then obtain t' x' where n: "(t', x') \<in> set (zip tps rps)" "Peer_StoreId t' \<notin> stores rps" "s = Peer_StoreId x'"
          by (auto simp: new_pairs_def)
        then show False using zip_unique(1) [OF len tx(1) n(1) assms(2)] \<open>t = x\<close> tx(2) True by auto
      qed
      then show ?thesis using True by blast
    next
      case False
      then have "(t, x) \<in> new_pairs tps rps" using tx by (simp add: new_pairs_def)
      then show ?thesis using tx(2) by (metis UnI2 fst_conv image_eqI)
    qed
  next
    fix s assume "s \<in> ?R"
    then consider (old) "s \<in> stores rps" "s \<notin> Peer_StoreId ` snd ` new_pairs tps rps" | (new) "s \<in> Peer_StoreId ` fst ` new_pairs tps rps"
      by blast
    then show "s \<in> stores tps"
    proof cases
      case old
      then obtain t x where tx: "(t, x) \<in> set (zip tps rps)" "s = Peer_StoreId x" using fsts(2) by auto
      with old(2) have "(t, x) \<notin> new_pairs tps rps" by (metis image_eqI snd_conv)
      then have "t = x" using same [OF tx(1)] tx(1) by (simp add: new_pairs_def)
      then show ?thesis using tx fsts(1) by force
    next
      case new
      then show ?thesis unfolding fsts(1) by (auto simp: new_pairs_def)
    qed
  qed
qed

lemma new_pair_fresh:
  assumes "scatter_plan origin rps tps" "(t, x) \<in> new_pairs tps rps"
  shows "(t, x) \<in> set (zip tps rps)" "Peer_StoreId t \<notin> stores rps" "Peer_StoreId x \<in> stores rps" "not_pending origin (Peer_Id t)"
proof -
  show z: "(t, x) \<in> set (zip tps rps)" and n: "Peer_StoreId t \<notin> stores rps" using assms(2) by (simp_all add: new_pairs_def)
  show x: "Peer_StoreId x \<in> stores rps" using plan_pair(2) [OF assms(1) z] by simp
  show "not_pending origin (Peer_Id t)" using plan_pair(3) [OF assms(1) z] n x by metis
qed

lemma disjoint_sub: "A \<inter> S = {} \<Longrightarrow> B \<subseteq> S \<Longrightarrow> A \<inter> B = {}"
  by blast

lemma new_images:
  assumes "scatter_plan origin rps tps" "N \<subseteq> new_pairs tps rps"
  shows "Peer_StoreId ` fst ` N \<inter> stores rps = {}" "Peer_StoreId ` snd ` N \<subseteq> stores rps"
proof -
  have "Peer_StoreId (fst p) \<notin> stores rps" "Peer_StoreId (snd p) \<in> stores rps" if "p \<in> N" for p
    using new_pair_fresh(2,3) [OF assms(1), of "fst p" "snd p"] that assms(2) by auto
  then show "Peer_StoreId ` fst ` N \<inter> stores rps = {}" "Peer_StoreId ` snd ` N \<subseteq> stores rps" by blast+
qed

lemma pairs_rounds:
  assumes "scatter_plan origin rps tps" "set ps \<subseteq> new_pairs tps rps" "ps = filter Q (zip tps rps)"
  shows "\<forall>rd \<in> set (map (scatter_round cluster) ps). round_ok origin rd"
    and "distinct (map (Peer_StoreId \<circ> round_peer) (map (scatter_round cluster) ps))"
    and "stores (map round_peer (map (scatter_round cluster) ps)) = Peer_StoreId ` fst ` set ps"
    and "round_from ` set (map (scatter_round cluster) ps) = Peer_StoreId ` snd ` set ps"
proof -
  show "\<forall>rd \<in> set (map (scatter_round cluster) ps). round_ok origin rd"
  proof
    fix rd assume "rd \<in> set (map (scatter_round cluster) ps)"
    then obtain t x where "rd = scatter_round cluster (t, x)" "(t, x) \<in> new_pairs tps rps" using assms(2) by auto
    then show "round_ok origin rd"
      using new_pair_fresh(4) [OF assms(1)] by (simp add: scatter_round_def CreateAddLightPeerSteps_adds)
  qed
  have "map (Peer_StoreId \<circ> round_peer) (map (scatter_round cluster) ps) = map (Peer_StoreId \<circ> fst) ps"
    by (simp add: scatter_round_def split_beta)
  moreover have "distinct (map (Peer_StoreId \<circ> fst) (zip tps rps))"
    using assms(1) by (simp add: scatter_plan_def map_fst_zip flip: map_map)
  then have "distinct (map (Peer_StoreId \<circ> fst) ps)" unfolding assms(3) by (rule distinct_map_filter)
  ultimately show "distinct (map (Peer_StoreId \<circ> round_peer) (map (scatter_round cluster) ps))" by metis
qed (auto simp: scatter_round_def image_image split_beta)

lemma run_pairs:
  assumes "scatter_plan origin rps tps" "set ps \<subseteq> new_pairs tps rps" "ps = filter Q (zip tps rps)" "peers_ok cur q"
    and "Peer_StoreId ` fst ` set ps \<inter> stores cur = {}" "Peer_StoreId q \<notin> Peer_StoreId ` snd ` set ps"
  shows "\<exists>cur'. runs_to origin (concat (map (round_steps \<circ> scatter_round cluster) ps)) cur q cur' q \<and>
    peers_ok cur' q \<and> stores cur' = (stores cur - Peer_StoreId ` snd ` set ps) \<union> Peer_StoreId ` fst ` set ps \<and>
    (\<forall>p \<in> set cur. Peer_StoreId p \<notin> Peer_StoreId ` snd ` set ps \<longrightarrow> p \<in> set cur')"
proof -
  note rounds = pairs_rounds [OF assms(1-3), of cluster]
  have "Peer_StoreId ` fst ` set ps \<inter> Peer_StoreId ` snd ` set ps = {}"
    by (rule disjoint_sub [OF new_images [OF assms(1,2)]])
  from run_rounds_set [OF assms(4) rounds(1,2), unfolded rounds(3,4), OF assms(5) this assms(6)]
  show ?thesis unfolding map_map .
qed

subsection \<open>Running the steps of a scatter operator\<close>

lemma set_scatter_old:
  "fF \<inter> S = {} \<Longrightarrow> sT \<subseteq> S \<Longrightarrow> (S - sF \<union> fF) - sT \<union> fT = S - (sF \<union> sT) \<union> (fF \<union> fT)"
  by blast

lemma set_scatter_new:
  "a \<notin> S \<Longrightarrow> fF \<inter> S = {} \<Longrightarrow> b \<in> S \<Longrightarrow> sF \<subseteq> S \<Longrightarrow> sT \<subseteq> S \<Longrightarrow>
   ((insert a S - sF \<union> fF) - {b} - sT) \<union> fT = S - insert b (sF \<union> sT) \<union> insert a (fF \<union> fT)"
  by blast

lemma set_disjoint_later:
  "fT \<inter> S = {} \<Longrightarrow> fT \<inter> fF = {} \<Longrightarrow> fT \<inter> (S - sF \<union> fF) = {}"
  by blast

lemma set_disjoint_new:
  "fT \<inter> S = {} \<Longrightarrow> a \<notin> fT \<Longrightarrow> fT \<inter> fF = {} \<Longrightarrow> fT \<inter> (insert a S - sF \<union> fF) = {}"
  by blast

lemma scatter_pairs_filter: "\<exists>Q. scatter_pairs origin lid b ps = filter Q ps"
  by (auto simp: scatter_pairs_def)

lemma scatter_pairs_set:
  assumes "scatter_plan origin rps tps"
  shows "set (scatter_pairs origin lid b (zip tps rps)) =
    {(t, x) \<in> new_pairs tps rps. Peer_Id t \<noteq> lid \<and> (Peer_StoreId x = Peer_GetStoreId (ri_leader origin)) = b}"
proof -
  have "rps = RegionInfo_GetPeers origin" using assms by (simp add: scatter_plan_def)
  then have "Peer_StoreId t |\<notin>| RegionInfo_GetStoreIds origin \<longleftrightarrow> Peer_StoreId t \<notin> stores rps" for t by (simp only: GetStoreIds_iff)
  then show ?thesis by (auto simp: scatter_pairs_def new_pairs_def)
qed

lemma scatter_fst_disjoint:
  assumes "scatter_plan origin rps tps"
  shows "Peer_StoreId ` fst ` set (scatter_pairs origin lid True (zip tps rps)) \<inter>
    Peer_StoreId ` fst ` set (scatter_pairs origin lid False (zip tps rps)) = {}"
proof -
  have len: "length tps = length rps" "distinct (map Peer_StoreId tps)" using assms by (simp_all add: scatter_plan_def)
  have "Peer_StoreId (fst p) \<noteq> Peer_StoreId (fst p')"
    if "p \<in> set (scatter_pairs origin lid True (zip tps rps))" "p' \<in> set (scatter_pairs origin lid False (zip tps rps))" for p p'
    using that zip_unique(2) [OF len(1) _ _ len(2), of "fst p" "snd p" "fst p'" "snd p'"]
    unfolding scatter_pairs_set [OF assms] new_pairs_def by auto
  then show ?thesis by blast
qed

lemma replaced_unique:
  assumes "scatter_plan origin rps tps" "distinct (map Peer_StoreId rps)" "(t, x) \<in> set (zip tps rps)" "N \<subseteq> new_pairs tps rps" "(t, x) \<notin> N"
  shows "Peer_StoreId x \<notin> Peer_StoreId ` snd ` N"
proof
  assume "Peer_StoreId x \<in> Peer_StoreId ` snd ` N"
  then obtain p where p: "p \<in> N" "Peer_StoreId x = Peer_StoreId (snd p)" by (metis imageE)
  then have z: "(fst p, snd p) \<in> set (zip tps rps)" using assms(4) by (auto simp: new_pairs_def)
  have len: "length tps = length rps" using assms(1) by (simp add: scatter_plan_def)
  show False using zip_unique(1) [OF len assms(3) z assms(2) p(2)] p(1) assms(5) by simp
qed

lemma added_unique:
  assumes "scatter_plan origin rps tps" "(t, x) \<in> set (zip tps rps)" "N \<subseteq> new_pairs tps rps" "(t, x) \<notin> N"
  shows "Peer_StoreId t \<notin> Peer_StoreId ` fst ` N"
proof
  assume "Peer_StoreId t \<in> Peer_StoreId ` fst ` N"
  then obtain p where p: "p \<in> N" "Peer_StoreId t = Peer_StoreId (fst p)" by (metis imageE)
  then have z: "(fst p, snd p) \<in> set (zip tps rps)" using assms(3) by (auto simp: new_pairs_def)
  have len: "length tps = length rps" "distinct (map Peer_StoreId tps)" using assms(1) by (simp_all add: scatter_plan_def)
  show False using zip_unique(2) [OF len(1) assms(2) z len(2) p(2)] p(1) assms(4) by simp
qed

text \<open>The pairs of the loop are all replacements but the chosen leader's.\<close>

lemma scatter_pairs_cover:
  assumes "scatter_plan origin rps tps" "(t, x) \<in> set (zip tps rps)"
  shows "set (scatter_pairs origin (Peer_Id t) False (zip tps rps)) \<union> set (scatter_pairs origin (Peer_Id t) True (zip tps rps)) =
    new_pairs tps rps - {(t, x)}"
proof -
  have len: "length tps = length rps" "distinct (map Peer_Id tps)" using assms(1) by (simp_all add: scatter_plan_def)
  have other: "Peer_Id t' \<noteq> Peer_Id t \<longleftrightarrow> (t', x') \<noteq> (t, x)" if "(t', x') \<in> new_pairs tps rps" for t' x'
  proof -
    have z: "(t', x') \<in> set (zip tps rps)" using that by (simp add: new_pairs_def)
    show ?thesis using zip_unique(2) [OF len(1) z assms(2) len(2)] zip_unique(2) [OF len(1) z assms(2)] by blast
  qed
  show ?thesis
  proof (rule set_eqI)
    fix p
    show "p \<in> set (scatter_pairs origin (Peer_Id t) False (zip tps rps)) \<union> set (scatter_pairs origin (Peer_Id t) True (zip tps rps)) \<longleftrightarrow>
        p \<in> new_pairs tps rps - {(t, x)}"
      using other [of "fst p" "snd p"] unfolding scatter_pairs_set [OF assms(1)] by (cases p) auto
  qed
qed

lemma scatter_start:
  assumes "peers_ok rps q" "p \<in> set rps" "\<not> Peer_IsLearner p" "L = Peer_StoreId q"
  shows "runs_to r (if Peer_StoreId p \<noteq> L then [TransferLeader L (Peer_StoreId p)] else []) rps q rps p"
proof (cases "Peer_StoreId p = L")
  case True
  have "inj_on Peer_StoreId (set rps)" "q \<in> set rps" using assms(1) by (simp_all add: peers_ok_def distinct_map)
  then have "p = q" using True assms(2,4) by (simp add: inj_on_def)
  then show ?thesis using assms(4) by (simp add: runs_to_def)
next
  case False
  then show ?thesis using run_transfer_set [OF assms(1-3)] by simp
qed

text \<open>The chosen leader keeps its place: the leadership moves first, then all replacements.\<close>

lemma scatter_run_old:
  assumes "region_ok origin" "scatter_plan origin rps tps" "(p, p) \<in> set (zip tps rps)" "\<not> Peer_IsLearner p"
    and "L = Peer_GetStoreId (ri_leader origin)"
    and "F = scatter_pairs origin (Peer_Id p) False (zip tps rps)" "T = scatter_pairs origin (Peer_Id p) True (zip tps rps)"
  shows "\<exists>ps'. run_steps ((if Peer_StoreId p \<noteq> L then [TransferLeader L (Peer_StoreId p)] else []) @
      concat (map (round_steps \<circ> scatter_round cluster) F) @ concat (map (round_steps \<circ> scatter_round cluster) T)) origin =
      Some (region_with origin ps' (Some p)) \<and> peers_ok ps' p \<and> stores ps' = stores tps"
proof -
  note plan = assms(2)
  have rps: "rps = RegionInfo_GetPeers origin" using plan by (simp add: scatter_plan_def)
  obtain q where q: "ri_leader origin = Some q" "q \<in> set rps" "\<not> Peer_IsLearner q" "distinct (map Peer_StoreId rps)"
    "origin = region_with origin rps (Some q)"
    using assms(1) unfolding rps by (rule region_okE)
  have in_rps: "p \<in> set rps" using plan_pair(2) [OF plan assms(3)] .
  have ok: "peers_ok rps p" "peers_ok rps q" using in_rps q assms(4) by (auto simp: peers_ok_def)
  have L: "L = Peer_StoreId q" using assms(5) q(1) by simp
  have notnew: "(p, p) \<notin> new_pairs tps rps" using in_rps by (simp add: new_pairs_def)
  then have new: "new_pairs tps rps = set F \<union> set T"
    using scatter_pairs_cover [OF plan assms(3)] assms(6,7) by simp
  then have sub: "set F \<subseteq> new_pairs tps rps" "set T \<subseteq> new_pairs tps rps" by blast+
  have kept: "Peer_StoreId p \<notin> Peer_StoreId ` snd ` set F" "Peer_StoreId p \<notin> Peer_StoreId ` snd ` set T"
    using replaced_unique [OF plan q(4) assms(3) sub(1)] replaced_unique [OF plan q(4) assms(3) sub(2)] notnew new by blast+
  obtain QF QT where Q: "F = filter QF (zip tps rps)" "T = filter QT (zip tps rps)"
    using scatter_pairs_filter assms(6,7) by metis
  obtain c1 where c1: "runs_to origin (concat (map (round_steps \<circ> scatter_round cluster) F)) rps p c1 p" "peers_ok c1 p"
    "stores c1 = stores rps - Peer_StoreId ` snd ` set F \<union> Peer_StoreId ` fst ` set F"
    using run_pairs [OF plan sub(1) Q(1) ok(1) new_images(1) [OF plan sub(1)] kept(1), of cluster] by metis
  have "Peer_StoreId ` fst ` set T \<inter> stores c1 = {}"
    unfolding c1(3) assms(6,7)
    by (rule set_disjoint_later [OF new_images(1) [OF plan sub(2) [unfolded assms(7)]] scatter_fst_disjoint [OF plan]])
  from run_pairs [OF plan sub(2) Q(2) c1(2) this kept(2), of cluster]
  obtain c2 where c2: "runs_to origin (concat (map (round_steps \<circ> scatter_round cluster) T)) c1 p c2 p" "peers_ok c2 p"
    "stores c2 = stores c1 - Peer_StoreId ` snd ` set T \<union> Peer_StoreId ` fst ` set T" by metis
  have "stores c2 = stores tps"
    unfolding c2(3) c1(3) plan_stores [OF plan q(4)] new image_Un
    by (rule set_scatter_old [OF new_images(1) [OF plan sub(1)] new_images(2) [OF plan sub(2)]])
  moreover note runs_to_Some [OF runs_to_append [OF scatter_start [OF ok(2) in_rps assms(4) L] runs_to_append [OF c1(1) c2(1)]]]
  ultimately show ?thesis using c2(2) q(5) by metis
qed

text \<open>
  The chosen leader is new: it is added first, the peers that do not lead are replaced, and only then
  the leadership moves and the peer it stands for goes.
\<close>

lemma scatter_tail:
  assumes "scatter_plan origin rps tps" "set ps \<subseteq> new_pairs tps rps" "ps = filter Q (zip tps rps)" "peers_ok cur q"
    and "p \<in> set cur" "\<not> Peer_IsLearner p" "Peer_StoreId ` fst ` set ps \<inter> stores cur = {}"
    and "Peer_StoreId p \<notin> Peer_StoreId ` snd ` set ps" "Peer_StoreId p \<noteq> x"
  shows "\<exists>cur'. runs_to origin ([TransferLeader L (Peer_StoreId p)] @ [RemovePeer x] @ concat (map (round_steps \<circ> scatter_round cluster) ps))
      cur q cur' p \<and>
    peers_ok cur' p \<and> stores cur' = stores cur - {x} - Peer_StoreId ` snd ` set ps \<union> Peer_StoreId ` fst ` set ps"
proof -
  have tr: "runs_to origin [TransferLeader L (Peer_StoreId p)] cur q cur p" "peers_ok cur p"
    using run_transfer_set [OF assms(4-6)] by blast+
  from run_remove_set [OF tr(2) assms(9)]
  obtain c where c: "runs_to origin [RemovePeer x] cur p c p" "peers_ok c p" "stores c = stores cur - {x}" by metis
  have "Peer_StoreId ` fst ` set ps \<inter> stores c = {}" unfolding c(3) by (rule disjoint_sub [OF assms(7) Diff_subset])
  from run_pairs [OF assms(1-3) c(2) this assms(8), of cluster]
  obtain c' where c': "runs_to origin (concat (map (round_steps \<circ> scatter_round cluster) ps)) c p c' p" "peers_ok c' p"
    "stores c' = stores c - Peer_StoreId ` snd ` set ps \<union> Peer_StoreId ` fst ` set ps" by metis
  show ?thesis
    using runs_to_append [OF tr(1) runs_to_append [OF c(1) c'(1)]] c'(2,3) unfolding c(3) by metis
qed

lemma scatter_run_new:
  assumes "region_ok origin" "scatter_plan origin rps tps" "(t, x) \<in> new_pairs tps rps"
    and "L = Peer_GetStoreId (ri_leader origin)" "p = voter (Peer_Id t) (Peer_StoreId t)"
    and "F = scatter_pairs origin (Peer_Id t) False (zip tps rps)" "T = scatter_pairs origin (Peer_Id t) True (zip tps rps)"
  shows "\<exists>ps'. run_steps (CreateAddLightPeerSteps (Peer_StoreId t) (Peer_Id t) cluster @
      concat (map (round_steps \<circ> scatter_round cluster) F) @ [TransferLeader L (Peer_StoreId t), RemovePeer (Peer_StoreId x)] @
      concat (map (round_steps \<circ> scatter_round cluster) T)) origin =
      Some (region_with origin ps' (Some p)) \<and> peers_ok ps' p \<and> stores ps' = stores tps"
proof -
  note plan = assms(2) and fresh = new_pair_fresh [OF assms(2,3)]
  have rps: "rps = RegionInfo_GetPeers origin" using plan by (simp add: scatter_plan_def)
  obtain q where q: "ri_leader origin = Some q" "q \<in> set rps" "\<not> Peer_IsLearner q" "distinct (map Peer_StoreId rps)"
    "origin = region_with origin rps (Some q)"
    using assms(1) unfolding rps by (rule region_okE)
  have p: "Peer_StoreId p = Peer_StoreId t" "\<not> Peer_IsLearner p" "L = Peer_StoreId q" using assms(4,5) q(1) by simp_all
  have ok: "peers_ok rps q" using q by (simp add: peers_ok_def)
  have cover: "set F \<union> set T = new_pairs tps rps - {(t, x)}"
    using scatter_pairs_cover [OF plan fresh(1)] assms(6,7) by simp
  then have new: "new_pairs tps rps = insert (t, x) (set F \<union> set T)" and sub: "set F \<subseteq> new_pairs tps rps" "set T \<subseteq> new_pairs tps rps"
    and out: "(t, x) \<notin> set F" "(t, x) \<notin> set T"
    using assms(3) by blast+
  obtain QF QT where Q: "F = filter QF (zip tps rps)" "T = filter QT (zip tps rps)"
    using scatter_pairs_filter assms(6,7) by metis
  have away: "Peer_StoreId t \<notin> Peer_StoreId ` fst ` set F" "Peer_StoreId t \<notin> Peer_StoreId ` fst ` set T"
    using added_unique [OF plan fresh(1) sub(1) out(1)] added_unique [OF plan fresh(1) sub(2) out(2)] by blast+
  have stay: "Peer_StoreId q \<notin> Peer_StoreId ` snd ` set F"
    unfolding assms(6) scatter_pairs_set [OF plan] using q(1) by auto
  obtain c0 where c0: "runs_to origin (CreateAddLightPeerSteps (Peer_StoreId t) (Peer_Id t) cluster) rps q c0 q" "peers_ok c0 q"
    "stores c0 = insert (Peer_StoreId t) (stores rps)" "p \<in> set c0"
    using run_add_set [OF ok CreateAddLightPeerSteps_adds fresh(2,4), of cluster] assms(5) by metis
  have "Peer_StoreId ` fst ` set F \<inter> stores c0 = {}"
    unfolding c0(3) using new_images(1) [OF plan sub(1)] away(1) by (metis Int_insert_right_if0)
  from run_pairs [OF plan sub(1) Q(1) c0(2) this stay, of cluster]
  obtain c1 where c1: "runs_to origin (concat (map (round_steps \<circ> scatter_round cluster) F)) c0 q c1 q" "peers_ok c1 q"
    "stores c1 = stores c0 - Peer_StoreId ` snd ` set F \<union> Peer_StoreId ` fst ` set F"
    "\<forall>p \<in> set c0. Peer_StoreId p \<notin> Peer_StoreId ` snd ` set F \<longrightarrow> p \<in> set c1" by metis
  have keep: "Peer_StoreId p \<notin> Peer_StoreId ` snd ` set F" "Peer_StoreId p \<notin> Peer_StoreId ` snd ` set T" "Peer_StoreId p \<noteq> Peer_StoreId x"
    using p(1) fresh(2,3) new_images(2) [OF plan sub(1)] new_images(2) [OF plan sub(2)] by (metis subsetD)+
  have "p \<in> set c1" using c1(4) c0(4) keep(1) by blast
  moreover have "Peer_StoreId ` fst ` set T \<inter> stores c1 = {}"
    unfolding c1(3) c0(3) using scatter_fst_disjoint [OF plan, of "Peer_Id t"]
    by (intro set_disjoint_new new_images(1) [OF plan sub(2)] away(2)) (simp only: assms(6,7))
  ultimately obtain c3 where c3: "runs_to origin ([TransferLeader L (Peer_StoreId p)] @ [RemovePeer (Peer_StoreId x)] @
      concat (map (round_steps \<circ> scatter_round cluster) T)) c1 q c3 p"
    "peers_ok c3 p" "stores c3 = stores c1 - {Peer_StoreId x} - Peer_StoreId ` snd ` set T \<union> Peer_StoreId ` fst ` set T"
    using scatter_tail [OF plan sub(2) Q(2) c1(2) _ p(2) _ keep(2,3)] by metis
  have "stores c3 = stores tps"
    unfolding c3(3) c1(3) c0(3) plan_stores [OF plan q(4)] new image_insert image_Un fst_conv snd_conv
    by (rule set_scatter_new [OF fresh(2) new_images(1) [OF plan sub(1)] fresh(3) new_images(2) [OF plan sub(1)] new_images(2) [OF plan sub(2)]])
  moreover note runs_to_Some [OF runs_to_append [OF c0(1) runs_to_append [OF c1(1) c3(1)]]]
  ultimately show ?thesis using c3(2) q(5) unfolding p(1) append_Cons append_Nil by metis
qed

lemma scatter_operator:
  assumes "scatter_first cluster origin rps (tps ! i) i = Some (steps, defers, kind)" "length tps = length rps" "tps \<noteq> []"
    and "\<not> (Peer_StoreId (tps ! i) = Peer_GetStoreId (ri_leader origin) \<and>
      list_all (\<lambda>peer. Peer_StoreId peer |\<in>| RegionInfo_GetStoreIds origin) tps)"
  shows "\<exists>kind'. CreateScatterRegionOperator t i desc cluster origin rps tps = Some (Some (new_op t desc origin kind'
    (steps @ concat (map (round_steps \<circ> scatter_round cluster) (scatter_pairs origin (Peer_Id (tps ! i)) False (zip tps rps))) @
     defers @ concat (map (round_steps \<circ> scatter_round cluster) (scatter_pairs origin (Peer_Id (tps ! i)) True (zip tps rps))))))"
proof -
  obtain kind' where "scatter_loop cluster origin (Peer_Id (tps ! i)) tps rps steps defers kind = Some
    (steps @ concat (map (round_steps \<circ> scatter_round cluster) (scatter_pairs origin (Peer_Id (tps ! i)) False (zip tps rps))),
     defers @ concat (map (round_steps \<circ> scatter_round cluster) (scatter_pairs origin (Peer_Id (tps ! i)) True (zip tps rps))), kind')"
    using scatter_loop_eq [OF assms(2)] by blast
  then show ?thesis using assms(1,3,4) by (auto simp: CreateScatterRegionOperator_def Let_def)
qed

lemma scatter_done:
  assumes "run_steps steps origin = Some (region_with origin ps (Some p))" "peers_ok ps p" "stores ps = S" "Peer_StoreId p = l"
  shows "\<exists>region' op'. ApplyOperator now origin (NewOperator t desc i e kind steps) = Some (region', op') \<and> Operator_IsFinish op' \<and>
    region_ok region' \<and> stores (RegionInfo_GetPeers region') = S \<and> Peer_GetStoreId (ri_leader region') = l"
proof -
  obtain op' where "ApplyOperator now origin (NewOperator t desc i e kind steps) = Some (region_with origin ps (Some p), op')" "Operator_IsFinish op'"
    using ApplyOperator_new [OF assms(1)] by blast
  then show ?thesis using assms(2-4) peers_ok_region [of ps p origin]
    by (intro exI [of _ "region_with origin ps (Some p)"] exI [of _ op']) simp
qed


subsection \<open>Moving a region to given stores\<close>

lemma move_adds_result:
  assumes "move_adds cluster region order steps c = (c', Inr steps')" "alloc_fresh cluster region"
  shows "\<exists>ids. length (filter (\<lambda>i. RegionInfo_GetStorePeer region i = None) order) = length ids \<and> (\<forall>i \<in> set ids. not_pending region i) \<and>
    steps' = steps @ concat (map2 (\<lambda>s i. CreateAddPeerSteps s i cluster) (filter (\<lambda>i. RegionInfo_GetStorePeer region i = None) order) ids)"
  using assms
proof (induction order arbitrary: steps c)
  case (Cons s order)
  show ?case
  proof (cases "RegionInfo_GetStorePeer region s = None")
    case True
    then obtain c1 q where q: "cl_AllocPeer cluster c s = (c1, Inr q)"
      "move_adds cluster region order (steps @ CreateAddPeerSteps s (Peer_Id q) cluster) c1 = (c', Inr steps')"
      using Cons.prems(1) by (auto split: prod.splits sum.splits)
    have "not_pending region (Peer_Id q)" using q(1) assms(2) by (auto simp: alloc_fresh_def)
    moreover obtain ids where "length (filter (\<lambda>i. RegionInfo_GetStorePeer region i = None) order) = length ids \<and> (\<forall>i \<in> set ids. not_pending region i) \<and>
        steps' = (steps @ CreateAddPeerSteps s (Peer_Id q) cluster) @
          concat (map2 (\<lambda>s i. CreateAddPeerSteps s i cluster) (filter (\<lambda>i. RegionInfo_GetStorePeer region i = None) order) ids)"
      using Cons.IH [OF q(2) assms(2)] by (rule exE)
    ultimately show ?thesis using True by (intro exI [of _ "Peer_Id q # ids"]) simp
  next
    case False
    then have skip: "filter (\<lambda>i. RegionInfo_GetStorePeer region i = None) (s # order) = filter (\<lambda>i. RegionInfo_GetStorePeer region i = None) order" by simp
    show ?thesis unfolding skip by (rule Cons.IH) (use Cons.prems False in auto)
  qed
qed simp

lemma move_adds_error:
  assumes "move_adds cluster region order steps c = (c', Inl e)"
  shows "\<exists>c s c'. s \<in> set order \<and> cl_AllocPeer cluster c s = (c', Inl e)"
  using assms
proof (induction order arbitrary: steps c)
  case (Cons s order)
  have rec: ?case if "move_adds cluster region order steps c = (c', Inl e)" for steps c
    using Cons.IH [OF that] by auto
  show ?case
  proof (cases "RegionInfo_GetStorePeer region s = None")
    case True
    obtain c1 r where r: "cl_AllocPeer cluster c s = (c1, r)" by fastforce
    show ?thesis
    proof (cases r)
      case (Inl e')
      then have "e' = e" using Cons.prems True r by simp
      then show ?thesis using r Inl by (intro exI [of _ c] exI [of _ s] exI [of _ c1]) simp
    next
      case (Inr p)
      then show ?thesis using Cons.prems True r by (intro rec) simp
    qed
  next
    case False
    then show ?thesis using Cons.prems rec by simp
  qed
qed simp

lemma run_adds:
  assumes "length ss = length ids" "peers_ok cur q" "distinct ss" "set ss \<inter> stores cur = {}" "\<forall>i \<in> set ids. not_pending r i"
  shows "\<exists>cur'. runs_to r (concat (map2 (\<lambda>s i. CreateAddPeerSteps s i cluster) ss ids)) cur q cur' q \<and> peers_ok cur' q \<and>
    stores cur' = stores cur \<union> set ss \<and> set cur \<subseteq> set cur' \<and> (\<forall>p \<in> set cur' - set cur. \<not> Peer_IsLearner p)"
  using assms
proof (induction ss ids arbitrary: cur rule: list_induct2)
  case Nil
  then show ?case by (auto simp: runs_to_def)
next
  case (Cons s ss i ids)
  have "s \<notin> stores cur" "not_pending r i" using Cons.prems by auto
  then have step: "runs_to r (CreateAddPeerSteps s i cluster) cur q (cur @ [voter i s]) q"
    by (simp add: runs_to_def adds_voterD [OF CreateAddPeerSteps_adds])
  have "peers_ok (cur @ [voter i s]) q" "set ss \<inter> stores (cur @ [voter i s]) = {}"
    using Cons.prems by (auto simp: peers_ok_def)
  with Cons.IH [of "cur @ [voter i s]"] Cons.prems obtain cur'
    where c: "runs_to r (concat (map2 (\<lambda>s i. CreateAddPeerSteps s i cluster) ss ids)) (cur @ [voter i s]) q cur' q" "peers_ok cur' q"
      "stores cur' = stores (cur @ [voter i s]) \<union> set ss" "set (cur @ [voter i s]) \<subseteq> set cur'"
      "\<forall>p \<in> set cur' - set (cur @ [voter i s]). \<not> Peer_IsLearner p" by auto
  have "\<forall>p \<in> set cur' - set cur. \<not> Peer_IsLearner p" using c(5) by auto
  moreover have "stores cur' = stores cur \<union> set (s # ss)" using c(3) by auto
  ultimately show ?case using runs_to_append [OF step c(1)] c(2,4) by (intro exI [of _ cur']) auto
qed

text \<open>The steps that remove one peer; a leader hands over to the first store of the order.\<close>

definition move_remove :: "u64 \<Rightarrow> u64 \<Rightarrow> metapb_Peer \<Rightarrow> OperatorStep list" where
  "move_remove leaderID h p =
     (if leaderID = Peer_Id p then [TransferLeader (Peer_StoreId p) h] else []) @ [RemovePeer (Peer_StoreId p)]"

lemma move_removes_eq:
  "move_removes region (h # order) ps steps =
     steps @ concat (map (move_remove (Peer_GetId (ri_leader region)) h) (filter (\<lambda>p. Peer_StoreId p \<notin> set (h # order)) ps))"
  by (induction ps arbitrary: steps) (simp_all add: move_remove_def Let_def)

lemma run_removes:
  assumes "peers_ok cur l" "h \<in> set cur" "\<not> Peer_IsLearner h" "Peer_StoreId h \<notin> stores ps"
    and "\<forall>p \<in> set ps. Peer_StoreId p = Peer_StoreId l \<longrightarrow> leaderID = Peer_Id p"
  shows "\<exists>cur' l'. runs_to r (concat (map (move_remove leaderID (Peer_StoreId h)) ps)) cur l cur' l' \<and> peers_ok cur' l' \<and>
    stores cur' = stores cur - stores ps"
  using assms
proof (induction ps arbitrary: cur l)
  case Nil
  then show ?case by (auto simp: runs_to_def)
next
  case (Cons p ps)
  define m where "m = (if leaderID = Peer_Id p then h else l)"
  have m: "runs_to r (if leaderID = Peer_Id p then [TransferLeader (Peer_StoreId p) (Peer_StoreId h)] else []) cur l cur m"
    "peers_ok cur m" "Peer_StoreId m \<noteq> Peer_StoreId p"
    using run_transfer_set [OF Cons.prems(1-3)] Cons.prems(1,4,5) by (auto simp: m_def runs_to_def)
  from run_remove_set [OF m(2,3)] obtain c where c: "runs_to r [RemovePeer (Peer_StoreId p)] cur m c m" "peers_ok c m"
    "stores c = stores cur - {Peer_StoreId p}" "\<forall>p' \<in> set cur. Peer_StoreId p' \<noteq> Peer_StoreId p \<longrightarrow> p' \<in> set c" by metis
  have out: "Peer_StoreId h \<noteq> Peer_StoreId p" "Peer_StoreId h \<notin> stores ps" using Cons.prems(4) by simp_all
  then have "h \<in> set c" "Peer_StoreId h \<notin> stores ps" using c(4) Cons.prems(2) by blast+
  moreover have "\<forall>p' \<in> set ps. Peer_StoreId p' = Peer_StoreId m \<longrightarrow> leaderID = Peer_Id p'"
  proof (cases "leaderID = Peer_Id p")
    case True
    then show ?thesis using out(2) by (metis image_eqI m_def)
  next
    case False
    then show ?thesis using Cons.prems(5) by (simp add: m_def)
  qed
  ultimately obtain c' l' where "runs_to r (concat (map (move_remove leaderID (Peer_StoreId h)) ps)) c m c' l'" "peers_ok c' l'"
    "stores c' = stores c - stores ps"
    using Cons.IH [OF c(2) _ Cons.prems(3)] by blast
  moreover have "runs_to r (move_remove leaderID (Peer_StoreId h) p) cur l c m"
    unfolding move_remove_def by (rule runs_to_append [OF m(1) c(1)])
  ultimately show ?case
    using runs_to_append c(3) by (intro exI [of _ c'] exI [of _ l']) auto
qed

lemma GetStorePeer_None: "RegionInfo_GetStorePeer r s = None \<longleftrightarrow> s \<notin> stores (RegionInfo_GetPeers r)"
  by (simp add: RegionInfo_GetStorePeer_def find_store_None)

lemma move_region_run:
  assumes "region_ok region" "ri_learners region = []" "distinct (map Peer_Id (RegionInfo_GetPeers region))"
    and "alloc_fresh cluster region" "distinct order1" "set order1 = set (h # order2)"
    and "move_adds cluster region order1 [] c = (c', Inr steps)"
  shows "\<exists>ps q. run_steps (move_removes region (h # order2) (RegionInfo_GetPeers region) steps) region = Some (region_with region ps (Some q)) \<and>
    peers_ok ps q \<and> stores ps = set order1"
proof -
  let ?ps = "RegionInfo_GetPeers region" and ?new = "filter (\<lambda>i. RegionInfo_GetStorePeer region i = None) order1"
  let ?out = "filter (\<lambda>p. Peer_StoreId p \<notin> set (h # order2)) ?ps"
  obtain q where q: "ri_leader region = Some q" "q \<in> set ?ps" "\<not> Peer_IsLearner q" "distinct (map Peer_StoreId ?ps)"
    "region = region_with region ?ps (Some q)"
    using assms(1) by (rule region_okE)
  have voters: "\<forall>p \<in> set ?ps. \<not> Peer_IsLearner p"
    using assms(1,2) unfolding region_ok_def region_classified_def RegionInfo_GetPeers_def by (metis (mono_tags) filter_empty_conv)
  have ok: "peers_ok ?ps q" using q by (simp add: peers_ok_def)
  obtain ids where ids: "length ?new = length ids" "\<forall>i \<in> set ids. not_pending region i"
    "steps = concat (map2 (\<lambda>s i. CreateAddPeerSteps s i cluster) ?new ids)"
    using move_adds_result [OF assms(7,4)] by auto
  have "distinct ?new" "set ?new \<inter> stores ?ps = {}" using assms(5) by (auto simp: GetStorePeer_None simp del: RegionInfo_GetPeers_def)
  from run_adds [OF ids(1) ok this ids(2), of cluster] obtain c1 where c1: "runs_to region steps ?ps q c1 q" "peers_ok c1 q"
    "stores c1 = stores ?ps \<union> set ?new" "set ?ps \<subseteq> set c1" "\<forall>p \<in> set c1 - set ?ps. \<not> Peer_IsLearner p"
    unfolding ids(3) by metis
  have new: "set ?new = set order1 - stores ?ps" by (auto simp: GetStorePeer_None simp del: RegionInfo_GetPeers_def)
  then have "h \<in> stores c1" unfolding c1(3) using assms(6) by auto
  then obtain p where p: "p \<in> set c1" "Peer_StoreId p = h" by blast
  have v: "\<not> Peer_IsLearner p" using c1(5) voters p(1) by blast
  have gone: "Peer_StoreId p \<notin> stores ?out" using p(2) by auto
  have lead: "\<forall>p \<in> set ?out. Peer_StoreId p = Peer_StoreId q \<longrightarrow> Peer_GetId (ri_leader region) = Peer_Id p"
    using q(1,2,4) by (auto simp: distinct_map inj_on_def)
  from run_removes [OF c1(2) p(1) v gone lead] obtain c2 l
    where c2: "runs_to region (concat (map (move_remove (Peer_GetId (ri_leader region)) h) ?out)) c1 q c2 l" "peers_ok c2 l"
      "stores c2 = stores c1 - stores ?out"
    unfolding p(2) by metis
  have "stores ?out = stores ?ps - set order1" unfolding stores_filter_notin assms(6) ..
  then have "stores c2 = set order1" unfolding c2(3) c1(3) new by blast
  moreover note runs_to_Some [OF runs_to_append [OF c1(1) c2(1)]]
  ultimately show ?thesis using c2(2) q(5) unfolding move_removes_eq by metis
qed

text \<open>
  (C7) Moving a region to a set of stores: for a well-formed region without learners and a non-empty
  set, the operator is refused only when a peer cannot be allocated; else running it ends without a
  panic with the region on exactly the given stores, led by one of its voters, whatever the order in
  which the loops visit the set.
\<close>
theorem CreateMoveRegionOperator_runs:
  assumes "region_ok region" "ri_learners region = []" "distinct (map Peer_Id (RegionInfo_GetPeers region))"
    and "alloc_fresh cluster region" "set_order order1 storeIDs" "set_order order2 storeIDs" "storeIDs \<noteq> {||}"
  shows "case snd (CreateMoveRegionOperator t order1 order2 desc cluster region kind c) of
     Inl e \<Rightarrow> \<exists>c s c'. s |\<in>| storeIDs \<and> cl_AllocPeer cluster c s = (c', Inl e)
   | Inr op \<Rightarrow> \<exists>region' op'. ApplyOperator now region op = Some (region', op') \<and> Operator_IsFinish op' \<and>
       region_ok region' \<and> RegionInfo_GetStoreIds region' = storeIDs"
proof (cases "move_adds cluster region order1 [] c")
  case (Pair c' res)
  have set1: "distinct order1" "set order1 = fset storeIDs" "set order2 = fset storeIDs" using assms(5,6) by (simp_all add: set_order_iff)
  show ?thesis
  proof (cases res)
    case (Inl e)
    have "\<exists>c s c'. s \<in> set order1 \<and> cl_AllocPeer cluster c s = (c', Inl e)" using Pair Inl move_adds_error by metis
    then show ?thesis using Pair Inl set1(2) by (auto simp: CreateMoveRegionOperator_def)
  next
    case (Inr steps)
    obtain h rest where h: "order2 = h # rest" using assms(7) set1(3) by (cases order2) auto
    have "set order1 = set (h # rest)" using set1 h by simp
    from move_region_run [OF assms(1-4) set1(1) this Pair [unfolded Inr]] obtain ps q
      where run: "run_steps (move_removes region order2 (RegionInfo_GetPeers region) steps) region = Some (region_with region ps (Some q))"
        "peers_ok ps q" "stores ps = fset storeIDs" unfolding h set1(2) by metis
    have "fset (RegionInfo_GetStoreIds (region_with region ps (Some q))) = fset storeIDs"
      using run(3) by (simp add: RegionInfo_GetStoreIds_def fset_of_list.rep_eq)
    then have "RegionInfo_GetStoreIds (region_with region ps (Some q)) = storeIDs" by (simp only: fset_inject)
    then show ?thesis using Pair Inr run(2) ApplyOperator_new [OF run(1)] peers_ok_region [of ps q region]
      by (fastforce simp: CreateMoveRegionOperator_def)
  qed
qed

subsection \<open>Instances\<close>


theorem CreateMoveRegionOperator_runs_witness:
  "\<exists>op region' op'. snd (CreateMoveRegionOperator 0 [2, 3] [3, 2] ''move'' sample_cluster (sample_region 7 [voter 1 1, voter 2 2]) 0 9) = Inr op \<and>
     ApplyOperator 0 (sample_region 7 [voter 1 1, voter 2 2]) op = Some (region', op') \<and> Operator_IsFinish op' \<and>
     RegionInfo_GetStoreIds region' = {|2, 3|}"
proof -
  let ?r = "sample_region 7 [voter 1 1, voter 2 2]"
  have ok: "region_ok ?r" "ri_learners ?r = []" "distinct (map Peer_Id (RegionInfo_GetPeers ?r))" "alloc_fresh sample_cluster ?r"
    by (simp_all add: region_ok_def alloc_fresh_def not_pending_def del: RegionInfo_GetPeers_def)
  have "set_order [2, 3] {|2, 3 :: u64|}" "set_order [3, 2] {|2, 3 :: u64|}" "{|2, 3 :: u64|} \<noteq> {||}" by (auto simp: set_order_iff)
  from CreateMoveRegionOperator_runs [OF ok this, where t = 0 and desc = "''move''" and kind = 0 and c = 9 and now = 0]
  show ?thesis by (auto split: sum.splits simp: sample_cluster_def)
qed

end
