(* ===== verification/OperatorQueue.thy ===== *)
theory OperatorQueue
  imports Operator "HOL-Library.Multiset"
begin

text \<open>
  \<open>server/schedule/operator_queue.go\<close>: the queue of operators by the time of their next push, a slice
  kept as a binary heap by Go's \<open>container/heap\<close>. The sift loops of that package are modelled on the
  slice. The items are pointers that only the holder changes, between taking one out and putting it
  back, so a value models them; the operator of an item is a reference.
\<close>

type_synonym op_ref = nat

record operatorWithTime =
  qi_op :: op_ref
  qi_time :: time

type_synonym operatorQueue = "operatorWithTime list"

definition operatorQueue_Len :: "operatorQueue \<Rightarrow> nat" where
  "operatorQueue_Len opn = length opn"

definition operatorQueue_Less :: "operatorQueue \<Rightarrow> nat \<Rightarrow> nat \<Rightarrow> bool" where
  "operatorQueue_Less opn i j \<longleftrightarrow> qi_time (opn ! i) < qi_time (opn ! j)"

definition operatorQueue_Swap :: "nat \<Rightarrow> nat \<Rightarrow> operatorQueue \<Rightarrow> operatorQueue" where
  "operatorQueue_Swap i j opn = opn[i := opn ! j, j := opn ! i]"

definition operatorQueue_Push :: "operatorQueue \<Rightarrow> operatorWithTime \<Rightarrow> operatorQueue" where
  "operatorQueue_Push opn item = opn @ [item]"

text \<open>\<open>Pop\<close> takes the last element; nil for an empty queue.\<close>

definition operatorQueue_Pop :: "operatorQueue \<Rightarrow> operatorQueue \<times> operatorWithTime option" where
  "operatorQueue_Pop opn =
     (let n = length opn in if n = 0 then (opn, None) else (take (n - 1) opn, Some (opn ! (n - 1))))"

subsection \<open>container/heap\<close>

function heap_up :: "nat \<Rightarrow> operatorQueue \<Rightarrow> operatorQueue" where
  "heap_up j h =
     (let i = (j - 1) div 2
      in if i = j \<or> \<not> operatorQueue_Less h j i then h
         else heap_up i (operatorQueue_Swap i j h))"
  by auto
termination
  by (relation "measure fst") auto

function heap_down :: "nat \<Rightarrow> nat \<Rightarrow> operatorQueue \<Rightarrow> operatorQueue" where
  "heap_down n i h =
     (let j1 = 2 * i + 1
      in if j1 \<ge> n then h
         else let j2 = j1 + 1; j = (if j2 < n \<and> operatorQueue_Less h j2 j1 then j2 else j1)
              in if \<not> operatorQueue_Less h j i then h
                 else heap_down n j (operatorQueue_Swap i j h))"
  by auto
termination
  by (relation "measure (\<lambda>(n, i, h). n - i)") auto

declare heap_up.simps [simp del] heap_down.simps [simp del]

definition heap_Push :: "operatorQueue \<Rightarrow> operatorWithTime \<Rightarrow> operatorQueue" where
  "heap_Push h x = (let h = operatorQueue_Push h x in heap_up (operatorQueue_Len h - 1) h)"

definition heap_Pop :: "operatorQueue \<Rightarrow> operatorQueue \<times> operatorWithTime option" where
  "heap_Pop h =
     (let n = operatorQueue_Len h - 1; h = operatorQueue_Swap 0 n h in operatorQueue_Pop (heap_down n 0 h))"

subsection \<open>The heap order\<close>

definition par :: "nat \<Rightarrow> nat" where "par k = (k - 1) div 2"

abbreviation key_at :: "operatorQueue \<Rightarrow> nat \<Rightarrow> time" where "key_at h k \<equiv> qi_time (h ! k)"

definition heap_ok :: "nat \<Rightarrow> operatorQueue \<Rightarrow> bool" where
  "heap_ok n h \<longleftrightarrow> (\<forall>k. 0 < k \<and> k < n \<longrightarrow> key_at h (par k) \<le> key_at h k)"

text \<open>The order up to a hole at \<open>j\<close> that may be too small, or at \<open>i\<close> that may be too large.\<close>

definition hole_up :: "nat \<Rightarrow> operatorQueue \<Rightarrow> bool" where
  "hole_up j h \<longleftrightarrow> (\<forall>k. 0 < k \<and> k < length h \<longrightarrow>
     (k \<noteq> j \<longrightarrow> key_at h (par k) \<le> key_at h k) \<and> (par k = j \<and> 0 < j \<longrightarrow> key_at h (par j) \<le> key_at h k))"

definition hole_down :: "nat \<Rightarrow> nat \<Rightarrow> operatorQueue \<Rightarrow> bool" where
  "hole_down n i h \<longleftrightarrow> (\<forall>k. 0 < k \<and> k < n \<longrightarrow>
     (par k \<noteq> i \<longrightarrow> key_at h (par k) \<le> key_at h k) \<and> (par k = i \<and> 0 < i \<longrightarrow> key_at h (par i) \<le> key_at h k))"

lemma length_Swap [simp]: "length (operatorQueue_Swap i j h) = length h"
  by (simp add: operatorQueue_Swap_def)

lemma nth_Swap:
  "i < length h \<Longrightarrow> j < length h \<Longrightarrow>
     operatorQueue_Swap i j h ! k = (if k = j then h ! i else if k = i then h ! j else h ! k)"
  by (auto simp: operatorQueue_Swap_def nth_list_update)

lemma mset_Swap [simp]: "i < length h \<Longrightarrow> j < length h \<Longrightarrow> mset (operatorQueue_Swap i j h) = mset h"
  by (simp add: operatorQueue_Swap_def mset_swap)

lemma par_less: "0 < k \<Longrightarrow> par k < k"
  by (simp add: par_def)

lemma heap_up_eq:
  "heap_up j h = (if par j = j \<or> \<not> operatorQueue_Less h j (par j) then h else heap_up (par j) (operatorQueue_Swap (par j) j h))"
  by (subst heap_up.simps) (simp add: Let_def par_def)

lemma heap_up_ok:
  "j < length h \<Longrightarrow> hole_up j h \<Longrightarrow> heap_ok (length h) (heap_up j h) \<and> mset (heap_up j h) = mset h"
proof (induction j arbitrary: h rule: less_induct)
  case (less j)
  show ?case
  proof (cases "par j = j \<or> \<not> operatorQueue_Less h j (par j)")
    case True
    then have "heap_up j h = h" by (subst heap_up_eq) simp
    moreover have "heap_ok (length h) h"
      using less.prems(2) True by (auto simp: heap_ok_def hole_up_def operatorQueue_Less_def dest: par_less)
    ultimately show ?thesis by simp
  next
    case False
    let ?h = "operatorQueue_Swap (par j) j h"
    have "0 < j" using False by (cases j) (auto simp: par_def)
    then have j: "0 < j" "par j < j" by (simp_all add: par_less)
    have up: "heap_up j h = heap_up (par j) ?h" using False by (subst heap_up_eq) simp
    have lt: "key_at h j < key_at h (par j)" using False by (simp add: operatorQueue_Less_def)
    have nth: "?h ! k = (if k = j then h ! par j else if k = par j then h ! j else h ! k)" for k
      using j less.prems(1) by (simp add: nth_Swap)
    note hole = less.prems(2) [unfolded hole_up_def, rule_format]
    have "hole_up (par j) ?h"
      unfolding hole_up_def
    proof (intro allI impI conjI)
      fix k assume k: "0 < k \<and> k < length ?h"
      show "key_at ?h (par k) \<le> key_at ?h k" if "k \<noteq> par j"
        using hole [of k] hole [of j] k that lt j by (auto simp: nth)
      show "key_at ?h (par (par j)) \<le> key_at ?h k" if "par k = par j \<and> 0 < par j"
        using hole [of k] hole [of "par j"] k that lt j less.prems(1) par_less [of "par j"]
        by (auto simp: nth)
    qed
    then show ?thesis
      using less.IH [OF j(2), of ?h] less.prems(1) j up by simp
  qed
qed

lemma par_child: "0 < k \<Longrightarrow> par k = i \<longleftrightarrow> k = 2 * i + 1 \<or> k = 2 * i + 2"
  by (auto simp: par_def)

definition min_child :: "nat \<Rightarrow> nat \<Rightarrow> operatorQueue \<Rightarrow> nat" where
  "min_child n i h = (if 2 * i + 2 < n \<and> operatorQueue_Less h (2 * i + 2) (2 * i + 1) then 2 * i + 2 else 2 * i + 1)"

lemma heap_down_eq:
  "heap_down n i h =
     (if 2 * i + 1 \<ge> n \<or> \<not> operatorQueue_Less h (min_child n i h) i then h
      else heap_down n (min_child n i h) (operatorQueue_Swap i (min_child n i h) h))"
  by (subst heap_down.simps) (simp add: Let_def min_child_def)

lemma min_child:
  assumes "2 * i + 1 < n"
  shows "0 < min_child n i h" "par (min_child n i h) = i" "i < min_child n i h" "min_child n i h < n"
    "0 < k \<Longrightarrow> k < n \<Longrightarrow> par k = i \<Longrightarrow> key_at h (min_child n i h) \<le> key_at h k"
  using assms by (auto simp: min_child_def operatorQueue_Less_def par_child)

lemma heap_down_ok:
  "n \<le> length h \<Longrightarrow> hole_down n i h \<Longrightarrow>
     heap_ok n (heap_down n i h) \<and> mset (heap_down n i h) = mset h \<and> (\<forall>k \<ge> n. heap_down n i h ! k = h ! k)"
proof (induction "n - i" arbitrary: i h rule: less_induct)
  case less
  note hole = less.prems(2) [unfolded hole_down_def, rule_format]
  show ?case
  proof (cases "2 * i + 1 \<ge> n \<or> \<not> operatorQueue_Less h (min_child n i h) i")
    case True
    then have "heap_down n i h = h" by (subst heap_down_eq) simp
    moreover have "key_at h (par k) \<le> key_at h k" if k: "0 < k" "k < n" for k
    proof (cases "par k = i")
      case True
      then have "2 * i + 1 < n" using k by (auto simp: par_child)
      moreover from this \<open>2 * i + 1 \<ge> n \<or> _\<close> have "key_at h i \<le> key_at h (min_child n i h)"
        by (simp add: operatorQueue_Less_def)
      ultimately show ?thesis using min_child(5) [where i = i and n = n and h = h and k = k] k True by simp
    next
      case False
      then show ?thesis using hole [of k] k by simp
    qed
    ultimately show ?thesis by (simp add: heap_ok_def)
  next
    case False
    define j where "j = min_child n i h"
    let ?h = "operatorQueue_Swap i j h"
    have m: "0 < j" "par j = i" "i < j" "j < n" "\<And>k. 0 < k \<Longrightarrow> k < n \<Longrightarrow> par k = i \<Longrightarrow> key_at h j \<le> key_at h k"
      using min_child [where i = i and n = n and h = h] False by (auto simp: j_def)
    have lt: "key_at h j < key_at h i" using False by (simp add: operatorQueue_Less_def j_def)
    have nth: "?h ! k = (if k = j then h ! i else if k = i then h ! j else h ! k)" for k
      using m less.prems(1) by (simp add: nth_Swap)
    have "hole_down n j ?h"
      unfolding hole_down_def
    proof (intro allI impI conjI)
      fix k assume k: "0 < k \<and> k < n"
      show "key_at ?h (par k) \<le> key_at ?h k" if "par k \<noteq> j"
        using hole [of k] hole [of j] k that lt m(1-4) m(5) [of k] by (auto simp: nth)
      show "key_at ?h (par j) \<le> key_at ?h k" if "par k = j \<and> 0 < j"
        using hole [of k] k that lt m par_less [of k] by (auto simp: nth)
    qed
    moreover have "heap_down n i h = heap_down n j ?h" using False by (subst heap_down_eq) (simp add: j_def)
    ultimately show ?thesis
      using less.hyps [of j ?h] less.prems(1) m by (simp add: nth)
  qed
qed

lemma heap_min: "heap_ok n h \<Longrightarrow> k < n \<Longrightarrow> key_at h 0 \<le> key_at h k"
proof (induction k rule: less_induct)
  case (less k)
  show ?case
  proof (cases "k = 0")
    case False
    then have "key_at h (par k) \<le> key_at h k" using less.prems by (simp add: heap_ok_def)
    moreover have "key_at h 0 \<le> key_at h (par k)"
      using less.IH [of "par k"] less.prems False par_less [of k] by simp
    ultimately show ?thesis by simp
  qed simp
qed

subsection \<open>A priority queue\<close>

definition queue_ok :: "operatorQueue \<Rightarrow> bool" where
  "queue_ok h \<longleftrightarrow> heap_ok (length h) h"

lemma queue_ok_Nil [simp]: "queue_ok []"
  by (simp add: queue_ok_def heap_ok_def)

lemma heap_Push_ok:
  assumes "queue_ok h"
  shows "queue_ok (heap_Push h x) \<and> mset (heap_Push h x) = add_mset x (mset h)"
proof -
  let ?h = "h @ [x]"
  have "hole_up (length h) ?h"
    unfolding hole_up_def
  proof (intro allI impI conjI)
    fix k assume k: "0 < k \<and> k < length ?h"
    note less = par_less [of k]
    show "key_at ?h (par k) \<le> key_at ?h k" if "k \<noteq> length h"
      using assms k less that by (simp add: queue_ok_def heap_ok_def nth_append)
    show "key_at ?h (par (length h)) \<le> key_at ?h k" if "par k = length h \<and> 0 < length h"
      using k less that by simp
  qed
  then have "heap_ok (length ?h) (heap_up (length h) ?h) \<and> mset (heap_up (length h) ?h) = mset ?h"
    by (intro heap_up_ok) simp_all
  moreover from this have "length (heap_up (length h) ?h) = length ?h" by (metis size_mset)
  ultimately show ?thesis by (simp add: heap_Push_def operatorQueue_Push_def operatorQueue_Len_def queue_ok_def)
qed

lemma heap_Pop_ok:
  assumes "queue_ok h" "h \<noteq> []"
  shows "\<exists>h' x. heap_Pop h = (h', Some x) \<and> queue_ok h' \<and> mset h = add_mset x (mset h') \<and>
    (\<forall>y \<in> set h. qi_time x \<le> qi_time y)"
proof -
  define n where "n = length h - 1"
  have n: "length h = Suc n" using assms(2) by (simp add: n_def)
  let ?s = "operatorQueue_Swap 0 n h"
  define d where "d = heap_down n 0 ?s"
  have nth: "?s ! k = (if k = n then h ! 0 else if k = 0 then h ! n else h ! k)" for k
    using n by (simp add: nth_Swap)
  have "hole_down n 0 ?s"
    unfolding hole_down_def
  proof (intro allI impI conjI)
    fix k assume k: "0 < k \<and> k < n"
    show "key_at ?s (par k) \<le> key_at ?s k" if "par k \<noteq> 0"
      using assms(1) k n that par_less [of k] by (simp add: queue_ok_def heap_ok_def nth)
  qed simp
  from heap_down_ok [OF _ this] n have d: "heap_ok n d" "mset d = mset ?s" "d ! n = ?s ! n"
    by (simp_all add: d_def)
  have len: "length d = Suc n" using d(2) n by (metis length_Swap size_mset)
  have x: "d ! n = h ! 0" using d(3) by (simp add: nth)
  have pop: "heap_Pop h = (take n d, Some (h ! 0))"
    using x len by (auto simp: heap_Pop_def operatorQueue_Len_def operatorQueue_Pop_def Let_def n d_def [symmetric])
  have "queue_ok (take n d)" using d(1) len by (auto simp: queue_ok_def heap_ok_def dest: par_less)
  moreover have "mset h = add_mset (h ! 0) (mset (take n d))"
  proof -
    have "d = take n d @ [h ! 0]" using len x by (metis lessI take_Suc_conv_app_nth take_all order_refl)
    then have "mset d = mset (take n d @ [h ! 0])" by (rule arg_cong)
    then show ?thesis using d(2) n by simp
  qed
  moreover have "\<forall>y \<in> set h. qi_time (h ! 0) \<le> qi_time y"
    using heap_min [of "length h" h] assms(1) by (auto simp: queue_ok_def in_set_conv_nth)
  ultimately show ?thesis using pop by blast
qed

text \<open>
  What the controller relies on: a queue that keeps its items and gives back one with the earliest
  time. Taking out all items then gives them by increasing time.
\<close>

locale time_queue =
  fixes push :: "'q \<Rightarrow> operatorWithTime \<Rightarrow> 'q" and pop :: "'q \<Rightarrow> 'q \<times> operatorWithTime option"
    and ok :: "'q \<Rightarrow> bool" and items :: "'q \<Rightarrow> operatorWithTime multiset"
  assumes push_ok: "ok q \<Longrightarrow> ok (push q x) \<and> items (push q x) = add_mset x (items q)"
    and pop_ok: "ok q \<Longrightarrow> items q \<noteq> {#} \<Longrightarrow> \<exists>q' x. pop q = (q', Some x) \<and> ok q' \<and>
      items q = add_mset x (items q') \<and> (\<forall>y \<in># items q. qi_time x \<le> qi_time y)"
begin

fun drain :: "nat \<Rightarrow> 'q \<Rightarrow> operatorWithTime list" where
  "drain 0 q = []"
| "drain (Suc n) q = (case pop q of (q, None) \<Rightarrow> [] | (q, Some x) \<Rightarrow> x # drain n q)"

lemma pushes_ok: "ok q \<Longrightarrow> ok (foldl push q xs) \<and> items (foldl push q xs) = items q + mset xs"
  by (induction xs arbitrary: q) (auto simp: push_ok)

lemma drain_ok:
  "ok q \<Longrightarrow> size (items q) = n \<Longrightarrow>
     mset (drain n q) = items q \<and> sorted_wrt (\<lambda>x y. qi_time x \<le> qi_time y) (drain n q)"
proof (induction n arbitrary: q)
  case (Suc n)
  then have "items q \<noteq> {#}" by auto
  from pop_ok [OF Suc.prems(1) this] obtain q' x where q': "pop q = (q', Some x)" "ok q'"
    "items q = add_mset x (items q')" "\<forall>y \<in># items q. qi_time x \<le> qi_time y" by blast
  with Suc.IH [of q'] Suc.prems(2) have IH: "mset (drain n q') = items q'"
    "sorted_wrt (\<lambda>x y. qi_time x \<le> qi_time y) (drain n q')" by simp_all
  have "set (drain n q') = set_mset (items q')" using IH(1) by (metis set_mset_mset)
  with q' IH show ?case by simp
qed simp

end

interpretation opq: time_queue heap_Push heap_Pop queue_ok mset
  by unfold_locales (use heap_Push_ok heap_Pop_ok in auto)

text \<open>Taking out \<open>n\<close> items.\<close>

fun heap_Pops :: "nat \<Rightarrow> operatorQueue \<Rightarrow> operatorWithTime list" where
  "heap_Pops 0 q = []"
| "heap_Pops (Suc n) q = (case heap_Pop q of (q, None) \<Rightarrow> [] | (q, Some x) \<Rightarrow> x # heap_Pops n q)"

lemma heap_Pops_drain: "heap_Pops n q = opq.drain n q"
  by (induction n arbitrary: q) (auto split: prod.splits option.splits)

subsection \<open>Properties\<close>

text \<open>
  (C39) The queue of operators to push again: whatever items are pushed onto an empty queue, popping
  as many gives exactly these items, ordered by their time.
\<close>
theorem operatorQueue_sorts:
  "mset (heap_Pops (length xs) (foldl heap_Push [] xs)) = mset xs \<and>
   sorted_wrt (\<lambda>x y. qi_time x \<le> qi_time y) (heap_Pops (length xs) (foldl heap_Push [] xs))"
  using opq.pushes_ok [of "[]" xs] opq.drain_ok [of "foldl heap_Push [] xs" "length xs"]
  by (simp add: heap_Pops_drain)

end
