(* ===== verification/WaitingOperator.thy ===== *)
theory WaitingOperator
  imports OperatorQueue
begin

text \<open>
  \<open>server/schedule/waiting_operator.go\<close>: operators that wait for their turn, one bucket per priority,
  drawn with a probability proportional to the weight of the bucket among the non-empty ones.

  Operators are references into a heap \<open>h\<close>. The weights are \<open>float64\<close> in the code and reals here; the
  total is a sum of small integers, which floats represent exactly, while the proportions are
  rounded in the code and exact here. The random number is an argument. \<open>None\<close> is a panic.
\<close>

definition PriorityWeight :: "real list" where
  "PriorityWeight = [1, 4, 9]"

record Bucket =
  bk_weight :: real
  bk_ops :: "op_ref list"

record RandBuckets =
  rb_totalWeight :: real
  rb_buckets :: "Bucket list"

definition NewRandBuckets :: RandBuckets where
  "NewRandBuckets = \<lparr>rb_totalWeight = 0, rb_buckets = map (\<lambda>w. \<lparr>bk_weight = w, bk_ops = []\<rparr>) PriorityWeight\<rparr>"

definition RandBuckets_PutOperator :: "(op_ref \<Rightarrow> Operator) \<Rightarrow> RandBuckets \<Rightarrow> op_ref \<Rightarrow> RandBuckets option" where
  "RandBuckets_PutOperator h b op =
     (let priority = op_level (h op)
      in if priority \<ge> length (rb_buckets b) then None
         else let bucket = rb_buckets b ! priority
              in Some (b\<lparr>rb_totalWeight := (if bk_ops bucket = [] then rb_totalWeight b + bk_weight bucket else rb_totalWeight b),
                        rb_buckets := (rb_buckets b)[priority := bucket\<lparr>bk_ops := bk_ops bucket @ [op]\<rparr>]\<rparr>))"

definition RandBuckets_ListOperator :: "RandBuckets \<Rightarrow> op_ref list" where
  "RandBuckets_ListOperator b = concat (map bk_ops (rb_buckets b))"

text \<open>Taking the operators out of the bucket that was drawn; a merge takes two.\<close>

definition take_ops :: "(op_ref \<Rightarrow> Operator) \<Rightarrow> op_ref list \<Rightarrow> (op_ref list \<times> op_ref list) option" where
  "take_ops h ops =
     (if op_kind (h (ops ! 0)) AND OpMerge \<noteq> 0
      then (if length ops < 2 then None else Some ([ops ! 0, ops ! 1], drop 2 ops))
      else Some ([ops ! 0], drop 1 ops))"

fun GetOperator_loop ::
    "(op_ref \<Rightarrow> Operator) \<Rightarrow> real \<Rightarrow> RandBuckets \<Rightarrow> real \<Rightarrow> nat list \<Rightarrow> (RandBuckets \<times> op_ref list option) option" where
  "GetOperator_loop h r b acc [] = Some (b, None)"
| "GetOperator_loop h r b acc (i # is) =
     (let bucket = rb_buckets b ! i
      in if bk_ops bucket = [] then GetOperator_loop h r b acc is
         else let proportion = bk_weight bucket / rb_totalWeight b
              in if r \<ge> acc \<and> r < acc + proportion
                 then (case take_ops h (bk_ops bucket) of
                         None \<Rightarrow> None
                       | Some (res, rest) \<Rightarrow>
                           Some (b\<lparr>rb_buckets := (rb_buckets b)[i := bucket\<lparr>bk_ops := rest\<rparr>],
                                   rb_totalWeight := (if rest = [] then rb_totalWeight b - bk_weight bucket else rb_totalWeight b)\<rparr>,
                                 Some res))
                 else GetOperator_loop h r b (acc + proportion) is)"

definition RandBuckets_GetOperator ::
    "(op_ref \<Rightarrow> Operator) \<Rightarrow> real \<Rightarrow> RandBuckets \<Rightarrow> (RandBuckets \<times> op_ref list option) option" where
  "RandBuckets_GetOperator h r b =
     (if rb_totalWeight b = 0 then Some (b, None)
      else GetOperator_loop h r b 0 [0 ..< length (rb_buckets b)])"

text \<open>\<open>WaitingOperatorStatus\<close> counts the waiting entries by description.\<close>

type_synonym WaitingOperatorStatus = "(string, u64) fmap"

definition NewWaitingOperatorStatus :: WaitingOperatorStatus where
  "NewWaitingOperatorStatus = fmempty"

subsection \<open>The invariant\<close>

abbreviation is_merge :: "(op_ref \<Rightarrow> Operator) \<Rightarrow> op_ref \<Rightarrow> bool" where
  "is_merge h op \<equiv> op_kind (h op) AND OpMerge \<noteq> 0"

text \<open>The entries of a bucket: single operators, and merges followed by their partner.\<close>

fun op_groups :: "(op_ref \<Rightarrow> Operator) \<Rightarrow> op_ref list \<Rightarrow> op_ref list list option" where
  "op_groups h [] = Some []"
| "op_groups h (x # ops) =
     (if is_merge h x
      then (case ops of [] \<Rightarrow> None | y # ops \<Rightarrow> map_option (\<lambda>gs. [x, y] # gs) (op_groups h ops))
      else map_option (\<lambda>gs. [x] # gs) (op_groups h ops))"

definition weight_sum :: "Bucket list \<Rightarrow> real" where
  "weight_sum bs = (\<Sum>b \<leftarrow> bs. if bk_ops b = [] then 0 else bk_weight b)"

definition buckets_ok :: "(op_ref \<Rightarrow> Operator) \<Rightarrow> RandBuckets \<Rightarrow> bool" where
  "buckets_ok h b \<longleftrightarrow> map bk_weight (rb_buckets b) = PriorityWeight \<and> rb_totalWeight b = weight_sum (rb_buckets b) \<and>
     (\<forall>bucket \<in> set (rb_buckets b). op_groups h (bk_ops bucket) \<noteq> None)"

lemma NewRandBuckets_ok: "buckets_ok h NewRandBuckets"
  by (simp add: buckets_ok_def NewRandBuckets_def weight_sum_def PriorityWeight_def)

lemma bucket_groups:
  "buckets_ok h b \<Longrightarrow> i < length (rb_buckets b) \<Longrightarrow> \<exists>gs. op_groups h (bk_ops (rb_buckets b ! i)) = Some gs"
  unfolding buckets_ok_def by (metis nth_mem not_None_eq)

lemma weight_sum_update:
  "i < length bs \<Longrightarrow> weight_sum (bs[i := x]) = weight_sum bs - (if bk_ops (bs ! i) = [] then 0 else bk_weight (bs ! i)) +
     (if bk_ops x = [] then 0 else bk_weight x)"
  by (induction bs arbitrary: i) (auto simp: weight_sum_def split: nat.splits)

lemma op_groups_append:
  "op_groups h xs = Some gs \<Longrightarrow> op_groups h ys = Some gs' \<Longrightarrow> op_groups h (xs @ ys) = Some (gs @ gs')"
proof (induction h xs arbitrary: gs rule: op_groups.induct)
  case (2 h x ops)
  then show ?case by (cases ops) (auto split: if_splits)
qed simp

lemma take_ops_groups:
  assumes "op_groups h ops = Some gs" "ops \<noteq> []"
  shows "\<exists>g gs' rest. gs = g # gs' \<and> take_ops h ops = Some (g, rest) \<and> op_groups h rest = Some gs' \<and>
    g \<noteq> [] \<and> ops = g @ rest"
proof (cases ops)
  case (Cons x xs)
  show ?thesis
  proof (cases "is_merge h x")
    case True
    then obtain y ys where "xs = y # ys" using assms(1) Cons by (cases xs) auto
    with True assms(1) Cons show ?thesis by (auto simp: take_ops_def numeral_2_eq_2)
  next
    case False
    with assms(1) Cons show ?thesis by (auto simp: take_ops_def)
  qed
qed (use assms(2) in simp)

lemma weights_pos: "buckets_ok h b \<Longrightarrow> bucket \<in> set (rb_buckets b) \<Longrightarrow> 0 < bk_weight bucket"
proof -
  assume "buckets_ok h b" "bucket \<in> set (rb_buckets b)"
  then have "bk_weight bucket \<in> set PriorityWeight" by (metis buckets_ok_def image_eqI set_map)
  then show ?thesis by (auto simp: PriorityWeight_def)
qed

lemma weight_sum_nonneg: "(\<And>x. x \<in> set bs \<Longrightarrow> 0 < bk_weight x) \<Longrightarrow> 0 \<le> weight_sum bs"
  unfolding weight_sum_def by (intro sum_list_nonneg) (auto dest: less_imp_le)

lemma weight_sum_zero:
  "(\<And>x. x \<in> set bs \<Longrightarrow> 0 < bk_weight x) \<Longrightarrow> weight_sum bs = 0 \<longleftrightarrow> concat (map bk_ops bs) = []"
proof (induction bs)
  case (Cons x bs)
  then have "0 < bk_weight x" "0 \<le> weight_sum bs" by (simp_all add: weight_sum_nonneg)
  moreover have "weight_sum (x # bs) = (if bk_ops x = [] then 0 else bk_weight x) + weight_sum bs"
    by (simp add: weight_sum_def)
  moreover have "weight_sum bs = 0 \<longleftrightarrow> concat (map bk_ops bs) = []" using Cons by simp
  ultimately show ?case by (cases "bk_ops x = []") auto
qed (simp add: weight_sum_def)

subsection \<open>Drawing\<close>

text \<open>The bucket that the number \<open>r\<close> selects.\<close>

definition drawn :: "real \<Rightarrow> RandBuckets \<Rightarrow> nat \<Rightarrow> bool" where
  "drawn r b i \<longleftrightarrow> i < length (rb_buckets b) \<and> bk_ops (rb_buckets b ! i) \<noteq> [] \<and>
     weight_sum (take i (rb_buckets b)) / rb_totalWeight b \<le> r \<and>
     r < weight_sum (take (Suc i) (rb_buckets b)) / rb_totalWeight b"

definition take_from :: "(op_ref \<Rightarrow> Operator) \<Rightarrow> nat \<Rightarrow> RandBuckets \<Rightarrow> (RandBuckets \<times> op_ref list option) option" where
  "take_from h i b = (case take_ops h (bk_ops (rb_buckets b ! i)) of
     None \<Rightarrow> None
   | Some (res, rest) \<Rightarrow>
       Some (b\<lparr>rb_buckets := (rb_buckets b)[i := (rb_buckets b ! i)\<lparr>bk_ops := rest\<rparr>],
               rb_totalWeight := (if rest = [] then rb_totalWeight b - bk_weight (rb_buckets b ! i) else rb_totalWeight b)\<rparr>,
             Some res))"

lemma weight_sum_Suc:
  "k < length bs \<Longrightarrow> weight_sum (take (Suc k) bs) =
     weight_sum (take k bs) + (if bk_ops (bs ! k) = [] then 0 else bk_weight (bs ! k))"
  by (simp add: take_Suc_conv_app_nth weight_sum_def)

lemma GetOperator_loop_drawn:
  assumes "buckets_ok h b" "0 < rb_totalWeight b" "r < 1"
  shows "k \<le> length (rb_buckets b) \<Longrightarrow> weight_sum (take k (rb_buckets b)) / rb_totalWeight b \<le> r \<Longrightarrow>
    \<exists>i. drawn r b i \<and> GetOperator_loop h r b (weight_sum (take k (rb_buckets b)) / rb_totalWeight b)
      [k ..< length (rb_buckets b)] = take_from h i b"
proof (induction "length (rb_buckets b) - k" arbitrary: k)
  case 0
  then have "weight_sum (take k (rb_buckets b)) / rb_totalWeight b = 1"
    using assms(1,2) by (simp add: buckets_ok_def)
  with 0 assms(3) show ?case by simp
next
  case (Suc n)
  let ?bs = "rb_buckets b" and ?T = "rb_totalWeight b"
  have k: "k < length ?bs" using Suc.hyps(2) by simp
  have upt: "[k ..< length ?bs] = k # [Suc k ..< length ?bs]" using k by (simp add: upt_conv_Cons)
  have sums: "weight_sum (take (Suc k) ?bs) / ?T =
      weight_sum (take k ?bs) / ?T + (if bk_ops (?bs ! k) = [] then 0 else bk_weight (?bs ! k) / ?T)"
    by (simp add: weight_sum_Suc [OF k] add_divide_distrib)
  show ?case
  proof (cases "drawn r b k")
    case True
    then have "bk_ops (?bs ! k) \<noteq> []" "weight_sum (take k ?bs) / ?T \<le> r" "r < weight_sum (take (Suc k) ?bs) / ?T"
      by (simp_all add: drawn_def)
    then have "GetOperator_loop h r b (weight_sum (take k ?bs) / ?T) [k ..< length ?bs] = take_from h k b"
      using sums by (simp add: upt take_from_def Let_def)
    with True show ?thesis by blast
  next
    case False
    have "GetOperator_loop h r b (weight_sum (take k ?bs) / ?T) [k ..< length ?bs] =
        GetOperator_loop h r b (weight_sum (take (Suc k) ?bs) / ?T) [Suc k ..< length ?bs]"
      using False sums k Suc.prems(2) by (auto simp: upt drawn_def Let_def)
    moreover have "weight_sum (take (Suc k) ?bs) / ?T \<le> r"
      using False sums k Suc.prems(2) by (auto simp: drawn_def not_less split: if_splits)
    ultimately show ?thesis using Suc.hyps(1) [of "Suc k"] Suc.hyps(2) k by simp
  qed
qed

lemma concat_update:
  "i < length bs \<Longrightarrow> bk_ops (bs ! i) = g @ rest \<Longrightarrow>
     mset (concat (map bk_ops bs)) = mset g + mset (concat (map bk_ops (bs[i := (bs ! i)\<lparr>bk_ops := rest\<rparr>])))"
  by (induction bs arbitrary: i) (auto split: nat.splits)

lemma take_from_ok:
  assumes "buckets_ok h b" "drawn r b i"
  shows "\<exists>b' g gs. take_from h i b = Some (b', Some g) \<and> buckets_ok h b' \<and> g \<noteq> [] \<and>
    op_groups h (bk_ops (rb_buckets b ! i)) = Some (g # gs) \<and>
    rb_buckets b' = (rb_buckets b)[i := (rb_buckets b ! i)\<lparr>bk_ops := drop (length g) (bk_ops (rb_buckets b ! i))\<rparr>] \<and>
    mset (RandBuckets_ListOperator b) = mset g + mset (RandBuckets_ListOperator b')"
proof -
  let ?bs = "rb_buckets b"
  have i: "i < length ?bs" "bk_ops (?bs ! i) \<noteq> []" using assms(2) by (auto simp: drawn_def)
  then obtain gs0 where "op_groups h (bk_ops (?bs ! i)) = Some gs0"
    using bucket_groups [OF assms(1)] by blast
  from take_ops_groups [OF this i(2)] this obtain g gs rest where
    t: "take_ops h (bk_ops (?bs ! i)) = Some (g, rest)" "op_groups h rest = Some gs" "g \<noteq> []"
      "bk_ops (?bs ! i) = g @ rest" "op_groups h (bk_ops (?bs ! i)) = Some (g # gs)" by auto
  let ?bs' = "?bs[i := (?bs ! i)\<lparr>bk_ops := rest\<rparr>]"
  let ?b' = "b\<lparr>rb_buckets := ?bs', rb_totalWeight := (if rest = [] then rb_totalWeight b - bk_weight (?bs ! i) else rb_totalWeight b)\<rparr>"
  have "map bk_weight ?bs' = map bk_weight ?bs" using i(1) by (simp add: map_update list_update_same_conv)
  moreover have "op_groups h (bk_ops bucket) \<noteq> None" if "bucket \<in> set ?bs'" for bucket
    using that t(2) assms(1) set_update_subset_insert [of ?bs i] by (fastforce simp: buckets_ok_def)
  ultimately have "buckets_ok h ?b'"
    using assms(1) i by (simp add: buckets_ok_def weight_sum_update)
  moreover have "take_from h i b = Some (?b', Some g)" using t(1) by (simp add: take_from_def)
  moreover have "mset (RandBuckets_ListOperator b) = mset g + mset (RandBuckets_ListOperator ?b')"
    using concat_update [OF i(1) t(4)] by (simp add: RandBuckets_ListOperator_def)
  moreover have "drop (length g) (bk_ops (?bs ! i)) = rest" using t(4) by simp
  ultimately show ?thesis using t(3,5) by auto
qed

lemma GetOperator_cases:
  assumes "buckets_ok h b" "0 \<le> r" "r < 1"
  shows "(if RandBuckets_ListOperator b = [] then RandBuckets_GetOperator h r b = Some (b, None)
    else \<exists>i. drawn r b i \<and> RandBuckets_GetOperator h r b = take_from h i b)"
proof -
  have T: "rb_totalWeight b = 0 \<longleftrightarrow> RandBuckets_ListOperator b = []" "0 \<le> rb_totalWeight b"
    using assms(1) weight_sum_zero [of "rb_buckets b"] weight_sum_nonneg [of "rb_buckets b"] weights_pos [OF assms(1)]
    by (auto simp: buckets_ok_def RandBuckets_ListOperator_def)
  show ?thesis
  proof (cases "RandBuckets_ListOperator b = []")
    case False
    then have "0 < rb_totalWeight b" using T by simp
    from GetOperator_loop_drawn [OF assms(1) this assms(3), of 0] assms(2) False T show ?thesis
      by (simp add: RandBuckets_GetOperator_def weight_sum_def)
  qed (use T in \<open>simp add: RandBuckets_GetOperator_def\<close>)
qed

lemma take_ops_shorter:
  "take_ops h ops = Some (res, rest) \<Longrightarrow> ops \<noteq> [] \<Longrightarrow> length rest < length ops"
  by (cases ops) (auto simp: take_ops_def split: if_splits)

lemma take_from_shorter:
  assumes "take_from h i b = Some (b', Some g)" "i < length (rb_buckets b)" "bk_ops (rb_buckets b ! i) \<noteq> []"
  shows "length (RandBuckets_ListOperator b') < length (RandBuckets_ListOperator b)"
proof -
  obtain rest where rest: "take_ops h (bk_ops (rb_buckets b ! i)) = Some (g, rest)"
    "rb_buckets b' = (rb_buckets b)[i := (rb_buckets b ! i)\<lparr>bk_ops := rest\<rparr>]"
    using assms(1) by (auto simp: take_from_def split: option.splits)
  have "length (concat (map bk_ops (bs[i := (bs ! i)\<lparr>bk_ops := rest\<rparr>]))) < length (concat (map bk_ops bs))"
    if "i < length bs" "length rest < length (bk_ops (bs ! i))" for bs
    using that by (induction bs arbitrary: i) (auto split: nat.splits)
  with take_ops_shorter [OF rest(1) assms(3)] assms(2) rest(2) show ?thesis by (simp add: RandBuckets_ListOperator_def)
qed

lemma GetOperator_loop_shorter:
  "GetOperator_loop h r b acc is = Some (b', Some g) \<Longrightarrow> set is \<subseteq> {..< length (rb_buckets b)} \<Longrightarrow>
     length (RandBuckets_ListOperator b') < length (RandBuckets_ListOperator b)"
proof (induction "is" arbitrary: acc)
  case (Cons i tail)
  show ?case
  proof (cases "bk_ops (rb_buckets b ! i) = [] \<or>
      \<not> (r \<ge> acc \<and> r < acc + bk_weight (rb_buckets b ! i) / rb_totalWeight b)")
    case True
    then show ?thesis using Cons by (auto simp: Let_def split: if_splits)
  next
    case False
    then have "take_from h i b = Some (b', Some g)"
      using Cons.prems(1) by (simp add: Let_def take_from_def)
    with False Cons.prems(2) show ?thesis using take_from_shorter by simp
  qed
qed simp

lemma GetOperator_shorter:
  "RandBuckets_GetOperator h r b = Some (b', Some g) \<Longrightarrow>
     length (RandBuckets_ListOperator b') < length (RandBuckets_ListOperator b)"
  by (auto simp: RandBuckets_GetOperator_def split: if_splits intro!: GetOperator_loop_shorter)

text \<open>The operators of one call of \<open>AddWaitingOperator\<close> are put one after the other.\<close>

fun PutOperators :: "(op_ref \<Rightarrow> Operator) \<Rightarrow> RandBuckets \<Rightarrow> op_ref list \<Rightarrow> RandBuckets option" where
  "PutOperators h b [] = Some b"
| "PutOperators h b (x # xs) = (case RandBuckets_PutOperator h b x of None \<Rightarrow> None | Some b \<Rightarrow> PutOperators h b xs)"

lemma PutOperators_eq:
  "l < length (rb_buckets b) \<Longrightarrow> (\<And>x. x \<in> set g \<Longrightarrow> op_level (h x) = l) \<Longrightarrow>
   PutOperators h b g = Some (b\<lparr>
     rb_totalWeight := (if bk_ops (rb_buckets b ! l) = [] \<and> g \<noteq> [] then rb_totalWeight b + bk_weight (rb_buckets b ! l)
                        else rb_totalWeight b),
     rb_buckets := (rb_buckets b)[l := (rb_buckets b ! l)\<lparr>bk_ops := bk_ops (rb_buckets b ! l) @ g\<rparr>]\<rparr>)"
proof (induction g arbitrary: b)
  case (Cons x g)
  then show ?case by (simp add: RandBuckets_PutOperator_def Let_def)
qed simp

lemma PutOperators_ok:
  assumes "buckets_ok h b" "\<And>x. x \<in> set g \<Longrightarrow> op_level (h x) = l" "l < 3" "op_groups h g = Some gs" "g \<noteq> []"
  shows "\<exists>b'. PutOperators h b g = Some b' \<and> buckets_ok h b' \<and>
    rb_buckets b' = (rb_buckets b)[l := (rb_buckets b ! l)\<lparr>bk_ops := bk_ops (rb_buckets b ! l) @ g\<rparr>]"
proof -
  let ?bs = "rb_buckets b"
  have len: "length ?bs = 3" using assms(1) by (metis buckets_ok_def length_map PriorityWeight_def length_Cons list.size(3) numeral_3_eq_3)
  have l: "l < length ?bs" using assms(3) len by simp
  obtain gs0 where gs0: "op_groups h (bk_ops (?bs ! l)) = Some gs0"
    using bucket_groups [OF assms(1) l] by blast
  let ?bs' = "?bs[l := (?bs ! l)\<lparr>bk_ops := bk_ops (?bs ! l) @ g\<rparr>]"
  have "map bk_weight ?bs' = map bk_weight ?bs" using l by (simp add: map_update list_update_same_conv)
  moreover have "op_groups h (bk_ops bucket) \<noteq> None" if "bucket \<in> set ?bs'" for bucket
    using that op_groups_append [OF gs0 assms(4)] assms(1) set_update_subset_insert [of ?bs l]
    by (fastforce simp: buckets_ok_def)
  ultimately show ?thesis
    using PutOperators_eq [OF l assms(2)] assms(1,5) l by (simp add: buckets_ok_def weight_sum_update)
qed

subsection \<open>Properties\<close>


definition merge_heap :: "op_ref \<Rightarrow> Operator" where
  "merge_heap op = sample_op\<lparr>op_kind := OpMerge\<rparr>"

definition merge_buckets :: RandBuckets where
  "merge_buckets = the (PutOperators merge_heap NewRandBuckets [7, 8])"


text \<open>A merge that waits without its partner makes \<open>GetOperator\<close> panic once it is drawn.\<close>

lemma lone_merge_panics:
  "\<exists>b. PutOperators merge_heap NewRandBuckets [7] = Some b \<and> RandBuckets_GetOperator merge_heap 0 b = None"
  by (simp add: NewRandBuckets_def PriorityWeight_def RandBuckets_PutOperator_def RandBuckets_GetOperator_def
      merge_heap_def sample_op_def NewOperator_def NormalPriority_def OpMerge_def take_ops_def Let_def)

end
