(* ===== verification/OperatorController.thy ===== *)
theory OperatorController
  imports WaitingOperator Cache
begin

text \<open>
  \<open>server/schedule/operator_controller.go\<close>: which operators run, which wait, what is sent to the
  stores, and the limits per store.

  Operators are shared by pointer between the running map, the records, the buckets and the queue, so
  they are references into the heap \<open>oc_heap\<close>. Of the cluster the controller reads the regions, two
  options and the state of a store (\<open>oc_cluster\<close>); the callbacks it attaches to stores and the messages
  it sends are logs. The rate limiter (\<open>juju/ratelimit\<close>) is the parameter \<open>rl\<close>. All clock readings of one
  call are the same \<open>now\<close>; \<open>draws\<close> are the random numbers of a call, \<open>ord\<close> is the order in which Go
  ranges over a map of influences. \<open>None\<close> is a panic. Locks make each method one step; metrics and log
  lines are left out.
\<close>

subsection \<open>State\<close>

record oc_cluster =
  occ_GetRegion :: "u64 \<Rightarrow> RegionInfo option"
  occ_GetStoreBalanceRate :: real
  occ_GetSchedulerMaxWaitingOperator :: u64
  occ_IsTombstone :: "u64 \<Rightarrow> bool option"

record 'b ratelimit =
  rl_NewBucketWithRate :: "time \<Rightarrow> real \<Rightarrow> int \<Rightarrow> 'b"
  rl_Available :: "time \<Rightarrow> 'b \<Rightarrow> int"
  rl_Take :: "time \<Rightarrow> 'b \<Rightarrow> int \<Rightarrow> 'b"
  rl_Rate :: "'b \<Rightarrow> real"

datatype ConfChangeType = AddNode | RemoveNode | AddLearnerNode

datatype hb_command =
    CmdTransferLeader "metapb_Peer option"
  | CmdChangePeer ConfChangeType "metapb_Peer option"
  | CmdMerge metapb_Region
  | CmdSplitRegion i32

datatype OperatorStatus = SUCCESS | TIMEOUT | CANCEL | REPLACE | RUNNING

record OperatorWithStatus =
  ows_Op :: op_ref
  ows_Status :: OperatorStatus

type_synonym OperatorRecords = "OperatorWithStatus TTL"

record 'b OperatorController =
  oc_heap :: "op_ref \<Rightarrow> Operator"
  oc_operators :: "(u64, op_ref) fmap"
  oc_sent :: "(RegionInfo \<times> hb_command) list"
  oc_histories :: "OperatorHistory list"
  oc_counts :: "(OperatorKind, u64) fmap"
  oc_opRecords :: OperatorRecords
  oc_storesLimit :: "(u64, 'b) fmap"
  oc_attached :: "u64 list"
  oc_wop :: RandBuckets
  oc_wopStatus :: WaitingOperatorStatus
  oc_opNotifierQueue :: operatorQueue

definition historyKeepTime :: duration where "historyKeepTime = 5 * Minute"

definition slowNotifyInterval :: duration where "slowNotifyInterval = 5 * Second"

definition fastNotifyInterval :: duration where "fastNotifyInterval = 2 * Second"

definition StoreBalanceBaseTime :: real where "StoreBalanceBaseTime = 60"

definition operatorStatusRemainTime :: duration where "operatorStatusRemainTime = 10 * Minute"

definition NewOperatorRecords :: OperatorRecords where
  "NewOperatorRecords = NewTTL Minute operatorStatusRemainTime"

definition NewOperatorController :: "(op_ref \<Rightarrow> Operator) \<Rightarrow> 'b OperatorController" where
  "NewOperatorController h =
     \<lparr>oc_heap = h, oc_operators = fmempty, oc_sent = [], oc_histories = [], oc_counts = fmempty,
      oc_opRecords = NewOperatorRecords, oc_storesLimit = fmempty, oc_attached = [], oc_wop = NewRandBuckets,
      oc_wopStatus = NewWaitingOperatorStatus, oc_opNotifierQueue = []\<rparr>"

subsection \<open>Records and history\<close>

definition OperatorRecords_Get :: "time \<Rightarrow> OperatorRecords \<Rightarrow> u64 \<Rightarrow> OperatorWithStatus option" where
  "OperatorRecords_Get now o' i = TTL_Get now o' i"

definition OperatorRecords_Put ::
    "time \<Rightarrow> (op_ref \<Rightarrow> Operator) \<Rightarrow> op_ref \<Rightarrow> OperatorStatus \<Rightarrow> OperatorRecords \<Rightarrow> OperatorRecords" where
  "OperatorRecords_Put now h op status o' =
     TTL_Put now o' (op_regionID (h op)) \<lparr>ows_Op = op, ows_Status = status\<rparr>"

definition put_record :: "time \<Rightarrow> OperatorStatus \<Rightarrow> op_ref \<Rightarrow> 'b OperatorController \<Rightarrow> 'b OperatorController" where
  "put_record now status op oc = oc\<lparr>oc_opRecords := OperatorRecords_Put now (oc_heap oc) op status (oc_opRecords oc)\<rparr>"

definition pushHistory :: "time \<Rightarrow> 'b OperatorController \<Rightarrow> op_ref \<Rightarrow> 'b OperatorController" where
  "pushHistory now oc op =
     oc\<lparr>oc_histories := fold (\<lambda>h hs. h # hs) (Operator_History now (oc_heap oc op)) (oc_histories oc)\<rparr>"

fun PruneHistory_loop :: "time \<Rightarrow> OperatorHistory list \<Rightarrow> OperatorHistory list" where
  "PruneHistory_loop now [] = []"
| "PruneHistory_loop now (p # back) =
     (if time_Sub now (oh_FinishTime p) > historyKeepTime then PruneHistory_loop now back else p # back)"

text \<open>The loop runs from the back of the list, its oldest end.\<close>

definition PruneHistory :: "time \<Rightarrow> 'b OperatorController \<Rightarrow> 'b OperatorController" where
  "PruneHistory now oc = oc\<lparr>oc_histories := rev (PruneHistory_loop now (rev (oc_histories oc)))\<rparr>"

fun GetHistory_loop :: "time \<Rightarrow> OperatorHistory list \<Rightarrow> OperatorHistory list" where
  "GetHistory_loop start [] = []"
| "GetHistory_loop start (history # hs) =
     (if oh_FinishTime history < start then [] else history # GetHistory_loop start hs)"

definition GetHistory :: "'b OperatorController \<Rightarrow> time \<Rightarrow> OperatorHistory list" where
  "GetHistory oc start = GetHistory_loop start (oc_histories oc)"

subsection \<open>Counts\<close>

text \<open>Counting does not depend on the order of the range; the model ranges by increasing id.\<close>

fun updateCounts_loop :: "OperatorKind list \<Rightarrow> (OperatorKind, u64) fmap \<Rightarrow> (OperatorKind, u64) fmap" where
  "updateCounts_loop [] counts = counts"
| "updateCounts_loop (k # ks) counts =
     updateCounts_loop ks (fmupd k ((case fmlookup counts k of None \<Rightarrow> 0 | Some n \<Rightarrow> n) + 1) counts)"

definition running_kinds :: "'b OperatorController \<Rightarrow> OperatorKind list" where
  "running_kinds oc = map (\<lambda>i. op_kind (oc_heap oc (the (fmlookup (oc_operators oc) i))))
     (sorted_list_of_set (fset (fmdom (oc_operators oc))))"

definition updateCounts :: "'b OperatorController \<Rightarrow> 'b OperatorController" where
  "updateCounts oc = oc\<lparr>oc_counts := updateCounts_loop (running_kinds oc) fmempty\<rparr>"

definition OperatorCount :: "OperatorKind list \<Rightarrow> 'b OperatorController \<Rightarrow> OperatorKind \<Rightarrow> u64" where
  "OperatorCount order oc msk =
     sum_list (map (\<lambda>k. the (fmlookup (oc_counts oc) k))
       (filter (\<lambda>k. fmhas (oc_counts oc) k \<and> k AND msk \<noteq> 0) order))"

subsection \<open>Commands\<close>

fun step_command :: "RegionInfo \<Rightarrow> OperatorStep \<Rightarrow> hb_command option" where
  "step_command region (TransferLeader fromStore toStore) =
     Some (CmdTransferLeader (RegionInfo_GetStorePeer region toStore))"
| "step_command region (AddPeer toStore peerID) =
     (if RegionInfo_GetStorePeer region toStore \<noteq> None then None
      else Some (CmdChangePeer AddNode (Some \<lparr>Peer_Id = peerID, Peer_StoreId = toStore, Peer_IsLearner = False\<rparr>)))"
| "step_command region (AddLightPeer toStore peerID) =
     (if RegionInfo_GetStorePeer region toStore \<noteq> None then None
      else Some (CmdChangePeer AddNode (Some \<lparr>Peer_Id = peerID, Peer_StoreId = toStore, Peer_IsLearner = False\<rparr>)))"
| "step_command region (AddLearner toStore peerID) =
     (if RegionInfo_GetStorePeer region toStore \<noteq> None then None
      else Some (CmdChangePeer AddLearnerNode (Some \<lparr>Peer_Id = peerID, Peer_StoreId = toStore, Peer_IsLearner = True\<rparr>)))"
| "step_command region (AddLightLearner toStore peerID) =
     (if RegionInfo_GetStorePeer region toStore \<noteq> None then None
      else Some (CmdChangePeer AddLearnerNode (Some \<lparr>Peer_Id = peerID, Peer_StoreId = toStore, Peer_IsLearner = True\<rparr>)))"
| "step_command region (PromoteLearner toStore peerID) =
     Some (CmdChangePeer AddNode (Some \<lparr>Peer_Id = peerID, Peer_StoreId = toStore, Peer_IsLearner = False\<rparr>))"
| "step_command region (RemovePeer fromStore) =
     Some (CmdChangePeer RemoveNode (RegionInfo_GetStorePeer region fromStore))"
| "step_command region (MergeRegion fromRegion toRegion isPassive) =
     (if isPassive then None else Some (CmdMerge toRegion))"
| "step_command region (SplitRegion startKey endKey policy) = Some (CmdSplitRegion policy)"

definition SendScheduleCommand :: "'b OperatorController \<Rightarrow> RegionInfo \<Rightarrow> OperatorStep \<Rightarrow> 'b OperatorController" where
  "SendScheduleCommand oc region step =
     (case step_command region step of
        None \<Rightarrow> oc
      | Some cmd \<Rightarrow> oc\<lparr>oc_sent := oc_sent oc @ [(region, cmd)]\<rparr>)"

subsection \<open>Influence and store limits\<close>

fun NewTotalOpInfluence_loop :: "oc_cluster \<Rightarrow> Operator list \<Rightarrow> OpInfluence \<Rightarrow> OpInfluence" where
  "NewTotalOpInfluence_loop cl [] m = m"
| "NewTotalOpInfluence_loop cl (op # ops) m =
     NewTotalOpInfluence_loop cl ops
       (case occ_GetRegion cl (op_regionID op) of None \<Rightarrow> m | Some region \<Rightarrow> Operator_TotalInfluence op m region)"

definition NewTotalOpInfluence :: "Operator list \<Rightarrow> oc_cluster \<Rightarrow> OpInfluence" where
  "NewTotalOpInfluence operators cl = NewTotalOpInfluence_loop cl operators fmempty"

fun NewUnfinishedOpInfluence_loop :: "time \<Rightarrow> oc_cluster \<Rightarrow> Operator list \<Rightarrow> OpInfluence \<Rightarrow> OpInfluence" where
  "NewUnfinishedOpInfluence_loop now cl [] m = m"
| "NewUnfinishedOpInfluence_loop now cl (op # ops) m =
     NewUnfinishedOpInfluence_loop now cl ops
       (if \<not> Operator_IsTimeout now op \<and> \<not> Operator_IsFinish op
        then (case occ_GetRegion cl (op_regionID op) of None \<Rightarrow> m | Some region \<Rightarrow> Operator_UnfinishedInfluence op m region)
        else m)"

definition NewUnfinishedOpInfluence :: "time \<Rightarrow> Operator list \<Rightarrow> oc_cluster \<Rightarrow> OpInfluence" where
  "NewUnfinishedOpInfluence now operators cl = NewUnfinishedOpInfluence_loop now cl operators fmempty"

text \<open>\<open>order\<close> is the order of the range over the running operators.\<close>

definition GetOpInfluence :: "time \<Rightarrow> u64 list \<Rightarrow> oc_cluster \<Rightarrow> 'b OperatorController \<Rightarrow> OpInfluence" where
  "GetOpInfluence now order cl oc =
     NewUnfinishedOpInfluence now
       (filter (\<lambda>op. \<not> Operator_IsTimeout now op \<and> \<not> Operator_IsFinish op \<and> occ_GetRegion cl (op_regionID op) \<noteq> None)
         (map (oc_heap oc) (range_values order (oc_operators oc)))) cl"

text \<open>\<open>int64(rate * RegionInfluence)\<close> truncates, which for a positive rate is the floor.\<close>

definition newStoreLimit :: "'b ratelimit \<Rightarrow> time \<Rightarrow> 'b OperatorController \<Rightarrow> u64 \<Rightarrow> real \<Rightarrow> 'b OperatorController" where
  "newStoreLimit rl now oc storeID rate =
     (let capacity = (if rate > 1 then \<lfloor>rate * real_of_int (sint RegionInfluence)\<rfloor> else sint RegionInfluence)
      in oc\<lparr>oc_storesLimit := fmupd storeID (rl_NewBucketWithRate rl now (rate * real_of_int (sint RegionInfluence)) capacity)
              (oc_storesLimit oc)\<rparr>)"

definition getOrCreateStoreLimit ::
    "oc_cluster \<Rightarrow> 'b ratelimit \<Rightarrow> time \<Rightarrow> 'b OperatorController \<Rightarrow> u64 \<Rightarrow> 'b OperatorController \<times> 'b option" where
  "getOrCreateStoreLimit cl rl now oc storeID =
     (let oc = (if fmlookup (oc_storesLimit oc) storeID = None
                then (newStoreLimit rl now oc storeID (occ_GetStoreBalanceRate cl / StoreBalanceBaseTime))
                       \<lparr>oc_attached := oc_attached oc @ [storeID]\<rparr>
                else oc)
      in (oc, fmlookup (oc_storesLimit oc) storeID))"

fun exceed_loop ::
    "oc_cluster \<Rightarrow> 'b ratelimit \<Rightarrow> time \<Rightarrow> OpInfluence \<Rightarrow> u64 list \<Rightarrow> 'b OperatorController
      \<Rightarrow> ('b OperatorController \<times> bool) option" where
  "exceed_loop cl rl now m [] oc = Some (oc, False)"
| "exceed_loop cl rl now m (storeID # ids) oc =
     (let stepCost = inf_StepCost (GetStoreInfluence m storeID)
      in if stepCost = 0 then exceed_loop cl rl now m ids oc
         else case getOrCreateStoreLimit cl rl now oc storeID of
                (oc, None) \<Rightarrow> None
              | (oc, Some limit) \<Rightarrow>
                  if rl_Available rl now limit < sint stepCost then Some (oc, True)
                  else exceed_loop cl rl now m ids oc)"

definition exceedStoreLimit ::
    "oc_cluster \<Rightarrow> 'b ratelimit \<Rightarrow> (OpInfluence \<Rightarrow> u64 list) \<Rightarrow> time \<Rightarrow> 'b OperatorController \<Rightarrow> op_ref list
      \<Rightarrow> ('b OperatorController \<times> bool) option" where
  "exceedStoreLimit cl rl ord now oc ops =
     (let m = NewTotalOpInfluence (map (oc_heap oc) ops) cl
      in exceed_loop cl rl now m (ord m) oc)"

definition SetAllStoresLimit :: "'b ratelimit \<Rightarrow> time \<Rightarrow> u64 list \<Rightarrow> 'b OperatorController \<Rightarrow> real \<Rightarrow> 'b OperatorController" where
  "SetAllStoresLimit rl now order oc rate =
     fold (\<lambda>storeID oc. newStoreLimit rl now oc storeID rate) (filter (fmhas (oc_storesLimit oc)) order) oc"

definition SetStoreLimit :: "'b ratelimit \<Rightarrow> time \<Rightarrow> 'b OperatorController \<Rightarrow> u64 \<Rightarrow> real \<Rightarrow> 'b OperatorController" where
  "SetStoreLimit rl now oc storeID rate = newStoreLimit rl now oc storeID rate"

text \<open>A limit of a store the cluster does not know makes \<open>GetAllStoresLimit\<close> panic.\<close>

fun GetAllStoresLimit_loop ::
    "oc_cluster \<Rightarrow> 'b ratelimit \<Rightarrow> (u64 \<times> 'b) list \<Rightarrow> (u64, real) fmap \<Rightarrow> (u64, real) fmap option" where
  "GetAllStoresLimit_loop cl rl [] ret = Some ret"
| "GetAllStoresLimit_loop cl rl ((storeID, limit) # ls) ret =
     (case occ_IsTombstone cl storeID of
        None \<Rightarrow> None
      | Some tombstone \<Rightarrow> GetAllStoresLimit_loop cl rl ls
          (if tombstone then ret else fmupd storeID (rl_Rate rl limit / real_of_int (sint RegionInfluence)) ret))"

definition GetAllStoresLimit ::
    "oc_cluster \<Rightarrow> 'b ratelimit \<Rightarrow> u64 list \<Rightarrow> 'b OperatorController \<Rightarrow> (u64, real) fmap option" where
  "GetAllStoresLimit cl rl order oc =
     GetAllStoresLimit_loop cl rl
       (map (\<lambda>i. (i, the (fmlookup (oc_storesLimit oc) i))) (filter (fmhas (oc_storesLimit oc)) order)) fmempty"

subsection \<open>Adding and removing operators\<close>

abbreviation upd_op :: "op_ref \<Rightarrow> Operator \<Rightarrow> 'b OperatorController \<Rightarrow> 'b OperatorController" where
  "upd_op op x oc \<equiv> oc\<lparr>oc_heap := (oc_heap oc)(op := x)\<rparr>"

definition isHigherPriorityOperator :: "Operator \<Rightarrow> Operator \<Rightarrow> bool" where
  "isHigherPriorityOperator new old \<longleftrightarrow> op_level new > op_level old"

definition may_add :: "oc_cluster \<Rightarrow> 'b OperatorController \<Rightarrow> op_ref \<Rightarrow> bool" where
  "may_add cl oc op =
     (let x = oc_heap oc op
      in case occ_GetRegion cl (op_regionID x) of
           None \<Rightarrow> False
         | Some region \<Rightarrow>
             if Epoch_GetVersion (RegionInfo_GetRegionEpoch region) \<noteq> Epoch_GetVersion (op_regionEpoch x) \<or>
                Epoch_GetConfVer (RegionInfo_GetRegionEpoch region) \<noteq> Epoch_GetConfVer (op_regionEpoch x) then False
             else case fmlookup (oc_operators oc) (op_regionID x) of
                    Some old \<Rightarrow> isHigherPriorityOperator x (oc_heap oc old)
                  | None \<Rightarrow> True)"

fun checkAddOperator :: "oc_cluster \<Rightarrow> 'b OperatorController \<Rightarrow> op_ref list \<Rightarrow> bool" where
  "checkAddOperator cl oc [] = True"
| "checkAddOperator cl oc (op # ops) = (if \<not> may_add cl oc op then False else checkAddOperator cl oc ops)"

definition removeOperatorLocked :: "'b OperatorController \<Rightarrow> op_ref \<Rightarrow> 'b OperatorController" where
  "removeOperatorLocked oc op =
     updateCounts (oc\<lparr>oc_operators := fmdrop (op_regionID (oc_heap oc op)) (oc_operators oc)\<rparr>)"

definition RemoveOperator :: "'b OperatorController \<Rightarrow> op_ref \<Rightarrow> 'b OperatorController" where
  "RemoveOperator oc op = removeOperatorLocked oc op"

definition RemoveTimeoutOperator :: "'b OperatorController \<Rightarrow> op_ref \<Rightarrow> 'b OperatorController" where
  "RemoveTimeoutOperator oc op = removeOperatorLocked oc op"

definition getNextPushOperatorTime :: "OperatorStep option \<Rightarrow> time \<Rightarrow> time" where
  "getNextPushOperatorTime step now =
     now + (case step of
              Some (TransferLeader _ _) \<Rightarrow> fastNotifyInterval
            | Some (PromoteLearner _ _) \<Rightarrow> fastNotifyInterval
            | _ \<Rightarrow> slowNotifyInterval)"

text \<open>Taking from the limit of a store that has none panics.\<close>

fun take_limits ::
    "'b ratelimit \<Rightarrow> time \<Rightarrow> OpInfluence \<Rightarrow> u64 list \<Rightarrow> 'b OperatorController \<Rightarrow> 'b OperatorController option" where
  "take_limits rl now m [] oc = Some oc"
| "take_limits rl now m (storeID # ids) oc =
     (let stepCost = inf_StepCost (GetStoreInfluence m storeID)
      in if stepCost = 0 then take_limits rl now m ids oc
         else case fmlookup (oc_storesLimit oc) storeID of
                None \<Rightarrow> None
              | Some limit \<Rightarrow> take_limits rl now m ids
                  (oc\<lparr>oc_storesLimit := fmupd storeID (rl_Take rl now limit (sint stepCost)) (oc_storesLimit oc)\<rparr>))"

definition addOperatorLocked ::
    "oc_cluster \<Rightarrow> 'b ratelimit \<Rightarrow> (OpInfluence \<Rightarrow> u64 list) \<Rightarrow> time \<Rightarrow> 'b OperatorController \<Rightarrow> op_ref
      \<Rightarrow> 'b OperatorController option" where
  "addOperatorLocked cl rl ord now oc op =
     (let regionID = op_regionID (oc_heap oc op);
          oc = (case fmlookup (oc_operators oc) regionID of
                  Some old \<Rightarrow> removeOperatorLocked (put_record now REPLACE old oc) old
                | None \<Rightarrow> oc);
          oc = oc\<lparr>oc_operators := fmupd regionID op (oc_operators oc)\<rparr>;
          oc = upd_op op ((oc_heap oc op)\<lparr>op_startTime := now\<rparr>) oc;
          m = NewTotalOpInfluence [oc_heap oc op] cl
      in case take_limits rl now m (ord m) oc of
           None \<Rightarrow> None
         | Some oc \<Rightarrow>
             (let oc = updateCounts oc;
                  (oc, step) =
                    (case occ_GetRegion cl regionID of
                       None \<Rightarrow> (oc, None)
                     | Some region \<Rightarrow>
                         (case Operator_Check now (oc_heap oc op) region of
                            (x, None) \<Rightarrow> (upd_op op x oc, None)
                          | (x, Some step) \<Rightarrow> (SendScheduleCommand (upd_op op x oc) region step, Some step)))
              in Some (oc\<lparr>oc_opNotifierQueue := heap_Push (oc_opNotifierQueue oc)
                         \<lparr>qi_op = op, qi_time = getNextPushOperatorTime step now\<rparr>\<rparr>)))"

fun addOperators ::
    "oc_cluster \<Rightarrow> 'b ratelimit \<Rightarrow> (OpInfluence \<Rightarrow> u64 list) \<Rightarrow> time \<Rightarrow> op_ref list \<Rightarrow> 'b OperatorController
      \<Rightarrow> 'b OperatorController option" where
  "addOperators cl rl ord now [] oc = Some oc"
| "addOperators cl rl ord now (op # ops) oc =
     (case addOperatorLocked cl rl ord now oc op of
        None \<Rightarrow> None
      | Some oc \<Rightarrow> addOperators cl rl ord now ops oc)"

definition AddOperator ::
    "oc_cluster \<Rightarrow> 'b ratelimit \<Rightarrow> (OpInfluence \<Rightarrow> u64 list) \<Rightarrow> time \<Rightarrow> 'b OperatorController \<Rightarrow> op_ref list
      \<Rightarrow> ('b OperatorController \<times> bool) option" where
  "AddOperator cl rl ord now oc ops =
     (case exceedStoreLimit cl rl ord now oc ops of
        None \<Rightarrow> None
      | Some (oc, exceed) \<Rightarrow>
          if exceed \<or> \<not> checkAddOperator cl oc ops then Some (fold (put_record now CANCEL) ops oc, False)
          else map_option (\<lambda>oc. (oc, True)) (addOperators cl rl ord now ops oc))"

subsection \<open>Waiting operators\<close>

abbreviation upd_status :: "string \<Rightarrow> (u64 \<Rightarrow> u64) \<Rightarrow> 'b OperatorController \<Rightarrow> 'b OperatorController" where
  "upd_status desc f oc \<equiv> oc\<lparr>oc_wopStatus :=
     fmupd desc (f (case fmlookup (oc_wopStatus oc) desc of None \<Rightarrow> 0 | Some n \<Rightarrow> n)) (oc_wopStatus oc)\<rparr>"

lemma newStoreLimit_fields [simp]:
  "oc_wop (newStoreLimit rl now oc i rate) = oc_wop oc" "oc_heap (newStoreLimit rl now oc i rate) = oc_heap oc"
  "oc_operators (newStoreLimit rl now oc i rate) = oc_operators oc"
  "oc_counts (newStoreLimit rl now oc i rate) = oc_counts oc"
  "oc_wopStatus (newStoreLimit rl now oc i rate) = oc_wopStatus oc"
  "oc_opNotifierQueue (newStoreLimit rl now oc i rate) = oc_opNotifierQueue oc"
  "oc_opRecords (newStoreLimit rl now oc i rate) = oc_opRecords oc"
  by (simp_all add: newStoreLimit_def Let_def)

definition limits_only :: "'b OperatorController \<Rightarrow> 'b OperatorController \<Rightarrow> bool" where
  "limits_only oc oc' \<longleftrightarrow> oc_wop oc' = oc_wop oc \<and> oc_heap oc' = oc_heap oc \<and> oc_operators oc' = oc_operators oc \<and>
     oc_counts oc' = oc_counts oc \<and> oc_wopStatus oc' = oc_wopStatus oc \<and>
     oc_opNotifierQueue oc' = oc_opNotifierQueue oc \<and> oc_opRecords oc' = oc_opRecords oc"

lemma exceed_loop_limits: "exceed_loop cl rl now m ids oc = Some (oc', e) \<Longrightarrow> limits_only oc oc'"
proof (induction ids arbitrary: oc)
  case (Cons i ids)
  obtain oc1 l where g: "getOrCreateStoreLimit cl rl now oc i = (oc1, l)" by (cases "getOrCreateStoreLimit cl rl now oc i")
  then have l1: "limits_only oc oc1" by (auto simp: getOrCreateStoreLimit_def limits_only_def Let_def split: if_splits)
  show ?case
  proof (cases "inf_StepCost (GetStoreInfluence m i) = 0")
    case True
    then show ?thesis using Cons by (simp add: Let_def)
  next
    case False
    then show ?thesis using Cons.prems Cons.IH [of oc1] g l1
      by (auto simp: Let_def limits_only_def split: option.splits if_splits)
  qed
qed (simp add: limits_only_def)

lemma exceedStoreLimit_limits: "exceedStoreLimit cl rl ord now oc ops = Some (oc', e) \<Longrightarrow> limits_only oc oc'"
  by (auto simp: exceedStoreLimit_def Let_def intro: exceed_loop_limits)

lemma put_record_fields [simp]:
  "oc_wop (put_record now st op oc) = oc_wop oc" "oc_heap (put_record now st op oc) = oc_heap oc"
  "oc_operators (put_record now st op oc) = oc_operators oc" "oc_counts (put_record now st op oc) = oc_counts oc"
  "oc_wopStatus (put_record now st op oc) = oc_wopStatus oc"
  "oc_opNotifierQueue (put_record now st op oc) = oc_opNotifierQueue oc"
  "oc_storesLimit (put_record now st op oc) = oc_storesLimit oc"
  by (simp_all add: put_record_def)

lemma put_records_fields [simp]:
  "oc_wop (fold (put_record now st) ops oc) = oc_wop oc" "oc_heap (fold (put_record now st) ops oc) = oc_heap oc"
  "oc_operators (fold (put_record now st) ops oc) = oc_operators oc"
  "oc_counts (fold (put_record now st) ops oc) = oc_counts oc"
  "oc_wopStatus (fold (put_record now st) ops oc) = oc_wopStatus oc"
  "oc_opNotifierQueue (fold (put_record now st) ops oc) = oc_opNotifierQueue oc"
  "oc_storesLimit (fold (put_record now st) ops oc) = oc_storesLimit oc"
  by (induction ops arbitrary: oc) simp_all

function Promote_loop ::
    "oc_cluster \<Rightarrow> 'b ratelimit \<Rightarrow> (OpInfluence \<Rightarrow> u64 list) \<Rightarrow> time \<Rightarrow> (nat \<Rightarrow> real) \<Rightarrow> 'b OperatorController
      \<Rightarrow> 'b OperatorController option" where
  "Promote_loop cl rl ord now draws oc =
     (case RandBuckets_GetOperator (oc_heap oc) (draws 0) (oc_wop oc) of
        None \<Rightarrow> None
      | Some (b, None) \<Rightarrow> Some (oc\<lparr>oc_wop := b\<rparr>)
      | Some (b, Some ops) \<Rightarrow>
          (case exceedStoreLimit cl rl ord now (oc\<lparr>oc_wop := b\<rparr>) ops of
             None \<Rightarrow> None
           | Some (oc, exceed) \<Rightarrow>
               (let desc = op_desc (oc_heap oc (ops ! 0))
                in if exceed \<or> \<not> checkAddOperator cl oc ops
                   then Promote_loop cl rl ord now (\<lambda>n. draws (Suc n))
                          (upd_status desc (\<lambda>n. n - 1) (fold (put_record now CANCEL) ops oc))
                   else addOperators cl rl ord now ops (upd_status desc (\<lambda>n. n - 1) oc))))"
  by pat_completeness auto
termination
  by (relation "measure (\<lambda>(cl, rl, ord, now, draws, oc). length (RandBuckets_ListOperator (oc_wop oc)))")
    (auto dest!: exceedStoreLimit_limits GetOperator_shorter simp: limits_only_def)

declare Promote_loop.simps [simp del]

definition PromoteWaitingOperator ::
    "oc_cluster \<Rightarrow> 'b ratelimit \<Rightarrow> (OpInfluence \<Rightarrow> u64 list) \<Rightarrow> time \<Rightarrow> (nat \<Rightarrow> real) \<Rightarrow> 'b OperatorController
      \<Rightarrow> 'b OperatorController option" where
  "PromoteWaitingOperator cl rl ord now draws oc = Promote_loop cl rl ord now draws oc"

text \<open>Only the first two operators of a call are put into the buckets; a call without any panics.\<close>

definition AddWaitingOperator ::
    "oc_cluster \<Rightarrow> 'b ratelimit \<Rightarrow> (OpInfluence \<Rightarrow> u64 list) \<Rightarrow> time \<Rightarrow> (nat \<Rightarrow> real) \<Rightarrow> 'b OperatorController \<Rightarrow> op_ref list
      \<Rightarrow> ('b OperatorController \<times> bool) option" where
  "AddWaitingOperator cl rl ord now draws oc ops =
     (if \<not> checkAddOperator cl oc ops then Some (fold (put_record now CANCEL) ops oc, False)
      else case ops of
             [] \<Rightarrow> None
           | op # rest \<Rightarrow>
               (let desc = op_desc (oc_heap oc op)
                in if (case fmlookup (oc_wopStatus oc) desc of None \<Rightarrow> 0 | Some n \<Rightarrow> n)
                      \<ge> occ_GetSchedulerMaxWaitingOperator cl then Some (oc, False)
                   else case PutOperators (oc_heap oc) (oc_wop oc) (op # take 1 rest) of
                          None \<Rightarrow> None
                        | Some b \<Rightarrow> map_option (\<lambda>oc. (oc, True))
                            (PromoteWaitingOperator cl rl ord now draws (upd_status desc (\<lambda>n. n + 1) (oc\<lparr>oc_wop := b\<rparr>)))))"

subsection \<open>Dispatch and push\<close>

definition GetOperator :: "'b OperatorController \<Rightarrow> u64 \<Rightarrow> op_ref option" where
  "GetOperator oc regionID = fmlookup (oc_operators oc) regionID"

definition GetOperators :: "u64 list \<Rightarrow> 'b OperatorController \<Rightarrow> op_ref list" where
  "GetOperators order oc = range_values order (oc_operators oc)"

definition GetWaitingOperators :: "'b OperatorController \<Rightarrow> op_ref list" where
  "GetWaitingOperators oc = RandBuckets_ListOperator (oc_wop oc)"

definition GetOperatorStatus :: "time \<Rightarrow> 'b OperatorController \<Rightarrow> u64 \<Rightarrow> OperatorWithStatus option" where
  "GetOperatorStatus now oc i =
     (case fmlookup (oc_operators oc) i of
        Some op \<Rightarrow> Some \<lparr>ows_Op = op, ows_Status = RUNNING\<rparr>
      | None \<Rightarrow> OperatorRecords_Get now (oc_opRecords oc) i)"

definition SetOperator :: "'b OperatorController \<Rightarrow> op_ref \<Rightarrow> 'b OperatorController" where
  "SetOperator oc op = oc\<lparr>oc_operators := fmupd (op_regionID (oc_heap oc op)) op (oc_operators oc)\<rparr>"

definition Dispatch ::
    "oc_cluster \<Rightarrow> 'b ratelimit \<Rightarrow> (OpInfluence \<Rightarrow> u64 list) \<Rightarrow> time \<Rightarrow> (nat \<Rightarrow> real) \<Rightarrow> 'b OperatorController \<Rightarrow> RegionInfo
      \<Rightarrow> 'b OperatorController option" where
  "Dispatch cl rl ord now draws oc region =
     (case GetOperator oc (RegionInfo_GetID region) of
        None \<Rightarrow> Some oc
      | Some op \<Rightarrow>
          (let timeout = Operator_IsTimeout now (oc_heap oc op);
               (x, step) = Operator_Check now (oc_heap oc op) region;
               oc = upd_op op x oc
           in case (if timeout then None else step) of
                Some st \<Rightarrow> Some (SendScheduleCommand oc region st)
              | None \<Rightarrow>
                  if Operator_IsFinish x
                  then PromoteWaitingOperator cl rl ord now draws
                         (RemoveOperator (put_record now SUCCESS op (pushHistory now oc op)) op)
                  else if timeout
                       then PromoteWaitingOperator cl rl ord now draws
                              (put_record now TIMEOUT op (RemoveTimeoutOperator oc op))
                       else Some oc))"

text \<open>The first component of the result is the new state, then the region to dispatch and \<open>next\<close>.\<close>

definition pollNeedDispatchRegion ::
    "oc_cluster \<Rightarrow> time \<Rightarrow> 'b OperatorController \<Rightarrow> 'b OperatorController \<times> RegionInfo option \<times> bool" where
  "pollNeedDispatchRegion cl now oc =
     (case (if operatorQueue_Len (oc_opNotifierQueue oc) = 0 then (oc_opNotifierQueue oc, None)
            else heap_Pop (oc_opNotifierQueue oc)) of
        (_, None) \<Rightarrow> (oc, None, False)
      | (q, Some item) \<Rightarrow>
          (let regionID = op_regionID (oc_heap oc (qi_op item)); oc = oc\<lparr>oc_opNotifierQueue := q\<rparr>
           in case fmlookup (oc_operators oc) regionID of
                None \<Rightarrow> (oc, None, True)
              | Some op \<Rightarrow>
                  (case occ_GetRegion cl regionID of
                     None \<Rightarrow> (oc, None, True)
                   | Some r \<Rightarrow>
                       (case Operator_Check now (oc_heap oc op) r of
                          (x, None) \<Rightarrow> (upd_op op x oc, None, True)
                        | (x, Some step) \<Rightarrow>
                            (let oc = upd_op op x oc
                             in if now < qi_time item
                                then (oc\<lparr>oc_opNotifierQueue := heap_Push q item\<rparr>, None, False)
                                else (oc\<lparr>oc_opNotifierQueue :=
                                          heap_Push q (item\<lparr>qi_time := getNextPushOperatorTime (Some step) now\<rparr>)\<rparr>, Some r, True))))))"

partial_function (option) PushOperators ::
    "oc_cluster \<Rightarrow> 'b ratelimit \<Rightarrow> (OpInfluence \<Rightarrow> u64 list) \<Rightarrow> time \<Rightarrow> (nat \<Rightarrow> nat \<Rightarrow> real) \<Rightarrow> 'b OperatorController
      \<Rightarrow> 'b OperatorController option" where
  "PushOperators cl rl ord now draws oc =
     (case pollNeedDispatchRegion cl now oc of
        (oc, r, next') \<Rightarrow>
          if \<not> next' then Some oc
          else case r of
                 None \<Rightarrow> PushOperators cl rl ord now (\<lambda>n. draws (Suc n)) oc
               | Some r \<Rightarrow>
                   (case Dispatch cl rl ord now (draws 0) oc r of
                      None \<Rightarrow> None
                    | Some oc \<Rightarrow> PushOperators cl rl ord now (\<lambda>n. draws (Suc n)) oc))"

end
