(* ===== verification/OperatorControl.thy ===== *)
theory OperatorControl
  imports OperatorController
begin

text \<open>
  Invariants of the operator controller: the counts by kind are those of the running operators, every
  operator is filed under its region, the notifier queue is a heap, and the buckets and the counters
  of the waiting operators agree. Every method keeps them.
\<close>

subsection \<open>Operators whose progress alone changes\<close>

definition same_op :: "Operator \<Rightarrow> Operator \<Rightarrow> bool" where
  "same_op x y \<longleftrightarrow> op_kind x = op_kind y \<and> op_regionID x = op_regionID y \<and> op_level x = op_level y \<and>
     op_desc x = op_desc y \<and> op_steps x = op_steps y \<and> op_regionEpoch x = op_regionEpoch y"

definition same_ops :: "(op_ref \<Rightarrow> Operator) \<Rightarrow> (op_ref \<Rightarrow> Operator) \<Rightarrow> bool" where
  "same_ops h h' \<longleftrightarrow> (\<forall>r. same_op (h r) (h' r))"

lemma same_op_refl [simp]: "same_op x x"
  by (simp add: same_op_def)

lemma same_ops_refl [simp]: "same_ops h h"
  by (simp add: same_ops_def)

lemma same_ops_trans: "same_ops h h1 \<Longrightarrow> same_ops h1 h2 \<Longrightarrow> same_ops h h2"
  by (simp add: same_ops_def same_op_def)

lemma same_ops_upd [intro]: "same_ops h h1 \<Longrightarrow> same_op (h1 r) x \<Longrightarrow> same_ops h (h1(r := x))"
  by (simp add: same_ops_def same_op_def)

lemma Check_same: "Operator_Check now x region = (y, st) \<Longrightarrow> same_op x y"
  by (auto simp: Operator_Check_def Check_loop_eq Let_def same_op_def split: if_splits)

lemma op_groups_same: "same_ops h h' \<Longrightarrow> op_groups h' ops = op_groups h ops"
  by (induction h' ops rule: op_groups.induct) (auto simp: same_ops_def same_op_def split: list.splits)

lemma buckets_ok_same: "same_ops h h' \<Longrightarrow> buckets_ok h b \<Longrightarrow> buckets_ok h' b"
  by (simp add: buckets_ok_def op_groups_same)

subsection \<open>Counting\<close>

lemma updateCounts_loop_lookup:
  "fmlookup (updateCounts_loop ks c) k =
     (if k \<in> set ks then Some ((case fmlookup c k of None \<Rightarrow> 0 | Some n \<Rightarrow> n) + of_nat (count_list ks k))
      else fmlookup c k)"
proof (induction ks arbitrary: c)
  case (Cons a ks)
  have "k \<notin> set ks \<Longrightarrow> count_list ks k = 0" by (simp add: count_list_0_iff)
  with Cons show ?case by auto
qed simp

lemma count_filter:
  assumes "distinct order" "set order = set ks"
  shows "(\<Sum>k \<leftarrow> filter P order. of_nat (count_list ks k)) = (of_nat (length (filter P ks)) :: u64)"
proof -
  have "(\<Sum>k \<leftarrow> filter P order. of_nat (count_list ks k)) = (of_nat (\<Sum>k \<in> set (filter P order). count_list ks k) :: u64)"
    using assms(1) by (simp add: sum_list_distinct_conv_sum_set)
  also have "(\<Sum>k \<in> set (filter P order). count_list ks k) = (\<Sum>k \<in> set (filter P ks). count_list (filter P ks) k)"
  proof (rule sum.cong)
    show "set (filter P order) = set (filter P ks)" using assms(2) by simp
    fix k assume "k \<in> set (filter P ks)"
    then have "P k" by simp
    then show "count_list ks k = count_list (filter P ks) k" by (induction ks) auto
  qed
  also have "\<dots> = length (filter P ks)" by (rule sum_count_set) auto
  finally show ?thesis .
qed

definition counts_ok :: "'b OperatorController \<Rightarrow> bool" where
  "counts_ok oc \<longleftrightarrow> oc_counts oc = updateCounts_loop (running_kinds oc) fmempty"

lemma OperatorCount_kinds:
  assumes "counts_ok oc" "map_order order (oc_counts oc)"
  shows "OperatorCount order oc msk = of_nat (length (filter (\<lambda>k. k AND msk \<noteq> 0) (running_kinds oc)))"
proof -
  let ?ks = "running_kinds oc"
  have look: "fmlookup (oc_counts oc) k = (if k \<in> set ?ks then Some (of_nat (count_list ?ks k)) else None)" for k
    using assms(1) by (simp add: counts_ok_def updateCounts_loop_lookup)
  have ord: "distinct order" "set order = set ?ks"
    using assms(2) look by (auto simp: map_order_iff split: if_splits)
  have "filter (\<lambda>k. fmhas (oc_counts oc) k \<and> k AND msk \<noteq> 0) order = filter (\<lambda>k. k AND msk \<noteq> 0) order"
    using ord(2) by (intro filter_cong) (simp_all add: fmhas_def look)
  moreover have "map (\<lambda>k. the (fmlookup (oc_counts oc) k)) (filter (\<lambda>k. k AND msk \<noteq> 0) order) =
      map (\<lambda>k. of_nat (count_list ?ks k)) (filter (\<lambda>k. k AND msk \<noteq> 0) order)"
    using ord(2) by (simp add: look)
  ultimately have "OperatorCount order oc msk = (\<Sum>k \<leftarrow> filter (\<lambda>k. k AND msk \<noteq> 0) order. of_nat (count_list ?ks k))"
    unfolding OperatorCount_def by (simp only:)
  then show ?thesis unfolding count_filter [OF ord] .
qed

lemma running_kinds_filter:
  "length (filter P (running_kinds oc)) =
     card {i. \<exists>op. fmlookup (oc_operators oc) i = Some op \<and> P (op_kind (oc_heap oc op))}"
proof -
  let ?ids = "sorted_list_of_set (fset (fmdom (oc_operators oc)))"
  let ?Q = "\<lambda>i. P (op_kind (oc_heap oc (the (fmlookup (oc_operators oc) i))))"
  have "length (filter P (running_kinds oc)) = length (filter ?Q ?ids)"
    by (simp add: running_kinds_def filter_map comp_def)
  also have "\<dots> = card (set (filter ?Q ?ids))"
    by (rule distinct_card [symmetric]) simp
  also have "set (filter ?Q ?ids) = {i. \<exists>op. fmlookup (oc_operators oc) i = Some op \<and> P (op_kind (oc_heap oc op))}"
    by (auto simp: fmlookup_dom_iff)
  finally show ?thesis .
qed

subsection \<open>The invariant\<close>

definition waiting_groups :: "'b OperatorController \<Rightarrow> op_ref list list" where
  "waiting_groups oc = concat (map (\<lambda>b. the (op_groups (oc_heap oc) (bk_ops b))) (rb_buckets (oc_wop oc)))"

definition waiting_count :: "'b OperatorController \<Rightarrow> string \<Rightarrow> nat" where
  "waiting_count oc d = length (filter (\<lambda>g. op_desc (oc_heap oc (g ! 0)) = d) (waiting_groups oc))"

definition status_of :: "'b OperatorController \<Rightarrow> string \<Rightarrow> u64" where
  "status_of oc d = (case fmlookup (oc_wopStatus oc) d of None \<Rightarrow> 0 | Some n \<Rightarrow> n)"

abbreviation keep_time :: "'b OperatorController \<Rightarrow> duration" where
  "keep_time oc \<equiv> ttl_ttl (oc_opRecords oc)"

definition oc_inv :: "'b OperatorController \<Rightarrow> bool" where
  "oc_inv oc \<longleftrightarrow> counts_ok oc \<and>
     (\<forall>i op. fmlookup (oc_operators oc) i = Some op \<longrightarrow> op_regionID (oc_heap oc op) = i) \<and>
     queue_ok (oc_opNotifierQueue oc) \<and> buckets_ok (oc_heap oc) (oc_wop oc) \<and>
     keep_time oc = operatorStatusRemainTime \<and> (\<forall>d. status_of oc d = of_nat (waiting_count oc d))"

lemma running_kinds_same:
  "same_ops (oc_heap oc) (oc_heap oc') \<Longrightarrow> oc_operators oc' = oc_operators oc \<Longrightarrow> running_kinds oc' = running_kinds oc"
  by (simp add: running_kinds_def same_ops_def same_op_def)

lemma waiting_count_same:
  "same_ops (oc_heap oc) (oc_heap oc') \<Longrightarrow> oc_wop oc' = oc_wop oc \<Longrightarrow> waiting_count oc' d = waiting_count oc d"
  by (simp add: waiting_count_def waiting_groups_def op_groups_same) (simp add: same_ops_def same_op_def)

lemma oc_inv_cong:
  assumes "oc_inv oc" "same_ops (oc_heap oc) (oc_heap oc')" "oc_operators oc' = oc_operators oc"
    "oc_counts oc' = oc_counts oc" "oc_wop oc' = oc_wop oc" "oc_wopStatus oc' = oc_wopStatus oc"
    "keep_time oc' = keep_time oc" "queue_ok (oc_opNotifierQueue oc')"
  shows "oc_inv oc'"
  using assms running_kinds_same [OF assms(2,3)] waiting_count_same [OF assms(2,5)] buckets_ok_same [OF assms(2)]
  by (auto simp: oc_inv_def counts_ok_def status_of_def same_ops_def same_op_def)

lemma oc_inv_New: "oc_inv (NewOperatorController h :: 'b OperatorController)"
proof -
  let ?oc = "NewOperatorController h :: 'b OperatorController"
  have "waiting_count ?oc d = 0" for d
    by (simp add: waiting_count_def waiting_groups_def NewOperatorController_def NewRandBuckets_def PriorityWeight_def)
  moreover have "status_of ?oc d = 0" for d
    by (simp add: NewOperatorController_def status_of_def NewWaitingOperatorStatus_def)
  ultimately have "\<forall>d. status_of ?oc d = of_nat (waiting_count ?oc d)" by simp
  then show ?thesis unfolding oc_inv_def
    by (simp add: NewOperatorController_def counts_ok_def running_kinds_def NewRandBuckets_ok
        NewOperatorRecords_def NewTTL_def)
qed

subsection \<open>Removing and adding\<close>

lemma updateCounts_fields [simp]:
  "oc_wop (updateCounts oc) = oc_wop oc" "oc_heap (updateCounts oc) = oc_heap oc"
  "oc_operators (updateCounts oc) = oc_operators oc" "oc_wopStatus (updateCounts oc) = oc_wopStatus oc"
  "oc_opNotifierQueue (updateCounts oc) = oc_opNotifierQueue oc" "oc_storesLimit (updateCounts oc) = oc_storesLimit oc"
  "oc_opRecords (updateCounts oc) = oc_opRecords oc" "counts_ok (updateCounts oc)"
  by (simp_all add: updateCounts_def counts_ok_def running_kinds_def)

lemma removeOperatorLocked_fields [simp]:
  "oc_wop (removeOperatorLocked oc op) = oc_wop oc" "oc_heap (removeOperatorLocked oc op) = oc_heap oc"
  "oc_operators (removeOperatorLocked oc op) = fmdrop (op_regionID (oc_heap oc op)) (oc_operators oc)"
  "oc_wopStatus (removeOperatorLocked oc op) = oc_wopStatus oc"
  "oc_opNotifierQueue (removeOperatorLocked oc op) = oc_opNotifierQueue oc"
  "oc_storesLimit (removeOperatorLocked oc op) = oc_storesLimit oc"
  "oc_opRecords (removeOperatorLocked oc op) = oc_opRecords oc" "counts_ok (removeOperatorLocked oc op)"
  by (simp_all add: removeOperatorLocked_def)

lemma SendScheduleCommand_fields [simp]:
  "oc_wop (SendScheduleCommand oc r st) = oc_wop oc" "oc_heap (SendScheduleCommand oc r st) = oc_heap oc"
  "oc_operators (SendScheduleCommand oc r st) = oc_operators oc" "oc_counts (SendScheduleCommand oc r st) = oc_counts oc"
  "oc_wopStatus (SendScheduleCommand oc r st) = oc_wopStatus oc"
  "oc_opNotifierQueue (SendScheduleCommand oc r st) = oc_opNotifierQueue oc"
  "oc_storesLimit (SendScheduleCommand oc r st) = oc_storesLimit oc"
  "oc_opRecords (SendScheduleCommand oc r st) = oc_opRecords oc"
  by (simp_all add: SendScheduleCommand_def split: option.splits)

lemma pushHistory_fields [simp]:
  "oc_wop (pushHistory now oc op) = oc_wop oc" "oc_heap (pushHistory now oc op) = oc_heap oc"
  "oc_operators (pushHistory now oc op) = oc_operators oc" "oc_counts (pushHistory now oc op) = oc_counts oc"
  "oc_wopStatus (pushHistory now oc op) = oc_wopStatus oc"
  "oc_opNotifierQueue (pushHistory now oc op) = oc_opNotifierQueue oc"
  "oc_storesLimit (pushHistory now oc op) = oc_storesLimit oc"
  "oc_opRecords (pushHistory now oc op) = oc_opRecords oc"
  by (simp_all add: pushHistory_def)

lemma keep_time_put [simp]: "keep_time (put_record now st op oc) = keep_time oc"
  by (simp add: put_record_def OperatorRecords_Put_def TTL_Put_def TTL_PutWithTTL_def)

lemma keep_time_puts [simp]: "keep_time (fold (put_record now st) ops oc) = keep_time oc"
  by (induction ops arbitrary: oc) simp_all

text \<open>What is left of the invariant apart from the running operators.\<close>

definition waiting_inv :: "'b OperatorController \<Rightarrow> bool" where
  "waiting_inv oc \<longleftrightarrow> queue_ok (oc_opNotifierQueue oc) \<and> buckets_ok (oc_heap oc) (oc_wop oc) \<and>
     keep_time oc = operatorStatusRemainTime \<and>
     (\<forall>d. status_of oc d = of_nat (waiting_count oc d))"

lemma oc_inv_iff: "oc_inv oc \<longleftrightarrow> counts_ok oc \<and>
    (\<forall>i op. fmlookup (oc_operators oc) i = Some op \<longrightarrow> op_regionID (oc_heap oc op) = i) \<and> waiting_inv oc"
  by (auto simp: oc_inv_def waiting_inv_def)

lemma waiting_inv_cong:
  assumes "waiting_inv oc" "same_ops (oc_heap oc) (oc_heap oc')" "oc_wop oc' = oc_wop oc"
    "oc_wopStatus oc' = oc_wopStatus oc" "keep_time oc' = keep_time oc" "queue_ok (oc_opNotifierQueue oc')"
  shows "waiting_inv oc'"
  using assms waiting_count_same [OF assms(2,3)] buckets_ok_same [OF assms(2)]
  by (simp add: waiting_inv_def status_of_def)

lemma removeOperatorLocked_inv: "oc_inv oc \<Longrightarrow> oc_inv (removeOperatorLocked oc op)"
  using waiting_inv_cong [of oc "removeOperatorLocked oc op"]
  by (auto simp: oc_inv_iff waiting_inv_def [of oc])

lemma take_limits_limits:
  "take_limits rl now m ids oc = Some oc' \<Longrightarrow>
     limits_only oc oc' \<and> fmdom (oc_storesLimit oc') = fmdom (oc_storesLimit oc)"
proof (induction ids arbitrary: oc)
  case (Cons i ids)
  then show ?case
    by (auto simp: Let_def limits_only_def fmlookup_dom_iff split: if_splits option.splits)
qed (simp add: limits_only_def)

lemma take_limits_ok:
  "(\<And>i. i \<in> set ids \<Longrightarrow> inf_StepCost (GetStoreInfluence m i) \<noteq> 0 \<Longrightarrow> i |\<in>| fmdom (oc_storesLimit oc)) \<Longrightarrow>
     \<exists>oc'. take_limits rl now m ids oc = Some oc'"
proof (induction ids arbitrary: oc)
  case (Cons i ids)
  show ?case
  proof (cases "inf_StepCost (GetStoreInfluence m i) = 0")
    case True
    then show ?thesis using Cons by (simp add: Let_def)
  next
    case False
    then have "i |\<in>| fmdom (oc_storesLimit oc)" using Cons.prems by simp
    then obtain l where "fmlookup (oc_storesLimit oc) i = Some l" by (auto simp: fmlookup_dom_iff)
    with False Cons show ?thesis by (simp add: Let_def)
  qed
qed simp

lemma getNextPush_later: "now < getNextPushOperatorTime step now"
  by (simp add: getNextPushOperatorTime_def fastNotifyInterval_def slowNotifyInterval_def Second_def Millisecond_def
      split: option.split OperatorStep.split)

lemma counts_ok_cong:
  "counts_ok oc \<Longrightarrow> same_ops (oc_heap oc) (oc_heap oc') \<Longrightarrow> oc_operators oc' = oc_operators oc \<Longrightarrow>
     oc_counts oc' = oc_counts oc \<Longrightarrow> counts_ok oc'"
  by (simp add: counts_ok_def running_kinds_same)

text \<open>What \<open>addOperatorLocked\<close> does, apart from the records and the commands.\<close>

definition started :: "time \<Rightarrow> op_ref \<Rightarrow> 'b OperatorController \<Rightarrow> 'b OperatorController \<Rightarrow> bool" where
  "started now op oc oc' \<longleftrightarrow> same_ops (oc_heap oc) (oc_heap oc') \<and>
     oc_operators oc' = fmupd (op_regionID (oc_heap oc op)) op (oc_operators oc) \<and> counts_ok oc' \<and>
     oc_wop oc' = oc_wop oc \<and> oc_wopStatus oc' = oc_wopStatus oc \<and> keep_time oc' = keep_time oc \<and>
     fmdom (oc_storesLimit oc') = fmdom (oc_storesLimit oc) \<and>
     (\<exists>t > now. oc_opNotifierQueue oc' = heap_Push (oc_opNotifierQueue oc) \<lparr>qi_op = op, qi_time = t\<rparr>)"

lemma first_check:
  assumes "(case occ_GetRegion cl i of
      None \<Rightarrow> (oc, None)
    | Some region \<Rightarrow>
        (case Operator_Check now (oc_heap oc op) region of
           (x, None) \<Rightarrow> (upd_op op x oc, None)
         | (x, Some step) \<Rightarrow> (SendScheduleCommand (upd_op op x oc) region step, Some step))) = (oc', st)"
  shows "same_ops (oc_heap oc) (oc_heap oc') \<and> oc_operators oc' = oc_operators oc \<and> oc_counts oc' = oc_counts oc \<and>
    oc_wop oc' = oc_wop oc \<and> oc_wopStatus oc' = oc_wopStatus oc \<and> oc_storesLimit oc' = oc_storesLimit oc \<and>
    oc_opNotifierQueue oc' = oc_opNotifierQueue oc \<and> oc_opRecords oc' = oc_opRecords oc"
  using assms by (auto split: option.splits prod.splits intro!: same_ops_upd dest: Check_same)

lemma addOperatorLocked_started:
  assumes "addOperatorLocked cl rl ord now oc op = Some oc'" "oc_inv oc"
  shows "started now op oc oc'"
proof -
  let ?i = "op_regionID (oc_heap oc op)"
  define oc1 where "oc1 = (case fmlookup (oc_operators oc) ?i of
      Some old \<Rightarrow> removeOperatorLocked (put_record now REPLACE old oc) old | None \<Rightarrow> oc)"
  define oc2 where "oc2 = oc1\<lparr>oc_operators := fmupd ?i op (oc_operators oc1)\<rparr>"
  define oc3 where "oc3 = upd_op op ((oc_heap oc2 op)\<lparr>op_startTime := now\<rparr>) oc2"
  define m where "m = NewTotalOpInfluence [oc_heap oc3 op] cl"
  obtain oc4 oc5 st where t: "take_limits rl now m (ord m) oc3 = Some oc4"
    and c: "(case occ_GetRegion cl ?i of
      None \<Rightarrow> (updateCounts oc4, None)
    | Some region \<Rightarrow>
        (case Operator_Check now (oc_heap (updateCounts oc4) op) region of
           (x, None) \<Rightarrow> (upd_op op x (updateCounts oc4), None)
         | (x, Some step) \<Rightarrow> (SendScheduleCommand (upd_op op x (updateCounts oc4)) region step, Some step))) = (oc5, st)"
    and oc': "oc' = oc5\<lparr>oc_opNotifierQueue := heap_Push (oc_opNotifierQueue oc5)
                         \<lparr>qi_op = op, qi_time = getNextPushOperatorTime st now\<rparr>\<rparr>"
    using assms(1) unfolding addOperatorLocked_def Let_def oc1_def [symmetric] oc2_def [symmetric] oc3_def [symmetric] m_def [symmetric]
    by (auto split: option.splits prod.splits)
  have same: "same_ops (oc_heap oc) (oc_heap oc3)"
    by (auto simp: oc3_def oc2_def oc1_def same_op_def split: option.split)
  have ops: "fmupd ?i op (oc_operators oc1) = fmupd ?i op (oc_operators oc)"
    using assms(2) by (intro fmap_ext) (auto simp: oc1_def oc_inv_def split: option.split)
  note l = take_limits_limits [OF t]
  note f = first_check [OF c]
  have "counts_ok oc5" using f by (intro counts_ok_cong [of "updateCounts oc4" oc5]) auto
  then have "counts_ok oc'" by (rule counts_ok_cong) (simp_all add: oc')
  moreover have "same_ops (oc_heap oc) (oc_heap oc')"
    using same_ops_trans [OF same] l f by (simp add: oc' limits_only_def)
  moreover have "oc_wop oc3 = oc_wop oc" "oc_wopStatus oc3 = oc_wopStatus oc" "oc_storesLimit oc3 = oc_storesLimit oc"
    "keep_time oc3 = keep_time oc" "oc_opNotifierQueue oc3 = oc_opNotifierQueue oc" "oc_operators oc3 = fmupd ?i op (oc_operators oc)"
    using ops by (simp_all add: oc3_def oc2_def oc1_def split: option.split)
  ultimately show ?thesis
    unfolding started_def using l f getNextPush_later [of now st] by (auto simp: oc' limits_only_def)
qed

lemma started_inv:
  assumes "started now op oc oc'" "oc_inv oc"
  shows "oc_inv oc'"
proof -
  note st = assms(1) [unfolded started_def] and iv = assms(2) [unfolded oc_inv_iff]
  have id: "op_regionID (oc_heap oc' x) = op_regionID (oc_heap oc x)" for x
    using st by (simp add: same_ops_def same_op_def)
  have filed: "\<forall>i op. fmlookup (oc_operators oc') i = Some op \<longrightarrow> op_regionID (oc_heap oc' op) = i"
    using st iv unfolding id by auto
  obtain x where "oc_opNotifierQueue oc' = heap_Push (oc_opNotifierQueue oc) x" using st by blast
  then have "queue_ok (oc_opNotifierQueue oc')" using iv heap_Push_ok by (simp add: waiting_inv_def)
  moreover have "waiting_inv oc" "same_ops (oc_heap oc) (oc_heap oc')" "oc_wop oc' = oc_wop oc"
    "oc_wopStatus oc' = oc_wopStatus oc" "keep_time oc' = keep_time oc" using st iv by blast+
  ultimately have "waiting_inv oc'" using waiting_inv_cong by blast
  with filed st show ?thesis unfolding oc_inv_iff by blast
qed

text \<open>The number of items of the queue that are due.\<close>

definition due :: "time \<Rightarrow> operatorQueue \<Rightarrow> nat" where
  "due now q = size {# x \<in># mset q. qi_time x \<le> now #}"

text \<open>The effect of the calls that may start operators: nothing due is added to the queue.\<close>

definition keeps :: "time \<Rightarrow> 'b OperatorController \<Rightarrow> 'b OperatorController \<Rightarrow> bool" where
  "keeps now oc oc' \<longleftrightarrow> oc_inv oc' \<and> same_ops (oc_heap oc) (oc_heap oc') \<and>
     due now (oc_opNotifierQueue oc') = due now (oc_opNotifierQueue oc)"

lemma keeps_trans: "keeps now oc oc1 \<Longrightarrow> keeps now oc1 oc2 \<Longrightarrow> keeps now oc oc2"
  by (auto simp: keeps_def intro: same_ops_trans)

lemma keeps_cong:
  assumes "oc_inv oc" "same_ops (oc_heap oc) (oc_heap oc')" "oc_operators oc' = oc_operators oc"
    "oc_counts oc' = oc_counts oc" "oc_wop oc' = oc_wop oc" "oc_wopStatus oc' = oc_wopStatus oc"
    "keep_time oc' = keep_time oc" "oc_opNotifierQueue oc' = oc_opNotifierQueue oc"
  shows "keeps now oc oc'"
  using oc_inv_cong [OF assms(1-7)] assms by (simp add: keeps_def oc_inv_def)

lemma started_keeps: "started now op oc oc' \<Longrightarrow> oc_inv oc \<Longrightarrow> keeps now oc oc'"
proof -
  assume st: "started now op oc oc'" and iv: "oc_inv oc"
  obtain t where t: "t > now" "oc_opNotifierQueue oc' = heap_Push (oc_opNotifierQueue oc) \<lparr>qi_op = op, qi_time = t\<rparr>"
    using st by (auto simp: started_def)
  have "queue_ok (oc_opNotifierQueue oc)" using iv by (simp add: oc_inv_def)
  then have "due now (oc_opNotifierQueue oc') = due now (oc_opNotifierQueue oc)"
    using t by (simp add: due_def heap_Push_ok)
  then show ?thesis using started_inv [OF st iv] st by (simp add: keeps_def started_def)
qed

lemma addOperators_keeps:
  "addOperators cl rl ord now ops oc = Some oc' \<Longrightarrow> oc_inv oc \<Longrightarrow> keeps now oc oc'"
proof (induction ops arbitrary: oc)
  case Nil
  then show ?case by (simp add: keeps_def)
next
  case (Cons op ops)
  then obtain oc1 where a: "addOperatorLocked cl rl ord now oc op = Some oc1"
    "addOperators cl rl ord now ops oc1 = Some oc'" by (auto split: option.splits)
  have "keeps now oc oc1" using addOperatorLocked_started [OF a(1) Cons.prems(2)] Cons.prems(2) by (rule started_keeps)
  moreover from this have "keeps now oc1 oc'" using Cons.IH [OF a(2)] by (simp add: keeps_def)
  ultimately show ?case by (rule keeps_trans)
qed

lemma limits_keeps: "limits_only oc oc' \<Longrightarrow> oc_inv oc \<Longrightarrow> keeps now oc oc'"
  by (rule keeps_cong) (simp_all add: limits_only_def)

lemma put_records_keeps: "oc_inv oc \<Longrightarrow> keeps now oc (fold (put_record now' st) ops oc)"
  by (rule keeps_cong) simp_all

lemma AddOperator_keeps:
  assumes "AddOperator cl rl ord now oc ops = Some (oc', ok)" "oc_inv oc"
  shows "keeps now oc oc'"
proof -
  obtain oc1 e where e: "exceedStoreLimit cl rl ord now oc ops = Some (oc1, e)"
    using assms(1) by (auto simp: AddOperator_def split: option.splits)
  have k1: "keeps now oc oc1" using limits_keeps [OF exceedStoreLimit_limits [OF e]] assms(2) .
  then have "oc_inv oc1" by (simp add: keeps_def)
  then have "keeps now oc1 oc'"
    using assms(1) e addOperators_keeps [of cl rl ord now ops oc1 oc'] put_records_keeps [of oc1]
    by (auto simp: AddOperator_def split: if_splits)
  with k1 show ?thesis by (rule keeps_trans)
qed

subsection \<open>Waiting\<close>

lemma op_groups_drop: "op_groups h ops = Some (g # gs) \<Longrightarrow> op_groups h (drop (length g) ops) = Some gs"
  by (cases ops) (auto split: if_splits list.splits)

lemma groups_update:
  assumes "op_groups h rest = Some gs'" "mset gs' + A = mset gs + B"
  shows "i < length bs \<Longrightarrow> op_groups h (bk_ops (bs ! i)) = Some gs \<Longrightarrow>
     mset (concat (map (\<lambda>b. the (op_groups h (bk_ops b))) (bs[i := (bs ! i)\<lparr>bk_ops := rest\<rparr>]))) + A =
     mset (concat (map (\<lambda>b. the (op_groups h (bk_ops b))) bs)) + B"
proof (induction bs arbitrary: i)
  case (Cons b bs)
  let ?M = "mset (concat (map (\<lambda>b. the (op_groups h (bk_ops b))) bs))"
  show ?case
  proof (cases i)
    case 0
    have "(mset gs' + ?M) + A = (mset gs' + A) + ?M" "(mset gs + ?M) + B = (mset gs + B) + ?M"
      by (simp_all only: add.assoc add.commute)
    with 0 Cons.prems assms show ?thesis by simp
  next
    case (Suc k)
    with Cons show ?thesis by (simp add: add.assoc)
  qed
qed simp

definition desc_count :: "(op_ref \<Rightarrow> Operator) \<Rightarrow> string \<Rightarrow> op_ref list multiset \<Rightarrow> nat" where
  "desc_count h d gs = size {# g \<in># gs. op_desc (h (g ! 0)) = d #}"

lemma waiting_count_mset: "waiting_count oc d = desc_count (oc_heap oc) d (mset (waiting_groups oc))"
  by (simp add: waiting_count_def desc_count_def flip: mset_filter)

text \<open>Taking an entry out of the buckets and counting it off keeps the invariant.\<close>

lemma taken_inv:
  assumes "oc_inv oc" "drawn r (oc_wop oc) i" "take_from (oc_heap oc) i (oc_wop oc) = Some (b, Some g)"
  shows "oc_inv (upd_status (op_desc (oc_heap oc (g ! 0))) (\<lambda>n. n - 1) (oc\<lparr>oc_wop := b\<rparr>))"
proof -
  let ?h = "oc_heap oc" and ?bs = "rb_buckets (oc_wop oc)"
  let ?d = "op_desc (?h (g ! 0))"
  let ?oc = "upd_status ?d (\<lambda>n. n - 1) (oc\<lparr>oc_wop := b\<rparr>)"
  have b: "buckets_ok ?h (oc_wop oc)" and st: "status_of oc d = of_nat (waiting_count oc d)" for d
    using assms(1) by (simp_all add: oc_inv_def)
  from take_from_ok [OF b assms(2)] assms(3) obtain gs where g: "buckets_ok ?h b"
    "op_groups ?h (bk_ops (?bs ! i)) = Some (g # gs)"
    "rb_buckets b = ?bs[i := (?bs ! i)\<lparr>bk_ops := drop (length g) (bk_ops (?bs ! i))\<rparr>]" by auto
  have i: "i < length ?bs" using assms(2) by (simp add: drawn_def)
  have "mset (waiting_groups ?oc) + {# g #} = mset (waiting_groups oc) + {#}"
    unfolding waiting_groups_def
    using groups_update [OF op_groups_drop [OF g(2)], of "{# g #}" "g # gs" "{#}", OF _ i] g(2,3) by simp
  then have w: "mset (waiting_groups oc) = add_mset g (mset (waiting_groups ?oc))" by simp
  have cnt: "waiting_count oc d = waiting_count ?oc d + (if d = ?d then 1 else 0)" for d
    unfolding waiting_count_mset w by (simp add: desc_count_def)
  have "status_of ?oc d = status_of oc d - (if d = ?d then 1 else 0)" for d
    by (simp add: status_of_def)
  then have "status_of ?oc d = of_nat (waiting_count ?oc d)" for d
    using st [of d] cnt [of d] by (simp split: if_splits)
  then have "\<forall>d. status_of ?oc d = of_nat (waiting_count ?oc d)" by blast
  moreover have "buckets_ok (oc_heap ?oc) (oc_wop ?oc)" "counts_ok ?oc = counts_ok oc" using g(1)
    by (simp_all add: counts_ok_def running_kinds_def)
  ultimately show ?thesis using assms(1) unfolding oc_inv_iff waiting_inv_def by simp
qed

text \<open>Putting an entry into the buckets and counting it keeps the invariant.\<close>

lemma put_inv:
  assumes "oc_inv oc" "PutOperators (oc_heap oc) (oc_wop oc) g = Some b" "op_groups (oc_heap oc) g = Some [g]" "g \<noteq> []"
    "\<And>x. x \<in> set g \<Longrightarrow> op_level (oc_heap oc x) = l" "l < 3"
  shows "oc_inv (upd_status (op_desc (oc_heap oc (g ! 0))) (\<lambda>n. n + 1) (oc\<lparr>oc_wop := b\<rparr>))"
proof -
  let ?h = "oc_heap oc" and ?bs = "rb_buckets (oc_wop oc)"
  let ?d = "op_desc (?h (g ! 0))"
  let ?oc = "upd_status ?d (\<lambda>n. n + 1) (oc\<lparr>oc_wop := b\<rparr>)"
  have bo: "buckets_ok ?h (oc_wop oc)" and st: "status_of oc d = of_nat (waiting_count oc d)" for d
    using assms(1) by (simp_all add: oc_inv_def)
  from PutOperators_ok [OF bo assms(5) assms(6) assms(3) assms(4)] assms(2) have g: "buckets_ok ?h b"
    "rb_buckets b = ?bs[l := (?bs ! l)\<lparr>bk_ops := bk_ops (?bs ! l) @ g\<rparr>]" by auto
  have l: "l < length ?bs"
    using bo assms(6) by (metis buckets_ok_def length_map PriorityWeight_def length_Cons list.size(3) numeral_3_eq_3)
  obtain gs where gs: "op_groups ?h (bk_ops (?bs ! l)) = Some gs" using bucket_groups [OF bo l] by blast
  have "mset (waiting_groups ?oc) + {#} = mset (waiting_groups oc) + {# g #}"
    unfolding waiting_groups_def
    using groups_update [OF op_groups_append [OF gs assms(3)], of "{#}" gs "{# g #}", OF _ l] gs g(2) by simp
  then have w: "mset (waiting_groups ?oc) = add_mset g (mset (waiting_groups oc))" by simp
  have cnt: "waiting_count ?oc d = waiting_count oc d + (if d = ?d then 1 else 0)" for d
    unfolding waiting_count_mset w by (simp add: desc_count_def)
  have "status_of ?oc d = status_of oc d + (if d = ?d then 1 else 0)" for d
    by (simp add: status_of_def)
  then have "status_of ?oc d = of_nat (waiting_count ?oc d)" for d
    using st [of d] cnt [of d] by (simp split: if_splits)
  then have "\<forall>d. status_of ?oc d = of_nat (waiting_count ?oc d)" by blast
  moreover have "buckets_ok (oc_heap ?oc) (oc_wop ?oc)" "counts_ok ?oc = counts_ok oc" using g(1)
    by (simp_all add: counts_ok_def running_kinds_def)
  ultimately show ?thesis using assms(1) unfolding oc_inv_iff waiting_inv_def by simp
qed

lemma drawn_entry:
  assumes "oc_inv oc" "0 \<le> r" "r < 1"
  obtains (none) "RandBuckets_GetOperator (oc_heap oc) r (oc_wop oc) = Some (oc_wop oc, None)"
  | (some) b g where "RandBuckets_GetOperator (oc_heap oc) r (oc_wop oc) = Some (b, Some g)" "length g \<le> 2"
    "keeps now oc (upd_status (op_desc (oc_heap oc (g ! 0))) (\<lambda>n. n - 1) (oc\<lparr>oc_wop := b\<rparr>))"
proof -
  have b: "buckets_ok (oc_heap oc) (oc_wop oc)" using assms(1) by (simp add: oc_inv_def)
  show thesis
  proof (cases "RandBuckets_ListOperator (oc_wop oc) = []")
    case True
    then show thesis using GetOperator_cases [OF b assms(2,3)] none by simp
  next
    case False
    then obtain i where i: "drawn r (oc_wop oc) i"
      "RandBuckets_GetOperator (oc_heap oc) r (oc_wop oc) = take_from (oc_heap oc) i (oc_wop oc)"
      using GetOperator_cases [OF b assms(2,3)] by auto
    from take_from_ok [OF b i(1)] obtain b' g gs where g: "take_from (oc_heap oc) i (oc_wop oc) = Some (b', Some g)"
      "op_groups (oc_heap oc) (bk_ops (rb_buckets (oc_wop oc) ! i)) = Some (g # gs)" by blast
    have "length g \<le> 2"
      using g(2) by (cases "bk_ops (rb_buckets (oc_wop oc) ! i)") (auto split: if_splits list.splits)
    with some [of b' g] taken_inv [OF assms(1) i(1) g(1)] i(2) g(1) show thesis by (simp add: keeps_def)
  qed
qed

definition unit_draws :: "(nat \<Rightarrow> real) \<Rightarrow> bool" where
  "unit_draws draws \<longleftrightarrow> (\<forall>n. 0 \<le> draws n \<and> draws n < 1)"

lemma unit_draws_Suc [simp]: "unit_draws draws \<Longrightarrow> unit_draws (\<lambda>n. draws (Suc n))"
  by (simp add: unit_draws_def)

text \<open>One turn of the loop of \<open>PromoteWaitingOperator\<close> that draws an entry.\<close>

lemma promote_turn:
  assumes "limits_only (oc\<lparr>oc_wop := b\<rparr>) oc1" "keeps now oc (upd_status d (\<lambda>n. n - 1) (oc\<lparr>oc_wop := b\<rparr>))"
  shows "keeps now oc (upd_status d (\<lambda>n. n - 1) (fold (put_record now' st) ops oc1))"
    "keeps now oc (upd_status d (\<lambda>n. n - 1) oc1)"
proof -
  let ?oc = "upd_status d (\<lambda>n. n - 1) (oc\<lparr>oc_wop := b\<rparr>)"
  have iv: "oc_inv ?oc" using assms(2) by (simp add: keeps_def)
  have "keeps now ?oc (upd_status d (\<lambda>n. n - 1) (fold (put_record now' st) ops oc1))"
    using assms(1) by (intro keeps_cong [OF iv]) (simp_all add: limits_only_def)
  then show "keeps now oc (upd_status d (\<lambda>n. n - 1) (fold (put_record now' st) ops oc1))"
    by (rule keeps_trans [OF assms(2)])
  have "keeps now ?oc (upd_status d (\<lambda>n. n - 1) oc1)"
    using assms(1) by (intro keeps_cong [OF iv]) (simp_all add: limits_only_def)
  then show "keeps now oc (upd_status d (\<lambda>n. n - 1) oc1)" by (rule keeps_trans [OF assms(2)])
qed

lemma Promote_loop_keeps:
  "oc_inv oc \<Longrightarrow> unit_draws draws \<Longrightarrow> Promote_loop cl rl ord now draws oc = Some oc' \<Longrightarrow> keeps now oc oc'"
proof (induction "length (RandBuckets_ListOperator (oc_wop oc))" arbitrary: oc draws rule: less_induct)
  case less
  have "0 \<le> draws 0" "draws 0 < 1" using less.prems(2) by (simp_all add: unit_draws_def)
  with less.prems(1) show ?case
  proof (cases rule: drawn_entry [where now = now])
    case none
    then have "oc' = oc" using less.prems(3) by (subst (asm) Promote_loop.simps) simp
    then show ?thesis using less.prems(1) by (simp add: keeps_def)
  next
    case (some b g)
    let ?d = "op_desc (oc_heap oc (g ! 0))"
    obtain oc1 e where e: "exceedStoreLimit cl rl ord now (oc\<lparr>oc_wop := b\<rparr>) g = Some (oc1, e)"
      using less.prems(3) some(1) by (subst (asm) Promote_loop.simps) (auto split: option.splits)
    note l = exceedStoreLimit_limits [OF e]
    let ?oc2 = "upd_status ?d (\<lambda>n. n - 1) (fold (put_record now CANCEL) g oc1)"
    have h: "oc_heap oc1 = oc_heap oc" "oc_wop oc1 = b" using l by (simp_all add: limits_only_def)
    note k = promote_turn [OF l some(3)]
    show ?thesis
    proof (cases "e \<or> \<not> checkAddOperator cl oc1 g")
      case True
      then have p: "Promote_loop cl rl ord now (\<lambda>n. draws (Suc n)) ?oc2 = Some oc'"
        using less.prems(3) some(1) e h(1) by (subst (asm) Promote_loop.simps) (simp add: Let_def)
      have "length (RandBuckets_ListOperator (oc_wop ?oc2)) < length (RandBuckets_ListOperator (oc_wop oc))"
        using GetOperator_shorter [OF some(1)] h(2) by simp
      moreover have "oc_inv ?oc2" using k(1) [of now CANCEL g] by (simp only: keeps_def)
      ultimately have "keeps now ?oc2 oc'" using unit_draws_Suc [OF less.prems(2)] p by (rule less.hyps)
      then show ?thesis by (rule keeps_trans [OF k(1)])
    next
      case False
      then have "addOperators cl rl ord now g (upd_status ?d (\<lambda>n. n - 1) oc1) = Some oc'"
        using less.prems(3) some(1) e h(1) by (subst (asm) Promote_loop.simps) (simp add: Let_def)
      moreover have "oc_inv (upd_status ?d (\<lambda>n. n - 1) oc1)" using k(2) by (simp only: keeps_def)
      ultimately show ?thesis by (intro keeps_trans [OF k(2)] addOperators_keeps)
    qed
  qed
qed

subsection \<open>Dispatching\<close>

lemma removed_keeps: "oc_inv oc \<Longrightarrow> keeps now oc (removeOperatorLocked oc op)"
  using removeOperatorLocked_inv [of oc op] by (simp add: keeps_def)

lemma put_record_keeps: "oc_inv oc \<Longrightarrow> keeps now oc (put_record now' st op oc)"
  by (rule keeps_cong) simp_all

lemma pushHistory_keeps: "oc_inv oc \<Longrightarrow> keeps now oc (pushHistory now' oc op)"
  by (rule keeps_cong) simp_all

lemma send_keeps: "oc_inv oc \<Longrightarrow> keeps now oc (SendScheduleCommand oc region st)"
  by (rule keeps_cong) simp_all

lemma check_keeps: "oc_inv oc \<Longrightarrow> same_op (oc_heap oc op) x \<Longrightarrow> keeps now oc (upd_op op x oc)"
  by (rule keeps_cong) auto

lemma keeps_inv: "keeps now oc oc' \<Longrightarrow> oc_inv oc'"
  by (simp add: keeps_def)

text \<open>The state a dispatch leaves before it promotes waiting operators.\<close>

lemma finish_keeps:
  assumes "oc_inv oc"
  shows "keeps now oc (RemoveOperator (put_record now SUCCESS op (pushHistory now oc op)) op)"
    "keeps now oc (put_record now TIMEOUT op (RemoveTimeoutOperator oc op))"
proof -
  have h: "keeps now oc (pushHistory now oc op)" using assms by (rule pushHistory_keeps)
  have p: "keeps now oc (put_record now SUCCESS op (pushHistory now oc op))"
    by (rule keeps_trans [OF h put_record_keeps [OF keeps_inv [OF h]]])
  show "keeps now oc (RemoveOperator (put_record now SUCCESS op (pushHistory now oc op)) op)"
    unfolding RemoveOperator_def by (rule keeps_trans [OF p removed_keeps [OF keeps_inv [OF p]]])
  have r: "keeps now oc (removeOperatorLocked oc op)" using assms by (rule removed_keeps)
  show "keeps now oc (put_record now TIMEOUT op (RemoveTimeoutOperator oc op))"
    unfolding RemoveTimeoutOperator_def by (rule keeps_trans [OF r put_record_keeps [OF keeps_inv [OF r]]])
qed

lemma Dispatch_cases:
  assumes "oc_inv oc"
  obtains (finish) oc1 where "Dispatch cl rl ord now draws oc region = Some oc1" "keeps now oc oc1"
  | (promote) oc1 where "Dispatch cl rl ord now draws oc region = PromoteWaitingOperator cl rl ord now draws oc1"
      "keeps now oc oc1"
proof (cases "GetOperator oc (RegionInfo_GetID region)")
  case None
  then show thesis using assms finish [of oc] by (simp add: Dispatch_def keeps_def)
next
  case (Some op)
  obtain x st where c: "Operator_Check now (oc_heap oc op) region = (x, st)" by fastforce
  let ?oc = "upd_op op x oc"
  have k: "keeps now oc ?oc" using assms Check_same [OF c] by (rule check_keeps)
  note iv = keeps_inv [OF k]
  show thesis
  proof (cases "if Operator_IsTimeout now (oc_heap oc op) then None else st")
    case None
    with Some c have "Dispatch cl rl ord now draws oc region =
      (if Operator_IsFinish x
       then PromoteWaitingOperator cl rl ord now draws (RemoveOperator (put_record now SUCCESS op (pushHistory now ?oc op)) op)
       else if Operator_IsTimeout now (oc_heap oc op)
       then PromoteWaitingOperator cl rl ord now draws (put_record now TIMEOUT op (RemoveTimeoutOperator ?oc op))
       else Some ?oc)" by (simp add: Dispatch_def Let_def)
    then show thesis
      using finish [OF _ k] promote [OF _ keeps_trans [OF k finish_keeps(1) [OF iv, of now op]]]
        promote [OF _ keeps_trans [OF k finish_keeps(2) [OF iv, of now op]]] by presburger
  next
    case (Some st)
    with \<open>GetOperator oc (RegionInfo_GetID region) = Some op\<close> c
    have "Dispatch cl rl ord now draws oc region = Some (SendScheduleCommand ?oc region st)"
      by (simp add: Dispatch_def Let_def)
    then show thesis using keeps_trans [OF k send_keeps [OF iv]] by (rule finish)
  qed
qed

lemma Dispatch_keeps:
  assumes "oc_inv oc" "unit_draws draws" "Dispatch cl rl ord now draws oc region = Some oc'"
  shows "keeps now oc oc'"
  using assms(1)
proof (cases rule: Dispatch_cases [where cl = cl and rl = rl and ord = ord and now = now and draws = draws and region = region])
  case (finish oc1)
  with assms(3) show ?thesis by simp
next
  case (promote oc1)
  then have "Promote_loop cl rl ord now draws oc1 = Some oc'"
    using assms(3) by (simp add: PromoteWaitingOperator_def)
  then show ?thesis
    using keeps_trans [OF promote(2) Promote_loop_keeps [OF keeps_inv [OF promote(2)] assms(2)]] by blast
qed

end
