(* ===== verification/OperatorReach.thy ===== *)
theory OperatorReach
  imports OperatorControl
begin

text \<open>
  The operator controller does not panic and does what it promises: what an operator costs the
  stores, when \<open>AddOperator\<close> accepts, that \<open>PushOperators\<close> ends, and the invariant of all reachable
  states.
\<close>

subsection \<open>Costs\<close>

definition add_cost_of :: "RegionInfo \<Rightarrow> nat" where
  "add_cost_of region = (if smallRegionThreshold <s ri_approximateSize region then 1000
     else if EmptyRegionApproximateSize <s ri_approximateSize region then 200 else 0)"

fun step_cost :: "OperatorStep \<Rightarrow> RegionInfo \<Rightarrow> u64 \<Rightarrow> nat" where
  "step_cost (AddPeer toStore _) region i = (if i = toStore then add_cost_of region else 0)"
| "step_cost (AddLearner toStore _) region i = (if i = toStore then add_cost_of region else 0)"
| "step_cost _ region i = 0"

definition op_cost :: "oc_cluster \<Rightarrow> Operator \<Rightarrow> u64 \<Rightarrow> nat" where
  "op_cost cl op i = (case occ_GetRegion cl (op_regionID op) of
     None \<Rightarrow> 0 | Some region \<Rightarrow> (\<Sum>st \<leftarrow> op_steps op. step_cost st region i))"

definition ops_cost :: "oc_cluster \<Rightarrow> Operator list \<Rightarrow> u64 \<Rightarrow> nat" where
  "ops_cost cl ops i = (\<Sum>op \<leftarrow> ops. op_cost cl op i)"

abbreviation cost_in :: "OpInfluence \<Rightarrow> u64 \<Rightarrow> i64" where
  "cost_in m i \<equiv> inf_StepCost (GetStoreInfluence m i)"

lemma Get_upd_influence:
  "GetStoreInfluence (upd_influence j f m) i = (if i = j then f (GetStoreInfluence m j) else GetStoreInfluence m i)"
  by (simp add: GetStoreInfluence_def upd_influence_def)

lemma add_cost_cost:
  "inf_StepCost (add_cost region s) = inf_StepCost s + of_nat (add_cost_of region)"
  by (simp add: add_cost_def add_cost_of_def Let_def RegionInfluence_def smallRegionInfluence_def
      word_sle_eq word_sless_alt not_less)

lemma count_peers_cost: "cost_in (fold (count_peer d region) ps m) i = cost_in m i"
  by (induction ps arbitrary: m) (simp_all add: count_peer_def Get_upd_influence Let_def)

lemma step_Influence_cost: "cost_in (step_Influence st m region) i = cost_in m i + of_nat (step_cost st region i)"
  by (cases st) (simp_all add: TransferLeader_Influence_def AddPeer_Influence_def AddLearner_Influence_def
      PromoteLearner_Influence_def RemovePeer_Influence_def MergeRegion_Influence_def SplitRegion_Influence_def
      AddLightPeer_Influence_def AddLightLearner_Influence_def Get_upd_influence add_cost_cost count_peers_cost add_region_def)

lemma TotalInfluence_cost:
  "cost_in (fold (\<lambda>st m. step_Influence st m region) sts m) i =
     cost_in m i + of_nat (\<Sum>st \<leftarrow> sts. step_cost st region i)"
  by (induction sts arbitrary: m) (simp_all add: step_Influence_cost)

lemma NewTotal_loop_cost: "cost_in (NewTotalOpInfluence_loop cl ops m) i = cost_in m i + of_nat (ops_cost cl ops i)"
  by (induction cl ops m rule: NewTotalOpInfluence_loop.induct)
    (simp_all add: ops_cost_def op_cost_def Operator_TotalInfluence_def TotalInfluence_cost split: option.split)

lemma NewTotal_cost: "cost_in (NewTotalOpInfluence ops cl) i = of_nat (ops_cost cl ops i)"
  by (simp add: NewTotalOpInfluence_def NewTotal_loop_cost) (simp add: GetStoreInfluence_def no_influence_def)

lemma step_cost_le: "step_cost st region i \<le> 1000"
  by (cases st) (simp_all add: add_cost_of_def)

lemma op_cost_le: "op_cost cl op i \<le> 1000 * length (op_steps op)"
proof -
  have "(\<Sum>st \<leftarrow> sts. step_cost st region i) \<le> 1000 * length sts" for sts region
    by (induction sts) (simp_all add: add_mono step_cost_le)
  then show ?thesis by (simp add: op_cost_def split: option.split)
qed

definition small_ops :: "(op_ref \<Rightarrow> Operator) \<Rightarrow> bool" where
  "small_ops h \<longleftrightarrow> (\<forall>r. length (op_steps (h r)) \<le> 2 ^ 32)"

lemma small_ops_same: "small_ops h \<Longrightarrow> same_ops h h' \<Longrightarrow> small_ops h'"
  by (simp add: small_ops_def same_ops_def same_op_def)

lemma ops_cost_bound:
  assumes "small_ops h" "length ops \<le> 2 ^ 16"
  shows "ops_cost cl (map h ops) i < 2 ^ 63"
proof -
  have "op_cost cl (h r) i \<le> 2 ^ 42" for r
  proof -
    have "length (op_steps (h r)) \<le> 2 ^ 32" using assms(1) by (simp add: small_ops_def)
    then have "1000 * length (op_steps (h r)) \<le> 2 ^ 42" by simp
    with op_cost_le [of cl "h r" i] show ?thesis by (rule order_trans)
  qed
  then have "ops_cost cl (map h ops) i \<le> length ops * 2 ^ 42"
    by (induction ops) (simp_all add: ops_cost_def add_mono)
  also have "\<dots> \<le> 2 ^ 16 * 2 ^ 42" using assms(2) by (rule mult_right_mono) simp
  also have "\<dots> < (2 ^ 63 :: nat)" by simp
  finally show ?thesis .
qed

lemma cost_sint: "n < 2 ^ 63 \<Longrightarrow> sint (of_nat n :: i64) = int n"
  by (simp add: signed_of_nat signed_take_bit_int_eq_self)

lemma op_cost_same: "same_op x y \<Longrightarrow> op_cost cl y i = op_cost cl x i"
  by (simp add: op_cost_def same_op_def split: option.split)

subsection \<open>Store limits\<close>

text \<open>The limit of a store, or the one that would be created for it.\<close>

definition limit_of :: "oc_cluster \<Rightarrow> 'b ratelimit \<Rightarrow> time \<Rightarrow> 'b OperatorController \<Rightarrow> u64 \<Rightarrow> 'b" where
  "limit_of cl rl now oc i = the (snd (getOrCreateStoreLimit cl rl now oc i))"

lemma getOrCreate_cases:
  obtains oc' where "getOrCreateStoreLimit cl rl now oc i = (oc', Some (limit_of cl rl now oc i))"
    "\<And>j. limit_of cl rl now oc' j = limit_of cl rl now oc j" "fmdom (oc_storesLimit oc') = finsert i (fmdom (oc_storesLimit oc))"
proof (cases "fmlookup (oc_storesLimit oc) i")
  case None
  then show thesis
    by (intro that [of "fst (getOrCreateStoreLimit cl rl now oc i)"])
      (auto simp: limit_of_def getOrCreateStoreLimit_def Let_def newStoreLimit_def)
next
  case (Some l)
  then have "i |\<in>| fmdom (oc_storesLimit oc)" by (rule fmdomI)
  then show thesis using Some
    by (intro that [of oc]) (auto simp: limit_of_def getOrCreateStoreLimit_def Let_def)
qed

lemma exceed_loop_spec:
  "\<exists>oc'. exceed_loop cl rl now m ids oc =
       Some (oc', \<exists>i \<in> set ids. cost_in m i \<noteq> 0 \<and> rl_Available rl now (limit_of cl rl now oc i) < sint (cost_in m i)) \<and>
     fmdom (oc_storesLimit oc) |\<subseteq>| fmdom (oc_storesLimit oc') \<and>
     ((\<forall>i \<in> set ids. cost_in m i \<noteq> 0 \<longrightarrow> \<not> rl_Available rl now (limit_of cl rl now oc i) < sint (cost_in m i)) \<longrightarrow>
      (\<forall>i \<in> set ids. cost_in m i \<noteq> 0 \<longrightarrow> i |\<in>| fmdom (oc_storesLimit oc')))"
proof (induction ids arbitrary: oc)
  case (Cons i ids)
  show ?case
  proof (cases "cost_in m i = 0")
    case True
    then show ?thesis using Cons [of oc] by (simp add: Let_def)
  next
    case False
    obtain oc1 where g: "getOrCreateStoreLimit cl rl now oc i = (oc1, Some (limit_of cl rl now oc i))"
      and l: "\<And>j. limit_of cl rl now oc1 j = limit_of cl rl now oc j"
      and d: "fmdom (oc_storesLimit oc1) = finsert i (fmdom (oc_storesLimit oc))"
      by (rule getOrCreate_cases [of cl rl now oc i]) blast
    show ?thesis
    proof (cases "rl_Available rl now (limit_of cl rl now oc i) < sint (cost_in m i)")
      case True
      with False g d show ?thesis by (simp add: Let_def) blast
    next
      case no: False
      from Cons [of oc1, unfolded l] obtain oc' where
        "exceed_loop cl rl now m ids oc1 = Some (oc', \<exists>i \<in> set ids. cost_in m i \<noteq> 0 \<and>
           rl_Available rl now (limit_of cl rl now oc i) < sint (cost_in m i))"
        "fmdom (oc_storesLimit oc1) |\<subseteq>| fmdom (oc_storesLimit oc')"
        "(\<forall>i \<in> set ids. cost_in m i \<noteq> 0 \<longrightarrow> \<not> rl_Available rl now (limit_of cl rl now oc i) < sint (cost_in m i)) \<longrightarrow>
          (\<forall>i \<in> set ids. cost_in m i \<noteq> 0 \<longrightarrow> i |\<in>| fmdom (oc_storesLimit oc'))" by blast
      with False no g d show ?thesis by (intro exI [of _ oc']) (auto simp: Let_def)
    qed
  qed
qed simp

text \<open>The order in which a map of influences is ranged over.\<close>

definition range_order :: "(OpInfluence \<Rightarrow> u64 list) \<Rightarrow> bool" where
  "range_order ord \<longleftrightarrow> (\<forall>m. map_order (ord m) m)"

lemma cost_in_dom: "range_order ord \<Longrightarrow> cost_in m i \<noteq> 0 \<Longrightarrow> i \<in> set (ord m)"
  by (auto simp: range_order_def map_order_iff GetStoreInfluence_def no_influence_def split: option.splits)

definition exceeds :: "oc_cluster \<Rightarrow> 'b ratelimit \<Rightarrow> time \<Rightarrow> 'b OperatorController \<Rightarrow> op_ref list \<Rightarrow> bool" where
  "exceeds cl rl now oc ops \<longleftrightarrow> (\<exists>i. ops_cost cl (map (oc_heap oc) ops) i \<noteq> 0 \<and>
     rl_Available rl now (limit_of cl rl now oc i) < int (ops_cost cl (map (oc_heap oc) ops) i))"

definition has_limits :: "oc_cluster \<Rightarrow> 'b OperatorController \<Rightarrow> op_ref list \<Rightarrow> bool" where
  "has_limits cl oc ops \<longleftrightarrow>
     (\<forall>i. ops_cost cl (map (oc_heap oc) ops) i \<noteq> 0 \<longrightarrow> i |\<in>| fmdom (oc_storesLimit oc))"

lemma exceedStoreLimit_spec:
  assumes "range_order ord" "small_ops (oc_heap oc)" "length ops \<le> 2 ^ 16"
  shows "\<exists>oc'. exceedStoreLimit cl rl ord now oc ops = Some (oc', exceeds cl rl now oc ops) \<and>
    (\<not> exceeds cl rl now oc ops \<longrightarrow> has_limits cl oc' ops)"
proof -
  define m where "m = NewTotalOpInfluence (map (oc_heap oc) ops) cl"
  let ?c = "\<lambda>i. ops_cost cl (map (oc_heap oc) ops) i"
  have b: "?c i < 2 ^ 63" for i using ops_cost_bound [OF assms(2,3)] .
  have s: "sint (cost_in m i) = int (?c i)" for i unfolding m_def NewTotal_cost using b by (rule cost_sint)
  then have z: "cost_in m i = 0 \<longleftrightarrow> ?c i = 0" for i by (metis of_nat_0 of_nat_eq_0_iff signed_0 signed_eq_0_iff)
  from exceed_loop_spec [of cl rl now m "ord m" oc] obtain oc' where
    e: "exceed_loop cl rl now m (ord m) oc = Some (oc', \<exists>i \<in> set (ord m). cost_in m i \<noteq> 0 \<and>
           rl_Available rl now (limit_of cl rl now oc i) < sint (cost_in m i))"
    and d: "(\<forall>i \<in> set (ord m). cost_in m i \<noteq> 0 \<longrightarrow>
           \<not> rl_Available rl now (limit_of cl rl now oc i) < sint (cost_in m i)) \<longrightarrow>
          (\<forall>i \<in> set (ord m). cost_in m i \<noteq> 0 \<longrightarrow> i |\<in>| fmdom (oc_storesLimit oc'))" by blast
  have x: "(\<exists>i \<in> set (ord m). cost_in m i \<noteq> 0 \<and> rl_Available rl now (limit_of cl rl now oc i) < sint (cost_in m i)) \<longleftrightarrow>
      exceeds cl rl now oc ops"
    using cost_in_dom [OF assms(1), of m] unfolding exceeds_def s z by blast
  have r: "exceedStoreLimit cl rl ord now oc ops = Some (oc', exceeds cl rl now oc ops)"
    using e unfolding x exceedStoreLimit_def m_def [symmetric] Let_def .
  have h: "oc_heap oc' = oc_heap oc"
    using exceedStoreLimit_limits [OF r] by (simp add: limits_only_def)
  have "has_limits cl oc' ops" if "\<not> exceeds cl rl now oc ops"
    unfolding has_limits_def h z [symmetric] using d that [unfolded x [symmetric]] cost_in_dom [OF assms(1), of m] by blast
  with r show ?thesis by blast
qed

subsection \<open>Adding does not panic\<close>

lemma NewTotal_start: "NewTotalOpInfluence [x\<lparr>op_startTime := t\<rparr>] cl = NewTotalOpInfluence [x] cl"
  by (simp add: NewTotalOpInfluence_def Operator_TotalInfluence_def split: option.split)

lemma addOperatorLocked_total:
  assumes "has_limits cl oc [op]"
  shows "\<exists>oc'. addOperatorLocked cl rl ord now oc op = Some oc'"
proof -
  let ?i = "op_regionID (oc_heap oc op)"
  define oc1 where "oc1 = (case fmlookup (oc_operators oc) ?i of
      Some old \<Rightarrow> removeOperatorLocked (put_record now REPLACE old oc) old | None \<Rightarrow> oc)"
  define oc3 where "oc3 = upd_op op ((oc_heap oc1 op)\<lparr>op_startTime := now\<rparr>) (oc1\<lparr>oc_operators := fmupd ?i op (oc_operators oc1)\<rparr>)"
  define m where "m = NewTotalOpInfluence [oc_heap oc3 op] cl"
  have h: "oc_heap oc1 = oc_heap oc" "oc_storesLimit oc3 = oc_storesLimit oc"
    by (simp_all add: oc1_def oc3_def split: option.split)
  have c: "cost_in m i = of_nat (ops_cost cl [oc_heap oc op] i)" for i
    by (simp add: m_def oc3_def h NewTotal_start NewTotal_cost)
  have "ops_cost cl [oc_heap oc op] i \<noteq> 0" if "cost_in m i \<noteq> 0" for i
    using that unfolding c by (rule contrapos_nn) simp
  then have "\<exists>oc4. take_limits rl now m (ord m) oc3 = Some oc4"
    using assms(1) by (intro take_limits_ok) (simp add: h has_limits_def)
  then show ?thesis
    unfolding addOperatorLocked_def Let_def oc1_def [symmetric]
    by (auto simp: oc3_def m_def split: prod.split)
qed

lemma has_limits_cong:
  assumes "has_limits cl oc ops" "same_ops (oc_heap oc) (oc_heap oc')"
    "fmdom (oc_storesLimit oc') = fmdom (oc_storesLimit oc)"
  shows "has_limits cl oc' ops"
proof -
  have "op_cost cl (oc_heap oc' op) i = op_cost cl (oc_heap oc op) i" for op i
    using assms(2) by (intro op_cost_same) (simp add: same_ops_def)
  with assms(1,3) show ?thesis by (simp add: has_limits_def ops_cost_def comp_def)
qed

lemma addOperators_total:
  "oc_inv oc \<Longrightarrow> has_limits cl oc ops \<Longrightarrow> \<exists>oc'. addOperators cl rl ord now ops oc = Some oc'"
proof (induction ops arbitrary: oc)
  case (Cons op ops)
  have l: "has_limits cl oc [op]" "has_limits cl oc ops" using Cons.prems(2) by (auto simp: has_limits_def ops_cost_def)
  obtain oc1 where a: "addOperatorLocked cl rl ord now oc op = Some oc1"
    using addOperatorLocked_total [OF l(1)] by blast
  note st = addOperatorLocked_started [OF a Cons.prems(1)]
  have "has_limits cl oc1 ops" using st has_limits_cong [OF l(2), of oc1] by (simp add: started_def)
  with Cons.IH [OF started_inv [OF st Cons.prems(1)]] a show ?case by simp
qed simp

lemma Promote_loop_total:
  "oc_inv oc \<Longrightarrow> unit_draws draws \<Longrightarrow> range_order ord \<Longrightarrow> small_ops (oc_heap oc) \<Longrightarrow>
     \<exists>oc'. Promote_loop cl rl ord now draws oc = Some oc'"
proof (induction "length (RandBuckets_ListOperator (oc_wop oc))" arbitrary: oc draws rule: less_induct)
  case less
  have "0 \<le> draws 0" "draws 0 < 1" using less.prems(2) by (simp_all add: unit_draws_def)
  with less.prems(1) show ?case
  proof (cases rule: drawn_entry [where now = now])
    case none
    then show ?thesis by (subst Promote_loop.simps) simp
  next
    case (some b g)
    let ?d = "op_desc (oc_heap oc (g ! 0))" and ?e = "exceeds cl rl now (oc\<lparr>oc_wop := b\<rparr>) g"
    have "length g \<le> 2 ^ 16" using some(2) by simp
    then obtain oc1 where e: "exceedStoreLimit cl rl ord now (oc\<lparr>oc_wop := b\<rparr>) g = Some (oc1, ?e)"
      and lim: "\<not> ?e \<Longrightarrow> has_limits cl oc1 g"
      using exceedStoreLimit_spec [OF less.prems(3), of "oc\<lparr>oc_wop := b\<rparr>" g cl rl now] less.prems(4) by auto
    note l = exceedStoreLimit_limits [OF e]
    let ?oc2 = "upd_status ?d (\<lambda>n. n - 1) (fold (put_record now CANCEL) g oc1)"
    have h: "oc_heap oc1 = oc_heap oc" "oc_wop oc1 = b" using l by (simp_all add: limits_only_def)
    note k = promote_turn [OF l some(3)]
    show ?thesis
    proof (cases "?e \<or> \<not> checkAddOperator cl oc1 g")
      case True
      then have p: "Promote_loop cl rl ord now draws oc = Promote_loop cl rl ord now (\<lambda>n. draws (Suc n)) ?oc2"
        using some(1) e h(1) by (subst Promote_loop.simps) (simp add: Let_def)
      have "length (RandBuckets_ListOperator (oc_wop ?oc2)) < length (RandBuckets_ListOperator (oc_wop oc))"
        "small_ops (oc_heap ?oc2)" using GetOperator_shorter [OF some(1)] h less.prems(4) by simp_all
      from less.hyps [OF this(1) keeps_inv [OF k(1)] unit_draws_Suc [OF less.prems(2)] less.prems(3) this(2)]
      show ?thesis unfolding p .
    next
      case False
      then have p: "Promote_loop cl rl ord now draws oc = addOperators cl rl ord now g (upd_status ?d (\<lambda>n. n - 1) oc1)"
        using some(1) e h(1) by (subst Promote_loop.simps) (simp add: Let_def)
      have "has_limits cl (upd_status ?d (\<lambda>n. n - 1) oc1) g"
        using lim False by (simp add: has_limits_def)
      from addOperators_total [OF keeps_inv [OF k(2)] this] show ?thesis unfolding p .
    qed
  qed
qed

lemma Dispatch_total:
  assumes "oc_inv oc" "unit_draws draws" "range_order ord" "small_ops (oc_heap oc)"
  shows "\<exists>oc'. Dispatch cl rl ord now draws oc region = Some oc'"
  using assms(1)
proof (cases rule: Dispatch_cases [where cl = cl and rl = rl and ord = ord and now = now and draws = draws and region = region])
  case (promote oc1)
  then have "oc_inv oc1" "small_ops (oc_heap oc1)" using small_ops_same [OF assms(4)] by (simp_all add: keeps_def)
  from Promote_loop_total [OF this(1) assms(2,3) this(2)] promote(1) show ?thesis by (simp add: PromoteWaitingOperator_def)
qed simp

subsection \<open>Pushing\<close>

text \<open>A state that differs in the queue and in the progress of operators only.\<close>

definition requeued :: "'b OperatorController \<Rightarrow> operatorQueue \<Rightarrow> 'b OperatorController \<Rightarrow> bool" where
  "requeued oc q oc' \<longleftrightarrow> same_ops (oc_heap oc) (oc_heap oc') \<and> oc_operators oc' = oc_operators oc \<and>
     oc_counts oc' = oc_counts oc \<and> oc_wop oc' = oc_wop oc \<and> oc_wopStatus oc' = oc_wopStatus oc \<and>
     oc_opRecords oc' = oc_opRecords oc \<and> oc_opNotifierQueue oc' = q"

lemma requeued_inv: "requeued oc q oc' \<Longrightarrow> oc_inv oc \<Longrightarrow> queue_ok q \<Longrightarrow> oc_inv oc'"
  using oc_inv_cong [of oc oc'] by (simp add: requeued_def)

lemma due_0: "due now q = 0 \<longleftrightarrow> (\<forall>x \<in> set q. now < qi_time x)"
  by (auto simp: due_def not_le filter_empty_conv simp flip: mset_filter)

text \<open>What one turn of the loop takes from the queue.\<close>

definition polled :: "time \<Rightarrow> 'b OperatorController \<Rightarrow> 'b OperatorController \<Rightarrow> RegionInfo option \<Rightarrow> bool \<Rightarrow> bool" where
  "polled now oc oc' r nx \<longleftrightarrow> oc_inv oc' \<and> same_ops (oc_heap oc) (oc_heap oc') \<and>
    (\<not> nx \<longrightarrow> due now (oc_opNotifierQueue oc') = 0) \<and>
    (nx \<longrightarrow> r = None \<longrightarrow> due now (oc_opNotifierQueue oc') \<le> due now (oc_opNotifierQueue oc) \<and>
       length (oc_opNotifierQueue oc') < length (oc_opNotifierQueue oc)) \<and>
    (nx \<longrightarrow> r \<noteq> None \<longrightarrow> due now (oc_opNotifierQueue oc') < due now (oc_opNotifierQueue oc))"

lemma poll_dropped:
  assumes "oc_inv oc" "queue_ok q" "mset (oc_opNotifierQueue oc) = add_mset item (mset q)" "requeued oc q oc'"
  shows "polled now oc oc' None True"
proof -
  have "length q < length (oc_opNotifierQueue oc)" using assms(3) by (metis lessI size_add_mset size_mset)
  with requeued_inv [OF assms(4,1,2)] assms(3,4) show ?thesis by (simp add: polled_def requeued_def due_def)
qed

lemma poll_later:
  assumes "oc_inv oc" "queue_ok q" "mset (oc_opNotifierQueue oc) = add_mset item (mset q)"
    "\<forall>y \<in> set (oc_opNotifierQueue oc). qi_time item \<le> qi_time y" "requeued oc (heap_Push q item) oc'" "now < qi_time item"
  shows "polled now oc oc' r False"
proof -
  have "set (heap_Push q item) = set (oc_opNotifierQueue oc)"
    using heap_Push_ok [OF assms(2), of item] assms(3) by (metis set_mset_mset)
  then have "due now (heap_Push q item) = 0" using assms(4,6) by (fastforce simp: due_0)
  with requeued_inv [OF assms(5,1)] heap_Push_ok [OF assms(2)] assms(5) show ?thesis
    by (simp add: polled_def requeued_def)
qed

lemma poll_due:
  assumes "oc_inv oc" "queue_ok q" "mset (oc_opNotifierQueue oc) = add_mset item (mset q)"
    "requeued oc (heap_Push q x) oc'" "\<not> now < qi_time item" "now < qi_time x"
  shows "polled now oc oc' (Some region) True"
proof -
  have "due now (heap_Push q x) < due now (oc_opNotifierQueue oc)"
    using heap_Push_ok [OF assms(2), of x] assms(3,5,6) by (simp add: due_def)
  with requeued_inv [OF assms(4,1)] heap_Push_ok [OF assms(2)] assms(4) show ?thesis
    by (simp add: polled_def requeued_def)
qed

lemma poll_spec:
  assumes "oc_inv oc" "pollNeedDispatchRegion cl now oc = (oc', r, nx)"
  shows "polled now oc oc' r nx"
proof (cases "oc_opNotifierQueue oc = []")
  case True
  then have "oc' = oc" "nx = False" using assms(2) by (simp_all add: pollNeedDispatchRegion_def operatorQueue_Len_def)
  with True assms(1) show ?thesis by (simp add: polled_def due_def)
next
  case False
  let ?q0 = "oc_opNotifierQueue oc"
  from heap_Pop_ok [OF _ False] assms(1) obtain q item where q: "heap_Pop ?q0 = (q, Some item)" "queue_ok q"
    "mset ?q0 = add_mset item (mset q)" "\<forall>y \<in> set ?q0. qi_time item \<le> qi_time y" by (auto simp: oc_inv_def)
  let ?i = "op_regionID (oc_heap oc (qi_op item))"
  note poll = assms(2) [unfolded pollNeedDispatchRegion_def operatorQueue_Len_def Let_def]
  note drop = poll_dropped [OF assms(1) q(2,3)]
  show ?thesis
  proof (cases "\<exists>op region. fmlookup (oc_operators oc) ?i = Some op \<and> occ_GetRegion cl ?i = Some region")
    case False
    with poll q(1) \<open>?q0 \<noteq> []\<close> have "requeued oc q oc' \<and> r = None \<and> nx"
      by (auto simp: requeued_def split: option.splits)
    with drop show ?thesis by simp
  next
    case True
    then obtain op region where run: "fmlookup (oc_operators oc) ?i = Some op" "occ_GetRegion cl ?i = Some region" by blast
    obtain x st where c: "Operator_Check now (oc_heap oc op) region = (x, st)" by fastforce
    have "same_ops (oc_heap oc) ((oc_heap oc)(op := x))" using Check_same [OF c] by auto
    with poll q(1) \<open>?q0 \<noteq> []\<close> run c have cases: "if st = None then requeued oc q oc' \<and> r = None \<and> nx
      else if now < qi_time item then requeued oc (heap_Push q item) oc' \<and> r = None \<and> \<not> nx
      else requeued oc (heap_Push q (item\<lparr>qi_time := getNextPushOperatorTime st now\<rparr>)) oc' \<and> r = Some region \<and> nx"
      by (auto simp: requeued_def split: option.splits if_splits)
    show ?thesis
      using cases drop poll_later [OF assms(1) q(2-4)]
        poll_due [OF assms(1) q(2,3), of "item\<lparr>qi_time := getNextPushOperatorTime st now\<rparr>"] getNextPush_later [of now st]
      by (auto split: if_splits)
  qed
qed

lemma PushOperators_total:
  assumes "range_order ord"
  shows "oc_inv oc \<Longrightarrow> small_ops (oc_heap oc) \<Longrightarrow> (\<And>n. unit_draws (draws n)) \<Longrightarrow>
    \<exists>oc'. PushOperators cl rl ord now draws oc = Some oc' \<and> oc_inv oc' \<and> same_ops (oc_heap oc) (oc_heap oc') \<and>
      due now (oc_opNotifierQueue oc') = 0"
proof (induction "(due now (oc_opNotifierQueue oc), length (oc_opNotifierQueue oc))" arbitrary: oc draws
    rule: wf_induct_rule [OF wf_lex_prod [OF wf_less_than wf_less_than]])
  case (1 oc draws)
  obtain oc1 r nx where p: "pollNeedDispatchRegion cl now oc = (oc1, r, nx)" by (metis prod_cases3)
  note ps = poll_spec [OF 1(2) p, unfolded polled_def]
  have s1: "small_ops (oc_heap oc1)" using small_ops_same [OF 1(3)] ps by blast
  let ?d = "\<lambda>n. draws (Suc n)"
  have again: ?case if "PushOperators cl rl ord now draws oc = PushOperators cl rl ord now ?d oc2" "oc_inv oc2"
    "same_ops (oc_heap oc) (oc_heap oc2)" "((due now (oc_opNotifierQueue oc2), length (oc_opNotifierQueue oc2)),
      due now (oc_opNotifierQueue oc), length (oc_opNotifierQueue oc)) \<in> less_than <*lex*> less_than" for oc2
    using 1(1) [OF that(4,2) small_ops_same [OF 1(3) that(3)], of ?d] 1(4) same_ops_trans [OF that(3)] that(1) by metis
  show ?case
  proof (cases nx)
    case False
    with p ps show ?thesis by (subst PushOperators.simps) simp
  next
    case nx: True
    show ?thesis
    proof (cases r)
      case None
      show ?thesis using p ps nx None by (intro again [of oc1]) (subst PushOperators.simps, auto)
    next
      case (Some region)
      from Dispatch_total [OF _ 1(4) [of 0] assms s1] ps obtain oc2 where
        d: "Dispatch cl rl ord now (draws 0) oc1 region = Some oc2" by blast
      from Dispatch_keeps [OF _ 1(4) d] ps have k: "keeps now oc1 oc2" by blast
      show ?thesis
      proof (rule again [of oc2])
        show "PushOperators cl rl ord now draws oc = PushOperators cl rl ord now ?d oc2"
          using p nx Some d by (subst PushOperators.simps) simp
        show "same_ops (oc_heap oc) (oc_heap oc2)" using ps k same_ops_trans by (auto simp: keeps_def)
      qed (use ps k nx Some in \<open>auto simp: keeps_def\<close>)
    qed
  qed
qed

subsection \<open>Waiting operators\<close>

text \<open>
  What the callers of \<open>AddWaitingOperator\<close> pass: one operator that is no merge, or a merge and its
  partner, of one priority.
\<close>

definition one_entry :: "(op_ref \<Rightarrow> Operator) \<Rightarrow> op_ref list \<Rightarrow> bool" where
  "one_entry h ops \<longleftrightarrow> ops \<noteq> [] \<and> op_groups h ops = Some [ops] \<and> op_level (h (ops ! 0)) < 3 \<and>
     (\<forall>x \<in> set ops. op_level (h x) = op_level (h (ops ! 0)))"

lemma one_entry_short: "one_entry h ops \<Longrightarrow> take (Suc 1) ops = ops \<and> length ops \<le> 2"
  by (cases ops) (auto simp: one_entry_def split: if_splits list.splits)

lemma AddWaitingOperator_spec:
  assumes "oc_inv oc" "one_entry (oc_heap oc) ops"
  obtains (refuse) oc1 where "AddWaitingOperator cl rl ord now draws oc ops = Some (oc1, False)" "keeps now oc oc1"
  | (accept) oc1 where "AddWaitingOperator cl rl ord now draws oc ops =
      map_option (\<lambda>oc. (oc, True)) (Promote_loop cl rl ord now draws oc1)" "keeps now oc oc1"
proof -
  obtain op rest where ops: "ops = op # rest" using assms(2) by (cases ops) (auto simp: one_entry_def)
  then have op: "op = ops ! 0" by simp
  have tk: "op # take 1 rest = ops" using one_entry_short [OF assms(2)] by (simp add: ops)
  let ?h = "oc_heap oc" and ?d = "op_desc (oc_heap oc op)"
  have lv: "op_level (?h x) = op_level (?h op)" if "x \<in> set ops" for x
    using assms(2) that unfolding one_entry_def op by blast
  have e: "op_groups ?h ops = Some [ops]" "op_level (?h op) < 3" "ops \<noteq> []"
    using assms(2) unfolding one_entry_def op by blast+
  have bo: "buckets_ok ?h (oc_wop oc)" using assms(1) by (simp add: oc_inv_def)
  from PutOperators_ok [OF bo lv e(2,1,3)] obtain b where b: "PutOperators ?h (oc_wop oc) ops = Some b" by blast
  let ?oc = "upd_status ?d (\<lambda>n. n + 1) (oc\<lparr>oc_wop := b\<rparr>)"
  have k: "keeps now oc ?oc" using put_inv [OF assms(1) b e(1,3) lv e(2)] by (simp add: keeps_def ops)
  have "AddWaitingOperator cl rl ord now draws oc ops =
    (if \<not> checkAddOperator cl oc ops then Some (fold (put_record now CANCEL) ops oc, False)
     else if (case fmlookup (oc_wopStatus oc) ?d of None \<Rightarrow> 0 | Some n \<Rightarrow> n) \<ge> occ_GetSchedulerMaxWaitingOperator cl
     then Some (oc, False) else map_option (\<lambda>oc. (oc, True)) (Promote_loop cl rl ord now draws ?oc))"
    unfolding AddWaitingOperator_def PromoteWaitingOperator_def Let_def
    using b by (simp only: ops list.case tk [unfolded ops] option.case)
  moreover have "keeps now oc oc" using assms(1) by (simp add: keeps_def)
  ultimately show thesis
    using refuse [OF _ put_records_keeps [OF assms(1)], of now CANCEL ops] refuse [of oc] accept [OF _ k] by presburger
qed

lemma AddWaitingOperator_keeps:
  assumes "oc_inv oc" "one_entry (oc_heap oc) ops" "unit_draws draws"
    "AddWaitingOperator cl rl ord now draws oc ops = Some (oc', ok)"
  shows "keeps now oc oc'"
  using assms(1,2)
proof (cases rule: AddWaitingOperator_spec [where cl = cl and rl = rl and ord = ord and now = now and draws = draws])
  case (refuse oc1)
  with assms(4) show ?thesis by simp
next
  case (accept oc1)
  with assms(4) have "Promote_loop cl rl ord now draws oc1 = Some oc'" by auto
  then show ?thesis
    using keeps_trans [OF accept(2) Promote_loop_keeps [OF keeps_inv [OF accept(2)] assms(3)]] by blast
qed

subsection \<open>Reachable states\<close>

text \<open>
  A call of a method of the controller, with any cluster, clock, random numbers and range orders.
  \<open>AddWaitingOperator\<close>, \<open>Dispatch\<close> and \<open>PushOperators\<close> release the lock in between; their critical
  sections and the lock-free progress check of an operator are steps of their own, so every
  interleaving of them is a sequence of steps.
\<close>

inductive oc_step :: "'b ratelimit \<Rightarrow> 'b OperatorController \<Rightarrow> 'b OperatorController \<Rightarrow> bool" for rl where
  add: "AddOperator cl rl ord now oc ops = Some (oc', ok) \<Longrightarrow> oc_step rl oc oc'"
| wait: "AddWaitingOperator cl rl ord now draws oc ops = Some (oc', ok) \<Longrightarrow> one_entry (oc_heap oc) ops \<Longrightarrow>
    unit_draws draws \<Longrightarrow> oc_step rl oc oc'"
| wait_put: "PutOperators (oc_heap oc) (oc_wop oc) ops = Some b \<Longrightarrow> one_entry (oc_heap oc) ops \<Longrightarrow>
    oc_step rl oc (upd_status (op_desc (oc_heap oc (ops ! 0))) (\<lambda>n. n + 1) (oc\<lparr>oc_wop := b\<rparr>))"
| check: "Operator_Check now (oc_heap oc op) region = (x, st) \<Longrightarrow> oc_step rl oc (upd_op op x oc)"
| promote: "PromoteWaitingOperator cl rl ord now draws oc = Some oc' \<Longrightarrow> unit_draws draws \<Longrightarrow> oc_step rl oc oc'"
| dispatch: "Dispatch cl rl ord now draws oc region = Some oc' \<Longrightarrow> unit_draws draws \<Longrightarrow> oc_step rl oc oc'"
| poll: "pollNeedDispatchRegion cl now oc = (oc', r, nx) \<Longrightarrow> oc_step rl oc oc'"
| remove: "oc_step rl oc (RemoveOperator oc op)"
| remove_timeout: "oc_step rl oc (RemoveTimeoutOperator oc op)"
| send: "oc_step rl oc (SendScheduleCommand oc region st)"
| history: "oc_step rl oc (pushHistory now oc op)"
| prune: "oc_step rl oc (PruneHistory now oc)"
| record_status: "oc_step rl oc (put_record now status op oc)"
| all_limits: "oc_step rl oc (SetAllStoresLimit rl now order oc rate)"
| one_limit: "oc_step rl oc (SetStoreLimit rl now oc storeID rate)"

inductive oc_reach :: "'b ratelimit \<Rightarrow> 'b OperatorController \<Rightarrow> bool" for rl where
  new: "oc_reach rl (NewOperatorController h)"
| step: "oc_reach rl oc \<Longrightarrow> oc_step rl oc oc' \<Longrightarrow> oc_reach rl oc'"

lemma SetAllStoresLimit_limits: "limits_only oc (SetAllStoresLimit rl now order oc rate)"
proof -
  have "limits_only oc (fold (\<lambda>storeID oc. newStoreLimit rl now oc storeID rate) ids oc)" for ids
  proof (induction ids arbitrary: oc)
    case (Cons i ids)
    from Cons [of "newStoreLimit rl now oc i rate"] show ?case by (simp add: limits_only_def)
  qed (simp add: limits_only_def)
  then show ?thesis by (simp add: SetAllStoresLimit_def)
qed

lemma oc_step_inv: "oc_step rl oc oc' \<Longrightarrow> oc_inv oc \<Longrightarrow> oc_inv oc'"
proof (induction rule: oc_step.induct)
  case (add cl ord now oc ops oc' ok)
  then show ?case using keeps_inv [OF AddOperator_keeps] by blast
next
  case (wait cl ord now draws oc ops oc' ok)
  then show ?case using keeps_inv [OF AddWaitingOperator_keeps] by blast
next
  case (wait_put oc ops b)
  have e: "op_groups (oc_heap oc) ops = Some [ops]" "ops \<noteq> []" "op_level (oc_heap oc (ops ! 0)) < 3"
    "\<And>x. x \<in> set ops \<Longrightarrow> op_level (oc_heap oc x) = op_level (oc_heap oc (ops ! 0))"
    using wait_put(2) unfolding one_entry_def by blast+
  from put_inv [OF wait_put(3,1) e(1,2,4,3)] show ?case .
next
  case (check now oc op region x st)
  then show ?case using keeps_inv [OF check_keeps [OF check(2) Check_same [OF check(1)]]] by simp
next
  case (promote cl ord now draws oc oc')
  then show ?case using keeps_inv [OF Promote_loop_keeps] by (auto simp: PromoteWaitingOperator_def)
next
  case (dispatch cl ord now draws oc region oc')
  then show ?case using keeps_inv [OF Dispatch_keeps] by blast
next
  case (poll cl now oc oc' r nx)
  then show ?case using poll_spec [OF poll(2,1)] by (simp only: polled_def)
next
  case (prune oc now)
  then have "keeps now oc (PruneHistory now oc)" by (rule keeps_cong) (simp_all add: PruneHistory_def)
  then show ?case by (rule keeps_inv)
next
  case (all_limits oc now order rate)
  then show ?case using keeps_inv [OF limits_keeps [OF SetAllStoresLimit_limits]] by blast
next
  case (one_limit oc now storeID rate)
  then have "keeps now oc (SetStoreLimit rl now oc storeID rate)"
    by (rule keeps_cong) (simp_all add: SetStoreLimit_def)
  then show ?case by (rule keeps_inv)
qed (simp_all add: RemoveOperator_def RemoveTimeoutOperator_def removeOperatorLocked_inv
    keeps_inv [OF send_keeps] keeps_inv [OF pushHistory_keeps] keeps_inv [OF put_record_keeps])

lemma oc_reach_inv: "oc_reach rl oc \<Longrightarrow> oc_inv oc"
  by (induction rule: oc_reach.induct) (auto intro: oc_inv_New oc_step_inv)

subsection \<open>What a call of \<open>AddOperator\<close> does\<close>

lemma addOperators_operators:
  "addOperators cl rl ord now ops oc = Some oc' \<Longrightarrow> oc_inv oc \<Longrightarrow>
     oc_operators oc' = fold (\<lambda>op. fmupd (op_regionID (oc_heap oc op)) op) ops (oc_operators oc)"
proof (induction ops arbitrary: oc)
  case (Cons op ops)
  then obtain oc1 where a: "addOperatorLocked cl rl ord now oc op = Some oc1"
    "addOperators cl rl ord now ops oc1 = Some oc'" by (auto split: option.splits)
  note st = addOperatorLocked_started [OF a(1) Cons.prems(2)]
  have "op_regionID (oc_heap oc1 x) = op_regionID (oc_heap oc x)" for x
    using st by (simp add: started_def same_ops_def same_op_def)
  with Cons.IH [OF a(2) started_inv [OF st Cons.prems(2)]] st show ?case by (simp add: started_def)
qed simp

lemma fold_upd_other: "i \<notin> f ` set ops \<Longrightarrow> fmlookup (fold (\<lambda>op. fmupd (f op) op) ops m) i = fmlookup m i"
  by (induction ops arbitrary: m) auto

lemma fold_upd_distinct:
  "distinct (map f ops) \<Longrightarrow> op \<in> set ops \<Longrightarrow> fmlookup (fold (\<lambda>op. fmupd (f op) op) ops m) (f op) = Some op"
proof (induction ops arbitrary: m)
  case (Cons a ops)
  then show ?case by (cases "op = a") (auto simp: fold_upd_other)
qed simp

lemma put_record_get:
  "OperatorRecords_Get t (oc_opRecords (put_record now st op oc)) i =
     (if i = op_regionID (oc_heap oc op) then (if now + keep_time oc < t then None else Some \<lparr>ows_Op = op, ows_Status = st\<rparr>)
      else OperatorRecords_Get t (oc_opRecords oc) i)"
  by (simp add: put_record_def OperatorRecords_Get_def OperatorRecords_Put_def TTL_Put_def TTL_PutWithTTL_def TTL_Get_def)

lemma put_records_other:
  "i \<notin> (\<lambda>op. op_regionID (oc_heap oc op)) ` set ops \<Longrightarrow>
     OperatorRecords_Get t (oc_opRecords (fold (put_record now st) ops oc)) i = OperatorRecords_Get t (oc_opRecords oc) i"
  by (induction ops arbitrary: oc) (simp_all add: put_record_get)

lemma put_records_distinct:
  "distinct (map (\<lambda>op. op_regionID (oc_heap oc op)) ops) \<Longrightarrow> op \<in> set ops \<Longrightarrow> t \<le> now + keep_time oc \<Longrightarrow>
     OperatorRecords_Get t (oc_opRecords (fold (put_record now st) ops oc)) (op_regionID (oc_heap oc op)) =
     Some \<lparr>ows_Op = op, ows_Status = st\<rparr>"
proof (induction ops arbitrary: oc)
  case (Cons a ops)
  with Cons.IH [of "put_record now st a oc"] show ?case
    by (cases "op = a") (simp_all add: put_records_other put_record_get)
qed simp

lemma checkAddOperator_iff: "checkAddOperator cl oc ops \<longleftrightarrow> (\<forall>op \<in> set ops. may_add cl oc op)"
  by (induction ops) simp_all

lemma may_add_limits: "limits_only oc oc' \<Longrightarrow> may_add cl oc' op = may_add cl oc op"
  unfolding limits_only_def by (elim conjE) (simp only: may_add_def)

lemma AddOperator_refused:
  assumes "oc_inv oc" "limits_only oc oc1" "distinct (map (\<lambda>op. op_regionID (oc_heap oc op)) ops)"
  shows "oc_operators (fold (put_record now CANCEL) ops oc1) = oc_operators oc \<and>
    (\<forall>op \<in> set ops. OperatorRecords_Get now (oc_opRecords (fold (put_record now CANCEL) ops oc1)) (op_regionID (oc_heap oc op)) =
       Some \<lparr>ows_Op = op, ows_Status = CANCEL\<rparr>)"
proof -
  have l: "oc_heap oc1 = oc_heap oc" "oc_operators oc1 = oc_operators oc" "keep_time oc1 = operatorStatusRemainTime"
    using assms(1,2) by (simp_all add: limits_only_def oc_inv_def)
  have "0 \<le> operatorStatusRemainTime" by (simp add: operatorStatusRemainTime_def Minute_def Second_def Millisecond_def)
  then have "now \<le> now + keep_time oc1" using l(3) by simp
  with put_records_distinct [of oc1 ops] assms(3) l show ?thesis by simp
qed

subsection \<open>A sample\<close>

definition sample_cluster :: oc_cluster where
  "sample_cluster = \<lparr>occ_GetRegion = (\<lambda>i. if i = 1 then Some empty_region else None), occ_GetStoreBalanceRate = 1,
     occ_GetSchedulerMaxWaitingOperator = 3, occ_IsTombstone = (\<lambda>i. None)\<rparr>"

definition sample_limiter :: "int ratelimit" where
  "sample_limiter = \<lparr>rl_NewBucketWithRate = (\<lambda>now rate capacity. capacity), rl_Available = (\<lambda>now b. b),
     rl_Take = (\<lambda>now b n. b - n), rl_Rate = (\<lambda>b. 0)\<rparr>"

definition sample_heap :: "op_ref \<Rightarrow> Operator" where
  "sample_heap op = sample_op\<lparr>op_kind := OpLeader, op_level := (if op = 0 then 0 else 2)\<rparr>"

definition sample_order :: "OpInfluence \<Rightarrow> u64 list" where
  "sample_order m = sorted_list_of_set (fset (fmdom m))"

definition sample_state :: "int OperatorController" where
  "sample_state = fst (the (AddOperator sample_cluster sample_limiter sample_order 0 (NewOperatorController sample_heap) [0]))"

lemma sample_add:
  "AddOperator sample_cluster sample_limiter sample_order 0 (NewOperatorController sample_heap) [0] = Some (sample_state, True)"
proof -
  have "case AddOperator sample_cluster sample_limiter sample_order 0 (NewOperatorController sample_heap) [0] of
      Some (oc, ok) \<Rightarrow> ok | None \<Rightarrow> False" by code_simp
  then show ?thesis by (auto simp: sample_state_def split: option.splits prod.splits)
qed

lemma sample_reach: "oc_reach sample_limiter sample_state"
  by (rule oc_reach.step [OF oc_reach.new oc_step.add [OF sample_add]])

lemma sample_small: "small_ops (oc_heap sample_state)"
proof (rule small_ops_same)
  show "small_ops sample_heap" by (simp add: small_ops_def sample_heap_def sample_op_def NewOperator_def)
  show "same_ops sample_heap (oc_heap sample_state)"
    using AddOperator_keeps [OF sample_add oc_inv_New] by (simp add: keeps_def NewOperatorController_def)
qed

lemma sample_range: "range_order sample_order"
  by (simp add: range_order_def map_order_def sample_order_def fset_eq_iff fset_of_list_elem)

subsection \<open>Properties\<close>



text \<open>
  (C9) The counters of the controller. In every reachable state the number of operators of some kinds
  that \<open>OperatorCount\<close> reports is the number of regions with a running operator of these kinds, every
  running operator is filed under its own region, and the counter of waiting operators of every
  description is the number of entries in the buckets.
\<close>
theorem controller_counts:
  assumes "oc_reach rl oc" "map_order order (oc_counts oc)"
  shows "OperatorCount order oc msk =
      of_nat (card {i. \<exists>op. GetOperator oc i = Some op \<and> op_kind (oc_heap oc op) AND msk \<noteq> 0}) \<and>
    (\<forall>i op. GetOperator oc i = Some op \<longrightarrow> op_regionID (oc_heap oc op) = i) \<and>
    (\<forall>d. status_of oc d = of_nat (waiting_count oc d))"
  using oc_reach_inv [OF assms(1)] OperatorCount_kinds [OF _ assms(2), of msk]
  by (simp add: oc_inv_def running_kinds_filter GetOperator_def)

theorem controller_counts_witness:
  "oc_reach sample_limiter sample_state \<and> map_order [OpLeader] (oc_counts sample_state) \<and>
   OperatorCount [OpLeader] sample_state OpLeader = 1 \<and>
   of_nat (card {i. \<exists>op. GetOperator sample_state i = Some op \<and> op_kind (oc_heap sample_state op) AND OpLeader \<noteq> 0}) = (1 :: u64)"
proof -
  have "map_order [OpLeader] (oc_counts sample_state)" "OperatorCount [OpLeader] sample_state OpLeader = 1" by code_simp+
  with controller_counts [OF sample_reach this(1), of OpLeader] sample_reach show ?thesis by simp
qed




definition sample_replaced :: "int OperatorController" where
  "sample_replaced = fst (the (AddOperator sample_cluster sample_limiter sample_order 5 sample_state [1]))"

lemma sample_replaced_reach: "oc_reach sample_limiter sample_replaced"
proof -
  have "case AddOperator sample_cluster sample_limiter sample_order 5 sample_state [1] of Some (oc, ok) \<Rightarrow> ok | None \<Rightarrow> False"
    by code_simp
  then have "AddOperator sample_cluster sample_limiter sample_order 5 sample_state [1] = Some (sample_replaced, True)"
    by (auto simp: sample_replaced_def split: option.splits prod.splits)
  then show ?thesis by (rule oc_reach.step [OF sample_reach oc_step.add])
qed


end
