(* ===== verification/StoragePaths.thy ===== *)
theory StoragePaths
  imports Kv
begin

text \<open>
  The keys of \<open>server/core/storage.go\<close>. Ids are printed with \<open>%020d\<close>, so the byte order of the keys
  is the numeric order of the ids: a range scan of the store sees the records by increasing id.
\<close>

definition clusterPath :: string where "clusterPath = ''raft''"

definition configPath :: string where "configPath = ''config''"

definition schedulePath :: string where "schedulePath = ''schedule''"

definition gcPath :: string where "gcPath = ''gc''"

definition storePath :: "u64 \<Rightarrow> string" where
  "storePath storeID = path_Join (path_Join clusterPath ''s'') (fmt_020d storeID)"

definition regionPath :: "u64 \<Rightarrow> string" where
  "regionPath regionID = path_Join (path_Join clusterPath ''r'') (fmt_020d regionID)"

definition ClusterStatePath :: "string \<Rightarrow> string" where
  "ClusterStatePath option' = path_Join (path_Join clusterPath ''status'') option'"

definition storeLeaderWeightPath :: "u64 \<Rightarrow> string" where
  "storeLeaderWeightPath storeID =
     path_Join (path_Join (path_Join schedulePath ''store_weight'') (fmt_020d storeID)) ''leader''"

definition storeRegionWeightPath :: "u64 \<Rightarrow> string" where
  "storeRegionWeightPath storeID =
     path_Join (path_Join (path_Join schedulePath ''store_weight'') (fmt_020d storeID)) ''region''"

subsection \<open>Numbers of fixed width\<close>

fun digits :: "nat \<Rightarrow> nat \<Rightarrow> string" where
  "digits 0 n = []"
| "digits (Suc w) n = digits w (n div 10) @ [digit_char (n mod 10)]"

lemma length_digits [simp]: "length (digits w n) = w"
  by (induction w arbitrary: n) auto

lemma digit_char_less: "a < 10 \<Longrightarrow> b < 10 \<Longrightarrow> digit_char a < digit_char b \<longleftrightarrow> a < b"
  by (simp add: digit_char_def less_char_def)

lemma digit_char_eq: "a < 10 \<Longrightarrow> b < 10 \<Longrightarrow> digit_char a = digit_char b \<longleftrightarrow> a = b"
  by (metis digit_char_less neq_iff)

lemma snoc_less:
  "length xs = length ys \<Longrightarrow> xs @ [a] < ys @ [b] \<longleftrightarrow> xs < ys \<or> xs = ys \<and> a < (b :: 'a :: order)"
  by (induction xs ys rule: list_induct2) auto

lemma tens:
  fixes p q r s :: nat
  assumes "r < 10" "s < 10"
  shows "p * 10 + r < q * 10 + s \<longleftrightarrow> p < q \<or> p = q \<and> r < s" "p * 10 + r = q * 10 + s \<longleftrightarrow> p = q \<and> r = s"
  using assms by (cases p q rule: linorder_cases; simp)+

lemma digits_less_eq:
  "m < 10 ^ w \<Longrightarrow> n < 10 ^ w \<Longrightarrow> (digits w m < digits w n \<longleftrightarrow> m < n) \<and> (digits w m = digits w n \<longleftrightarrow> m = n)"
proof (induction w arbitrary: m n)
  case (Suc w)
  have "m div 10 < 10 ^ w" "n div 10 < 10 ^ w" using Suc.prems by auto
  note IH = Suc.IH [OF this]
  have "m < n \<longleftrightarrow> m div 10 < n div 10 \<or> m div 10 = n div 10 \<and> m mod 10 < n mod 10"
    "m = n \<longleftrightarrow> m div 10 = n div 10 \<and> m mod 10 = n mod 10"
    using tens [of "m mod 10" "n mod 10" "m div 10" "n div 10"] by simp_all
  then show ?case using IH by (simp add: snoc_less digit_char_less digit_char_eq)
qed simp

lemma digits_zero: "digits w 0 = replicate w (CHR ''0'')"
proof (induction w)
  case (Suc w)
  have "digit_char 0 = CHR ''0''" by code_simp
  with Suc show ?case by (simp add: replicate_append_same)
qed simp

lemma length_format: "0 < w \<Longrightarrow> n < 10 ^ w \<Longrightarrow> length (format_nat 10 n) \<le> w"
proof (induction w arbitrary: n)
  case (Suc w)
  show ?case
  proof (cases "n < 10")
    case False
    then have "0 < w" using Suc.prems(2) by (cases w) auto
    moreover have "n div 10 < 10 ^ w" using Suc.prems by auto
    ultimately show ?thesis using Suc.IH [of "n div 10"] False by (subst format_nat.simps) simp
  qed (subst format_nat.simps, simp)
qed simp

lemma padded_digits:
  "0 < w \<Longrightarrow> n < 10 ^ w \<Longrightarrow> replicate (w - length (format_nat 10 n)) (CHR ''0'') @ format_nat 10 n = digits w n"
proof (induction w arbitrary: n)
  case (Suc w)
  show ?case
  proof (cases "n < 10")
    case True
    have f: "format_nat 10 n = [digit_char n]" using True by (subst format_nat.simps) simp
    show ?thesis using True by (simp add: f digits_zero)
  next
    case False
    then have "0 < w" using Suc.prems(2) by (cases w) auto
    moreover have "n div 10 < 10 ^ w" using Suc.prems by auto
    moreover have f: "format_nat 10 n = format_nat 10 (n div 10) @ [digit_char (n mod 10)]"
      using False by (subst format_nat.simps) simp
    ultimately show ?thesis using Suc.IH [of "n div 10"] by (simp add: f)
  qed
qed simp

lemma unat_width: "unat (u :: u64) < 10 ^ 20"
proof -
  have "unat u < 2 ^ LENGTH(64)" by (rule unsigned_less)
  then show ?thesis by simp
qed

lemma fmt_020d_digits: "fmt_020d u = digits 20 (unat u)"
  using padded_digits [OF _ unat_width, of u] by (simp add: fmt_020d_def FormatUint_def FormatUint_base_def Let_def)

lemma fmt_020d_less: "fmt_020d a < fmt_020d b \<longleftrightarrow> a < b"
  using digits_less_eq [OF unat_width unat_width, of a b] by (simp add: fmt_020d_digits word_less_nat_alt)

lemma append_less: "p @ xs < p @ ys \<longleftrightarrow> xs < (ys :: 'a :: order list)"
  by (induction p) auto

lemma regionPath_eq: "regionPath a = ''raft/r/'' @ fmt_020d a"
  by (simp add: regionPath_def path_Join_def clusterPath_def fmt_020d_def Let_def)

lemma storePath_eq: "storePath a = ''raft/s/'' @ fmt_020d a"
  by (simp add: storePath_def path_Join_def clusterPath_def fmt_020d_def Let_def)

lemma regionPath_less: "regionPath a < regionPath b \<longleftrightarrow> a < b"
  by (simp only: regionPath_eq append_less fmt_020d_less)

lemma storePath_less: "storePath a < storePath b \<longleftrightarrow> a < b"
  by (simp only: storePath_eq append_less fmt_020d_less)

lemma regionPath_le: "regionPath a \<le> regionPath b \<longleftrightarrow> a \<le> b"
  by (simp add: not_less [symmetric] regionPath_less)

lemma storePath_le: "storePath a \<le> storePath b \<longleftrightarrow> a \<le> b"
  by (simp add: not_less [symmetric] storePath_less)

lemma regionPath_inj [simp]: "regionPath a = regionPath b \<longleftrightarrow> a = b"
  by (metis regionPath_less neq_iff)

lemma storePath_inj [simp]: "storePath a = storePath b \<longleftrightarrow> a = b"
  by (metis storePath_less neq_iff)

lemma store_region_paths [simp]: "storePath a \<noteq> regionPath b" "regionPath b \<noteq> storePath a"
  by (simp_all add: regionPath_eq storePath_eq)

subsection \<open>Scans over keys that print ids\<close>

text \<open>
  A page of a scan, and the rest of the records from the key after the last one of the page on.
\<close>

locale id_keys =
  fixes key :: "u64 \<Rightarrow> string"
  assumes key_less: "key a < key b \<longleftrightarrow> a < b"
begin

lemma key_le: "key a \<le> key b \<longleftrightarrow> a \<le> b"
  by (simp add: not_less [symmetric] key_less)

lemma next_key:
  assumes "i < j" shows "key (i + 1) \<le> key j"
  using assms by (simp add: key_le inc_le)

lemma key_next:
  assumes "i < (- 1 :: u64)" "key (i + 1) \<le> key j"
  shows "i < j"
proof -
  have "unat i < unat (- 1 :: u64)" using assms(1) by (simp only: word_less_nat_alt)
  then have "Suc (unat i) < 2 ^ 64" by (simp add: unsigned_minus_1_eq_mask mask_eq_exp_minus_1)
  then have "unat (i + 1) = Suc (unat i)" by (simp add: unat_word_ariths)
  with assms(2) show ?thesis by (simp add: key_le word_le_nat_alt word_less_nat_alt)
qed

end

interpretation region_keys: id_keys regionPath by unfold_locales (rule regionPath_less)

interpretation store_keys: id_keys storePath by unfold_locales (rule storePath_less)

end
