(* ===== verification/Storage.thy ===== *)
theory Storage
  imports StoragePaths RegionsInfo Store
begin

text \<open>
  \<open>server/core/storage.go\<close>, \<open>server/core/region_storage.go\<close> and \<open>server/kv/levedb_kv.go\<close>: what PD
  keeps on disk. \<open>Storage\<close> writes the cluster, the stores and the regions as protobuf messages to
  a \<open>kv.Base\<close>; regions may go to a second store on LevelDB instead, which collects them in a
  batch before writing.

  LevelDB (\<open>ld\<close>), the generated protobuf code (\<open>pb\<close>) and the text form of a float (\<open>fl\<close>) are
  parameters. Clock readings and the order in which Go ranges over the batch are arguments. The
  JSON form of the configuration is not modelled.
\<close>

subsection \<open>LevelDB\<close>

record 'd leveldb =
  ld_Get :: "'d \<Rightarrow> string \<Rightarrow> kv_error + string"
  ld_Iterate :: "'d \<Rightarrow> string \<Rightarrow> string \<Rightarrow> (string \<times> string) list"
  ld_Put :: "'d \<Rightarrow> string \<Rightarrow> string \<Rightarrow> 'd \<times> kv_error option"
  ld_Delete :: "'d \<Rightarrow> string \<Rightarrow> 'd \<times> kv_error option"
  ld_Write :: "'d \<Rightarrow> (string \<times> string) list \<Rightarrow> 'd \<times> kv_error option"
  ld_Close :: "'d \<Rightarrow> 'd \<times> kv_error option"

definition LeveldbKV_Load :: "'d leveldb \<Rightarrow> 'd \<Rightarrow> string \<Rightarrow> kv_error + string" where
  "LeveldbKV_Load ld d key = ld_Get ld d key"

fun LeveldbKV_loop :: "nat \<Rightarrow> nat \<Rightarrow> string list \<Rightarrow> string list \<Rightarrow> (string \<times> string) list
    \<Rightarrow> string list \<times> string list" where
  "LeveldbKV_loop limit count keys values [] = (keys, values)"
| "LeveldbKV_loop limit count keys values ((k, v) # iter) =
     (if count \<ge> limit then (keys, values)
      else LeveldbKV_loop limit (count + 1) (keys @ [k]) (values @ [v]) iter)"

definition LeveldbKV_LoadRange ::
    "'d leveldb \<Rightarrow> 'd \<Rightarrow> string \<Rightarrow> string \<Rightarrow> nat \<Rightarrow> kv_error + (string list \<times> string list)" where
  "LeveldbKV_LoadRange ld d startKey endKey limit =
     Inr (LeveldbKV_loop limit 0 [] [] (ld_Iterate ld d startKey endKey))"

definition LeveldbKV_Save :: "'d leveldb \<Rightarrow> 'd \<Rightarrow> string \<Rightarrow> string \<Rightarrow> 'd \<times> kv_error option" where
  "LeveldbKV_Save ld d key v = ld_Put ld d key v"

definition LeveldbKV_Remove :: "'d leveldb \<Rightarrow> 'd \<Rightarrow> string \<Rightarrow> 'd \<times> kv_error option" where
  "LeveldbKV_Remove ld d key = ld_Delete ld d key"

definition LeveldbKV :: "'d leveldb \<Rightarrow> 'd kv_base" where
  "LeveldbKV ld = \<lparr>kv_Load = LeveldbKV_Load ld, kv_LoadRange = LeveldbKV_LoadRange ld,
     kv_Save = LeveldbKV_Save ld, kv_Remove = LeveldbKV_Remove ld\<rparr>"

subsection \<open>Messages\<close>

record metapb_Cluster =
  Cluster_Id :: u64
  Cluster_MaxPeerCount :: u32

text \<open>A store message without pointers: the labels stand beside it.\<close>

type_synonym store_msg = "metapb_Store \<times> metapb_StoreLabel list"

definition store_value :: "store_heap \<Rightarrow> metapb_Store \<Rightarrow> store_msg" where
  "store_value h m = (m\<lparr>Store_Labels := []\<rparr>, map (sh_label h) (Store_Labels m))"

text \<open>Decoding a message allocates its labels and the message itself, from \<open>a\<close> on.\<close>

definition alloc_store :: "addr \<Rightarrow> store_heap \<Rightarrow> store_msg \<Rightarrow> addr \<times> store_heap \<times> addr" where
  "alloc_store a h msg =
     (let (m, ls) = msg; n = length ls
      in (a + n,
          \<lparr>sh_store = (sh_store h)(a + n := m\<lparr>Store_Labels := [a ..< a + n]\<rparr>),
           sh_label = (\<lambda>b. if a \<le> b \<and> b < a + n then ls ! (b - a) else sh_label h b)\<rparr>,
          a + n + 1))"

record protos =
  pb_MarshalRegion :: "metapb_Region \<Rightarrow> kv_error + string"
  pb_UnmarshalRegion :: "string \<Rightarrow> kv_error + metapb_Region"
  pb_MarshalStore :: "store_msg \<Rightarrow> kv_error + string"
  pb_UnmarshalStore :: "string \<Rightarrow> kv_error + store_msg"
  pb_MarshalCluster :: "metapb_Cluster \<Rightarrow> kv_error + string"
  pb_UnmarshalCluster :: "string \<Rightarrow> kv_error + metapb_Cluster"

record floats =
  fl_Format :: "real \<Rightarrow> string"
  fl_Parse :: "string \<Rightarrow> kv_error + real"

definition loadProto :: "'s kv_base \<Rightarrow> (string \<Rightarrow> kv_error + 'm) \<Rightarrow> 's \<Rightarrow> string \<Rightarrow> kv_error + 'm option" where
  "loadProto kv unmarshal s key =
     (case kv_Load kv s key of
        Inl e \<Rightarrow> Inl e
      | Inr v \<Rightarrow> if v = [] then Inr None
                 else (case unmarshal v of Inl e \<Rightarrow> Inl e | Inr msg \<Rightarrow> Inr (Some msg)))"

definition saveProto :: "'s kv_base \<Rightarrow> ('m \<Rightarrow> kv_error + string) \<Rightarrow> 's \<Rightarrow> string \<Rightarrow> 'm \<Rightarrow> 's \<times> kv_error option" where
  "saveProto kv marshal s key msg =
     (case marshal msg of Inl e \<Rightarrow> (s, Some e) | Inr v \<Rightarrow> kv_Save kv s key v)"

subsection \<open>Regions: saving in batches\<close>

record 'd RegionStorage =
  rs_LeveldbKV :: 'd
  rs_batchRegions :: "(string, metapb_Region) fmap"
  rs_batchSize :: int
  rs_cacheSize :: int
  rs_flushRate :: duration
  rs_flushTime :: time

definition defaultFlushRegionRate :: duration where
  "defaultFlushRegionRate = 3 * Second"

definition defaultBatchSize :: int where
  "defaultBatchSize = 100"

definition NewRegionStorage :: "time \<Rightarrow> 'd \<Rightarrow> 'd RegionStorage" where
  "NewRegionStorage now d =
     \<lparr>rs_LeveldbKV = d, rs_batchRegions = fmempty, rs_batchSize = defaultBatchSize, rs_cacheSize = 0,
      rs_flushRate = defaultFlushRegionRate, rs_flushTime = now + defaultFlushRegionRate\<rparr>"

fun SaveRegions_batch :: "protos \<Rightarrow> (string \<times> metapb_Region) list \<Rightarrow> (string \<times> string) list
    \<Rightarrow> kv_error + (string \<times> string) list" where
  "SaveRegions_batch pb [] batch = Inr batch"
| "SaveRegions_batch pb ((key, r) # regions) batch =
     (case pb_MarshalRegion pb r of
        Inl e \<Rightarrow> Inl e
      | Inr v \<Rightarrow> SaveRegions_batch pb regions (batch @ [(key, v)]))"

definition range_pairs :: "'k list \<Rightarrow> ('k, 'v) fmap \<Rightarrow> ('k \<times> 'v) list" where
  "range_pairs order m = map (\<lambda>k. (k, the (fmlookup m k))) (filter (fmhas m) order)"

definition LeveldbKV_SaveRegions ::
    "'d leveldb \<Rightarrow> protos \<Rightarrow> string list \<Rightarrow> 'd \<Rightarrow> (string, metapb_Region) fmap \<Rightarrow> 'd \<times> kv_error option" where
  "LeveldbKV_SaveRegions ld pb order d regions =
     (case SaveRegions_batch pb (range_pairs order regions) [] of
        Inl e \<Rightarrow> (d, Some e)
      | Inr batch \<Rightarrow> ld_Write ld d batch)"

definition RegionStorage_flush ::
    "'d leveldb \<Rightarrow> protos \<Rightarrow> string list \<Rightarrow> 'd RegionStorage \<Rightarrow> 'd RegionStorage \<times> kv_error option" where
  "RegionStorage_flush ld pb order s =
     (case LeveldbKV_SaveRegions ld pb order (rs_LeveldbKV s) (rs_batchRegions s) of
        (d, Some e) \<Rightarrow> (s\<lparr>rs_LeveldbKV := d\<rparr>, Some e)
      | (d, None) \<Rightarrow> (s\<lparr>rs_LeveldbKV := d, rs_cacheSize := 0, rs_batchRegions := fmempty\<rparr>, None))"

definition RegionStorage_FlushRegion ::
    "'d leveldb \<Rightarrow> protos \<Rightarrow> string list \<Rightarrow> 'd RegionStorage \<Rightarrow> 'd RegionStorage \<times> kv_error option" where
  "RegionStorage_FlushRegion ld pb order s = RegionStorage_flush ld pb order s"

definition RegionStorage_SaveRegion ::
    "'d leveldb \<Rightarrow> protos \<Rightarrow> string list \<Rightarrow> time \<Rightarrow> 'd RegionStorage \<Rightarrow> metapb_Region
      \<Rightarrow> 'd RegionStorage \<times> kv_error option" where
  "RegionStorage_SaveRegion ld pb order now s region =
     (let batch = fmupd (regionPath (Region_Id region)) region (rs_batchRegions s)
      in if rs_cacheSize s < rs_batchSize s - 1
         then (s\<lparr>rs_batchRegions := batch, rs_cacheSize := rs_cacheSize s + 1,
                 rs_flushTime := now + rs_flushRate s\<rparr>, None)
         else RegionStorage_flush ld pb order (s\<lparr>rs_batchRegions := batch\<rparr>))"

text \<open>One tick of \<open>backgroundFlush\<close>; an error is logged.\<close>

definition backgroundFlush_tick ::
    "'d leveldb \<Rightarrow> protos \<Rightarrow> string list \<Rightarrow> time \<Rightarrow> 'd RegionStorage \<Rightarrow> 'd RegionStorage" where
  "backgroundFlush_tick ld pb order now s =
     (if rs_flushTime s < now then fst (RegionStorage_FlushRegion ld pb order s) else s)"

definition RegionStorage_Close ::
    "'d leveldb \<Rightarrow> protos \<Rightarrow> string list \<Rightarrow> 'd RegionStorage \<Rightarrow> 'd RegionStorage \<times> kv_error option" where
  "RegionStorage_Close ld pb order s =
     (let s = fst (RegionStorage_FlushRegion ld pb order s)
      in case ld_Close ld (rs_LeveldbKV s) of (d, e) \<Rightarrow> (s\<lparr>rs_LeveldbKV := d\<rparr>, e))"

definition deleteRegion :: "'s kv_base \<Rightarrow> 's \<Rightarrow> metapb_Region \<Rightarrow> 's \<times> kv_error option" where
  "deleteRegion kv s region = kv_Remove kv s (regionPath (Region_Id region))"

subsection \<open>Regions: loading\<close>

definition maxKVRangeLimit :: nat where "maxKVRangeLimit = 10000"

definition minKVRangeLimit :: nat where "minKVRangeLimit = 100"

fun delete_overlaps :: "'s kv_base \<Rightarrow> metapb_Region list \<Rightarrow> 's \<Rightarrow> 's \<times> kv_error option" where
  "delete_overlaps kv [] s = (s, None)"
| "delete_overlaps kv (item # items) s =
     (case deleteRegion kv s item of
        (s, Some e) \<Rightarrow> (s, Some e)
      | (s, None) \<Rightarrow> delete_overlaps kv items s)"

text \<open>The loop over one page of values; \<open>None\<close> is a panic in the regions cache.\<close>

fun loadRegions_page ::
    "'s kv_base \<Rightarrow> protos \<Rightarrow> 't region_btree \<Rightarrow> string list \<Rightarrow> u64 \<Rightarrow> 's \<Rightarrow> 't RegionsInfo
      \<Rightarrow> (u64 \<times> 's \<times> 't RegionsInfo \<times> kv_error option) option" where
  "loadRegions_page kv pb bt [] nextID s regions = Some (nextID, s, regions, None)"
| "loadRegions_page kv pb bt (v # res) nextID s regions =
     (case pb_UnmarshalRegion pb v of
        Inl e \<Rightarrow> Some (nextID, s, regions, Some e)
      | Inr region \<Rightarrow>
          (let nextID = Region_Id region + 1
           in case RegionsInfo_SetRegion bt regions (NewRegionInfo region None []) of
                None \<Rightarrow> None
              | Some (regions, evicted) \<Rightarrow>
                  (case delete_overlaps kv evicted s of
                     (s, Some e) \<Rightarrow> Some (nextID, s, regions, Some e)
                   | (s, None) \<Rightarrow> loadRegions_page kv pb bt res nextID s regions)))"

text \<open>The outer loop may not end when stored ids and keys disagree; then the value is \<open>None\<close>.\<close>

partial_function (option) loadRegions_loop ::
    "'s kv_base \<Rightarrow> protos \<Rightarrow> 't region_btree \<Rightarrow> nat \<Rightarrow> u64 \<Rightarrow> 's \<Rightarrow> 't RegionsInfo
      \<Rightarrow> ('s \<times> 't RegionsInfo \<times> kv_error option) option" where
  "loadRegions_loop kv pb bt rangeLimit nextID s regions =
     (case kv_LoadRange kv s (regionPath nextID) (regionPath (- 1)) rangeLimit of
        Inl e \<Rightarrow>
          if rangeLimit div 2 \<ge> minKVRangeLimit
          then loadRegions_loop kv pb bt (rangeLimit div 2) nextID s regions
          else Some (s, regions, Some e)
      | Inr (_, res) \<Rightarrow>
          (case loadRegions_page kv pb bt res nextID s regions of
             None \<Rightarrow> None
           | Some (nextID, s, regions, Some e) \<Rightarrow> Some (s, regions, Some e)
           | Some (nextID, s, regions, None) \<Rightarrow>
               if length res < rangeLimit then Some (s, regions, None)
               else loadRegions_loop kv pb bt rangeLimit nextID s regions))"

definition loadRegions ::
    "'s kv_base \<Rightarrow> protos \<Rightarrow> 't region_btree \<Rightarrow> 's \<Rightarrow> 't RegionsInfo
      \<Rightarrow> ('s \<times> 't RegionsInfo \<times> kv_error option) option" where
  "loadRegions kv pb bt s regions = loadRegions_loop kv pb bt maxKVRangeLimit 0 s regions"

subsection \<open>Storage\<close>

text \<open>\<open>useRegionStorage\<close> without a region storage makes the region operations panic (\<open>None\<close>).\<close>

record ('s, 'd) Storage =
  st_Base :: 's
  st_regionStorage :: "'d RegionStorage option"
  st_useRegionStorage :: bool

definition NewStorage :: "'s \<Rightarrow> ('s, 'd) Storage" where
  "NewStorage base = \<lparr>st_Base = base, st_regionStorage = None, st_useRegionStorage = False\<rparr>"

definition SetRegionStorage :: "('s, 'd) Storage \<Rightarrow> 'd RegionStorage \<Rightarrow> ('s, 'd) Storage" where
  "SetRegionStorage s regionStorage = s\<lparr>st_regionStorage := Some regionStorage\<rparr>"

definition GetRegionStorage :: "('s, 'd) Storage \<Rightarrow> 'd RegionStorage option" where
  "GetRegionStorage s = st_regionStorage s"

definition SwitchToRegionStorage :: "('s, 'd) Storage \<Rightarrow> ('s, 'd) Storage" where
  "SwitchToRegionStorage s = s\<lparr>st_useRegionStorage := True\<rparr>"

definition SwitchToDefaultStorage :: "('s, 'd) Storage \<Rightarrow> ('s, 'd) Storage" where
  "SwitchToDefaultStorage s = s\<lparr>st_useRegionStorage := False\<rparr>"

text \<open>Two results of a write put back into the storage.\<close>

abbreviation with_base :: "('s, 'd) Storage \<Rightarrow> 's \<times> kv_error option \<Rightarrow> ('s, 'd) Storage \<times> kv_error option" where
  "with_base st r \<equiv> (st\<lparr>st_Base := fst r\<rparr>, snd r)"

abbreviation with_regions ::
    "('s, 'd) Storage \<Rightarrow> 'd RegionStorage \<times> kv_error option \<Rightarrow> ('s, 'd) Storage \<times> kv_error option" where
  "with_regions st r \<equiv> (st\<lparr>st_regionStorage := Some (fst r)\<rparr>, snd r)"

abbreviation with_db :: "'d RegionStorage \<Rightarrow> 'd \<times> kv_error option \<Rightarrow> 'd RegionStorage \<times> kv_error option" where
  "with_db rs r \<equiv> (rs\<lparr>rs_LeveldbKV := fst r\<rparr>, snd r)"

definition Storage_LoadMeta :: "'s kv_base \<Rightarrow> protos \<Rightarrow> ('s, 'd) Storage \<Rightarrow> kv_error + metapb_Cluster option" where
  "Storage_LoadMeta kv pb s = loadProto kv (pb_UnmarshalCluster pb) (st_Base s) clusterPath"

definition Storage_SaveMeta ::
    "'s kv_base \<Rightarrow> protos \<Rightarrow> ('s, 'd) Storage \<Rightarrow> metapb_Cluster \<Rightarrow> ('s, 'd) Storage \<times> kv_error option" where
  "Storage_SaveMeta kv pb s meta =
     with_base s (saveProto kv (pb_MarshalCluster pb) (st_Base s) clusterPath meta)"

definition Storage_LoadStore ::
    "'s kv_base \<Rightarrow> protos \<Rightarrow> ('s, 'd) Storage \<Rightarrow> u64 \<Rightarrow> kv_error + store_msg option" where
  "Storage_LoadStore kv pb s storeID = loadProto kv (pb_UnmarshalStore pb) (st_Base s) (storePath storeID)"

definition Storage_SaveStore ::
    "'s kv_base \<Rightarrow> protos \<Rightarrow> ('s, 'd) Storage \<Rightarrow> store_msg \<Rightarrow> ('s, 'd) Storage \<times> kv_error option" where
  "Storage_SaveStore kv pb s store =
     with_base s (saveProto kv (pb_MarshalStore pb) (st_Base s) (storePath (Store_Id (fst store))) store)"

definition Storage_DeleteStore ::
    "'s kv_base \<Rightarrow> ('s, 'd) Storage \<Rightarrow> store_msg \<Rightarrow> ('s, 'd) Storage \<times> kv_error option" where
  "Storage_DeleteStore kv s store = with_base s (kv_Remove kv (st_Base s) (storePath (Store_Id (fst store))))"

definition Storage_LoadRegion ::
    "'s kv_base \<Rightarrow> 'd leveldb \<Rightarrow> protos \<Rightarrow> ('s, 'd) Storage \<Rightarrow> u64 \<Rightarrow> (kv_error + metapb_Region option) option" where
  "Storage_LoadRegion kv ld pb s regionID =
     (if st_useRegionStorage s
      then map_option (\<lambda>rs. loadProto (LeveldbKV ld) (pb_UnmarshalRegion pb) (rs_LeveldbKV rs)
             (regionPath regionID)) (st_regionStorage s)
      else Some (loadProto kv (pb_UnmarshalRegion pb) (st_Base s) (regionPath regionID)))"

definition Storage_LoadRegions ::
    "'s kv_base \<Rightarrow> 'd leveldb \<Rightarrow> protos \<Rightarrow> 't region_btree \<Rightarrow> ('s, 'd) Storage \<Rightarrow> 't RegionsInfo
      \<Rightarrow> (('s, 'd) Storage \<times> 't RegionsInfo \<times> kv_error option) option" where
  "Storage_LoadRegions kv ld pb bt s regions =
     (if st_useRegionStorage s
      then (case st_regionStorage s of
              None \<Rightarrow> None
            | Some rs \<Rightarrow> map_option (\<lambda>(d, r, e). (s\<lparr>st_regionStorage := Some (rs\<lparr>rs_LeveldbKV := d\<rparr>)\<rparr>, r, e))
                (loadRegions (LeveldbKV ld) pb bt (rs_LeveldbKV rs) regions))
      else map_option (\<lambda>(b, r, e). (s\<lparr>st_Base := b\<rparr>, r, e)) (loadRegions kv pb bt (st_Base s) regions))"

definition Storage_SaveRegion ::
    "'s kv_base \<Rightarrow> 'd leveldb \<Rightarrow> protos \<Rightarrow> string list \<Rightarrow> time \<Rightarrow> ('s, 'd) Storage \<Rightarrow> metapb_Region
      \<Rightarrow> (('s, 'd) Storage \<times> kv_error option) option" where
  "Storage_SaveRegion kv ld pb order now s region =
     (if st_useRegionStorage s
      then map_option (\<lambda>rs. with_regions s (RegionStorage_SaveRegion ld pb order now rs region)) (st_regionStorage s)
      else Some (with_base s
             (saveProto kv (pb_MarshalRegion pb) (st_Base s) (regionPath (Region_Id region)) region)))"

definition Storage_DeleteRegion ::
    "'s kv_base \<Rightarrow> 'd leveldb \<Rightarrow> ('s, 'd) Storage \<Rightarrow> metapb_Region \<Rightarrow> (('s, 'd) Storage \<times> kv_error option) option" where
  "Storage_DeleteRegion kv ld s region =
     (if st_useRegionStorage s
      then map_option (\<lambda>rs. with_regions s (with_db rs (deleteRegion (LeveldbKV ld) (rs_LeveldbKV rs) region)))
             (st_regionStorage s)
      else Some (with_base s (deleteRegion kv (st_Base s) region)))"

definition Storage_Flush ::
    "'d leveldb \<Rightarrow> protos \<Rightarrow> string list \<Rightarrow> ('s, 'd) Storage \<Rightarrow> ('s, 'd) Storage \<times> kv_error option" where
  "Storage_Flush ld pb order s =
     (case st_regionStorage s of
        None \<Rightarrow> (s, None)
      | Some rs \<Rightarrow> with_regions s (RegionStorage_FlushRegion ld pb order rs))"

definition Storage_Close ::
    "'d leveldb \<Rightarrow> protos \<Rightarrow> string list \<Rightarrow> ('s, 'd) Storage \<Rightarrow> ('s, 'd) Storage \<times> kv_error option" where
  "Storage_Close ld pb order s =
     (case st_regionStorage s of
        None \<Rightarrow> (s, None)
      | Some rs \<Rightarrow> with_regions s (RegionStorage_Close ld pb order rs))"

definition loadFloatWithDefaultValue ::
    "'s kv_base \<Rightarrow> floats \<Rightarrow> 's \<Rightarrow> string \<Rightarrow> real \<Rightarrow> kv_error + real" where
  "loadFloatWithDefaultValue kv fl s path def =
     (case kv_Load kv s path of
        Inl e \<Rightarrow> Inl e
      | Inr res \<Rightarrow> if res = [] then Inr def else fl_Parse fl res)"

definition Storage_SaveStoreWeight ::
    "'s kv_base \<Rightarrow> floats \<Rightarrow> ('s, 'd) Storage \<Rightarrow> u64 \<Rightarrow> real \<Rightarrow> real \<Rightarrow> ('s, 'd) Storage \<times> kv_error option" where
  "Storage_SaveStoreWeight kv fl s storeID leader region =
     (case kv_Save kv (st_Base s) (storeLeaderWeightPath storeID) (fl_Format fl leader) of
        (b, Some e) \<Rightarrow> (s\<lparr>st_Base := b\<rparr>, Some e)
      | (b, None) \<Rightarrow> with_base s (kv_Save kv b (storeRegionWeightPath storeID) (fl_Format fl region)))"

text \<open>
  \<open>LoadStores\<close> decodes into fresh messages, allocated from \<open>a\<close> on; the result has the next free
  address.
\<close>

fun LoadStores_page ::
    "'s kv_base \<Rightarrow> protos \<Rightarrow> floats \<Rightarrow> 's \<Rightarrow> string list \<Rightarrow> u64 \<Rightarrow> addr \<Rightarrow> store_heap \<Rightarrow> StoresInfo
      \<Rightarrow> kv_error + (u64 \<times> addr \<times> store_heap \<times> StoresInfo)" where
  "LoadStores_page kv pb fl s [] nextID a h stores = Inr (nextID, a, h, stores)"
| "LoadStores_page kv pb fl s (str # res) nextID a h stores =
     (case pb_UnmarshalStore pb str of
        Inl e \<Rightarrow> Inl e
      | Inr msg \<Rightarrow>
          (let (store, h, a) = alloc_store a h msg; storeID = Store_Id (fst msg)
           in case loadFloatWithDefaultValue kv fl s (storeLeaderWeightPath storeID) 1 of
                Inl e \<Rightarrow> Inl e
              | Inr leaderWeight \<Rightarrow>
                  (case loadFloatWithDefaultValue kv fl s (storeRegionWeightPath storeID) 1 of
                     Inl e \<Rightarrow> Inl e
                   | Inr regionWeight \<Rightarrow>
                       (let (h, info) = NewStoreInfo h store [SetLeaderWeight leaderWeight, SetRegionWeight regionWeight]
                        in LoadStores_page kv pb fl s res (storeID + 1) a h (StoresInfo_SetStore h stores info)))))"

partial_function (option) LoadStores_loop ::
    "'s kv_base \<Rightarrow> protos \<Rightarrow> floats \<Rightarrow> 's \<Rightarrow> u64 \<Rightarrow> addr \<Rightarrow> store_heap \<Rightarrow> StoresInfo
      \<Rightarrow> (kv_error + (addr \<times> store_heap \<times> StoresInfo)) option" where
  "LoadStores_loop kv pb fl s nextID a h stores =
     (case kv_LoadRange kv s (storePath nextID) (storePath (- 1)) minKVRangeLimit of
        Inl e \<Rightarrow> Some (Inl e)
      | Inr (_, res) \<Rightarrow>
          (case LoadStores_page kv pb fl s res nextID a h stores of
             Inl e \<Rightarrow> Some (Inl e)
           | Inr (nextID, a, h, stores) \<Rightarrow>
               if length res < minKVRangeLimit then Some (Inr (a, h, stores))
               else LoadStores_loop kv pb fl s nextID a h stores))"

definition Storage_LoadStores ::
    "'s kv_base \<Rightarrow> protos \<Rightarrow> floats \<Rightarrow> ('s, 'd) Storage \<Rightarrow> addr \<Rightarrow> store_heap \<Rightarrow> StoresInfo
      \<Rightarrow> (kv_error + (addr \<times> store_heap \<times> StoresInfo)) option" where
  "Storage_LoadStores kv pb fl s a h stores = LoadStores_loop kv pb fl (st_Base s) 0 a h stores"

definition Storage_SaveGCSafePoint ::
    "'s kv_base \<Rightarrow> ('s, 'd) Storage \<Rightarrow> u64 \<Rightarrow> ('s, 'd) Storage \<times> kv_error option" where
  "Storage_SaveGCSafePoint kv s safePoint =
     with_base s (kv_Save kv (st_Base s) (path_Join gcPath ''safe_point'') (FormatUint_base 16 safePoint))"

definition Storage_LoadGCSafePoint :: "'s kv_base \<Rightarrow> ('s, 'd) Storage \<Rightarrow> kv_error + u64" where
  "Storage_LoadGCSafePoint kv s =
     (case kv_Load kv (st_Base s) (path_Join gcPath ''safe_point'') of
        Inl e \<Rightarrow> Inl e
      | Inr v \<Rightarrow> if v = [] then Inr 0
                 else (case ParseUint_base 16 v of
                         None \<Rightarrow> Inl (KVError ''parse'') | Some safePoint \<Rightarrow> Inr safePoint))"

end
