(* ===== verification/StorageLoad.thy ===== *)
theory StorageLoad
  imports Storage
begin

text \<open>
  Loading the regions at start (\<open>loadRegions\<close> in \<open>server/core/region_storage.go\<close>): the loop over
  pages returns, the cache is what setting the stored regions by increasing id gives, and the
  records of regions that a later one evicts are deleted, so that cache and store agree.
\<close>

definition region_of :: "metapb_Region \<Rightarrow> RegionInfo" where
  "region_of m = NewRegionInfo m None []"

lemma region_of_meta [simp]: "ri_meta (region_of m) = m"
  by (simp add: region_of_def NewRegionInfo_def classifyVoterAndLearner_def apply_opts_def split: prod.splits)

text \<open>
  The regions with ids in \<open>P\<close> are processed: those still cached are stored as they were, the
  evicted ones are deleted; everything else in the store is untouched.
\<close>

definition loaded ::
    "protos \<Rightarrow> (string \<Rightarrow> string option) \<Rightarrow> u64 set \<Rightarrow> (string \<Rightarrow> string option) \<Rightarrow> 't RegionsInfo \<Rightarrow> bool" where
  "loaded pb orig P m r \<longleftrightarrow>
     (\<forall>k. k \<notin> regionPath ` P \<longrightarrow> m k = orig k) \<and>
     (\<forall>i. case RegionsInfo_GetRegion r i of
        None \<Rightarrow> i \<in> P \<longrightarrow> m (regionPath i) = None
      | Some x \<Rightarrow> i \<in> P \<and> (\<exists>v msg. orig (regionPath i) = Some v \<and> m (regionPath i) = Some v \<and>
                    pb_UnmarshalRegion pb v = Inr msg \<and> x = region_of msg))"

lemma loaded_start: "(\<And>i. RegionsInfo_GetRegion r i = None) \<Longrightarrow> loaded pb m {} m r"
  by (simp add: loaded_def)

definition evicted_keys :: "metapb_Region list \<Rightarrow> string set" where
  "evicted_keys ov = regionPath ` Region_Id ` set ov"

lemma loaded_step:
  assumes "loaded pb orig P m r" and new: "Region_Id msg \<notin> P"
    and v: "orig (regionPath (Region_Id msg)) = Some v" "pb_UnmarshalRegion pb v = Inr msg"
    and look: "\<And>j. RegionsInfo_GetRegion r' j = (if j = Region_Id msg then Some (region_of msg) else
       case RegionsInfo_GetRegion r j of None \<Rightarrow> None | Some y \<Rightarrow> if E j then None else Some y)"
    and ids: "\<And>j. j \<in> Region_Id ` set ov \<longleftrightarrow>
       j \<noteq> Region_Id msg \<and> (\<exists>y. RegionsInfo_GetRegion r j = Some y \<and> E j)"
  shows "loaded pb orig (insert (Region_Id msg) P) (\<lambda>k. if k \<in> evicted_keys ov then None else m k) r'"
proof -
  have keys: "regionPath j \<in> evicted_keys ov \<longleftrightarrow> j \<noteq> Region_Id msg \<and> (\<exists>y. RegionsInfo_GetRegion r j = Some y \<and> E j)" for j
    unfolding evicted_keys_def using ids [of j] by auto
  have old: "m k = orig k" if "k \<notin> regionPath ` P" for k using assms(1) that by (simp add: loaded_def)
  have mem: "case RegionsInfo_GetRegion r i of None \<Rightarrow> i \<in> P \<longrightarrow> m (regionPath i) = None
      | Some x \<Rightarrow> i \<in> P \<and> (\<exists>v msg. orig (regionPath i) = Some v \<and> m (regionPath i) = Some v \<and>
                    pb_UnmarshalRegion pb v = Inr msg \<and> x = region_of msg)" for i
    using assms(1) by (simp add: loaded_def)
  have sub: "k \<in> regionPath ` P" if "k \<in> evicted_keys ov" for k
  proof -
    from that obtain j where j: "k = regionPath j" "regionPath j \<in> evicted_keys ov" by (auto simp: evicted_keys_def)
    then show ?thesis using keys [of j] mem [of j] by auto
  qed
  have new': "regionPath (Region_Id msg) \<notin> regionPath ` P" using new by auto
  show ?thesis
    unfolding loaded_def
  proof (intro conjI allI impI)
    fix k assume "k \<notin> regionPath ` insert (Region_Id msg) P"
    then show "(if k \<in> evicted_keys ov then None else m k) = orig k" using sub [of k] old [of k] by auto
  next
    fix i
    show "case RegionsInfo_GetRegion r' i of
        None \<Rightarrow> i \<in> insert (Region_Id msg) P \<longrightarrow> (if regionPath i \<in> evicted_keys ov then None else m (regionPath i)) = None
      | Some x \<Rightarrow> i \<in> insert (Region_Id msg) P \<and> (\<exists>v msg'. orig (regionPath i) = Some v \<and>
          (if regionPath i \<in> evicted_keys ov then None else m (regionPath i)) = Some v \<and>
          pb_UnmarshalRegion pb v = Inr msg' \<and> x = region_of msg')"
    proof (cases "i = Region_Id msg")
      case True
      then show ?thesis using keys [of i] look [of i] v old [OF new'] by simp
    next
      case False
      then show ?thesis using keys [of i] look [of i] mem [of i] by (auto split: option.splits if_splits)
    qed
  qed
qed

lemma sorted_pairs_unique:
  fixes xs ys :: "('k :: linorder \<times> 'v) list"
  assumes "sorted_wrt (\<lambda>p q. fst p < fst q) xs" "sorted_wrt (\<lambda>p q. fst p < fst q) ys" "set xs = set ys"
  shows "xs = ys"
proof -
  have "sorted_wrt (<) (map fst xs)" "sorted_wrt (<) (map fst ys)" using assms(1,2) by (simp_all add: sorted_wrt_map)
  moreover have "set (map fst xs) = set (map fst ys)" using assms(3) by simp
  ultimately have keys: "map fst xs = map fst ys" using strict_sorted_equal by metis
  have "distinct (map fst xs)" using \<open>sorted_wrt (<) (map fst xs)\<close> by (simp add: strict_sorted_iff)
  then have "inj_on fst (set xs)" by (simp add: distinct_map)
  with keys assms(3) show ?thesis by (intro map_inj_on [of fst]) (simp_all add: Un_absorb)
qed

definition record_ok :: "protos \<Rightarrow> string \<times> string \<Rightarrow> bool" where
  "record_ok pb p \<longleftrightarrow> (\<exists>msg. fst p = regionPath (Region_Id msg) \<and> pb_UnmarshalRegion pb (snd p) = Inr msg \<and>
     region_ok (region_of msg))"

definition record_msg :: "protos \<Rightarrow> string \<times> string \<Rightarrow> metapb_Region" where
  "record_msg pb p = projr (pb_UnmarshalRegion pb (snd p))"

lemma record_okD:
  assumes "record_ok pb p"
  shows "fst p = regionPath (Region_Id (record_msg pb p))" "pb_UnmarshalRegion pb (snd p) = Inr (record_msg pb p)"
    "region_ok (region_of (record_msg pb p))"
  using assms by (auto simp: record_ok_def record_msg_def)

definition record_ids :: "protos \<Rightarrow> (string \<times> string) list \<Rightarrow> u64 list" where
  "record_ids pb xs = map (\<lambda>p. Region_Id (record_msg pb p)) xs"

definition region_records :: "u64 \<Rightarrow> (string \<times> string) list \<Rightarrow> (string \<times> string) list" where
  "region_records lo xs = filter (\<lambda>p. regionPath lo \<le> fst p \<and> fst p < regionPath (- 1)) xs"

lemma SetRegions_append:
  "SetRegions bt (xs @ ys) r = (case SetRegions bt xs r of None \<Rightarrow> None | Some r \<Rightarrow> SetRegions bt ys r)"
  by (induction xs arbitrary: r) (auto split: option.splits bind_splits prod.splits)

definition page_limits :: "nat set" where
  "page_limits = {10000, 5000, 2500, 1250, 625, 312, 156}"

lemma page_limits: "n \<in> page_limits \<Longrightarrow> 0 < n \<and> (n \<le> 156 \<or> n div 2 \<in> page_limits \<and> 100 \<le> n div 2)"
  by (auto simp: page_limits_def)

text \<open>The removals a store may fail are taken not to fail; a failure ends the load with the error.\<close>

locale region_load = kv_contract kv inv view
  for kv :: "'s kv_base" and inv :: "'s \<Rightarrow> bool" and view :: "'s \<Rightarrow> (string \<times> string) list" +
  fixes pb :: protos and bt :: "'t region_btree"
  assumes tree: "btree_contract bt regionItem_Less"
    and remove_ok: "inv s \<Longrightarrow> snd (kv_Remove kv s k) = None"
    and page_ok: "inv s \<Longrightarrow> n \<le> 156 \<Longrightarrow> \<exists>res. kv_LoadRange kv s k e n = Inr res"
begin

lemma delete_overlaps_ok:
  "inv s \<Longrightarrow> \<exists>s'. delete_overlaps kv ov s = (s', None) \<and> inv s' \<and>
     map_of (view s') = (\<lambda>k. if k \<in> evicted_keys ov then None else map_of (view s) k)"
proof (induction ov arbitrary: s)
  case Nil
  then show ?case by (simp add: evicted_keys_def)
next
  case (Cons m ov)
  obtain s1 where s1: "kv_Remove kv s (regionPath (Region_Id m)) = (s1, None)"
    using remove_ok [OF Cons.prems] by (metis prod.collapse)
  note r = remove_view [OF Cons.prems s1]
  from Cons.IH [of s1] r obtain s' where "delete_overlaps kv ov s1 = (s', None)" "inv s'"
    "map_of (view s') = (\<lambda>k. if k \<in> evicted_keys ov then None else map_of (view s1) k)" by blast
  with s1 r show ?case by (auto simp: deleteRegion_def evicted_keys_def fun_eq_iff)
qed

lemma page_step:
  assumes "regionsInfo_inv bt r" "inv s" "loaded pb orig P (map_of (view s)) r" "record_ok pb p"
    and "orig (fst p) = Some (snd p)" "Region_Id (record_msg pb p) \<notin> P"
  shows "\<exists>s' r'. loadRegions_page kv pb bt (snd p # res) next' s r =
      loadRegions_page kv pb bt res (Region_Id (record_msg pb p) + 1) s' r' \<and>
    (\<exists>ov. RegionsInfo_SetRegion bt r (region_of (record_msg pb p)) = Some (r', ov)) \<and>
    regionsInfo_inv bt r' \<and> inv s' \<and>
    loaded pb orig (insert (Region_Id (record_msg pb p)) P) (map_of (view s')) r'"
proof -
  let ?m = "record_msg pb p"
  note p = record_okD [OF assms(4)]
  obtain r' ov where r': "RegionsInfo_SetRegion bt r (region_of ?m) = Some (r', ov)" "regionsInfo_inv bt r'"
    "\<And>m. m \<in> set ov \<longleftrightarrow> m \<in> set (tree_regions bt (rsi_tree r)) \<and> Region_Id m \<noteq> Region_Id ?m \<and> overlaps ?m m"
    "\<And>i. RegionsInfo_GetRegion r' i = (if i = Region_Id ?m then Some (region_of ?m) else
       case RegionsInfo_GetRegion r i of None \<Rightarrow> None
       | Some y \<Rightarrow> if overlaps ?m (ri_meta y) then None else Some y)"
    using region_index.SetRegion_inv [OF region_tree_index [OF tree] assms(1) p(3),
        unfolded region_of_meta GetRegion_known [symmetric]] by blast
  obtain s' where s': "delete_overlaps kv ov s = (s', None)" "inv s'"
    "map_of (view s') = (\<lambda>k. if k \<in> evicted_keys ov then None else map_of (view s) k)"
    using delete_overlaps_ok [OF assms(2), of ov] by blast
  let ?E = "\<lambda>j. overlaps ?m (ri_meta (the (RegionsInfo_GetRegion r j)))"
  have tree_iff: "m \<in> set (tree_regions bt (rsi_tree r)) \<longleftrightarrow>
      (\<exists>x. RegionsInfo_GetRegion r (Region_Id m) = Some x \<and> ri_meta x = m)" for m
    using assms(1) by (simp add: regionsInfo_inv_def GetRegion_known)
  have kid: "Region_Id (ri_meta y) = j" if "RegionsInfo_GetRegion r j = Some y" for j y
    using known_id [of r j y] assms(1) that by (simp add: regionsInfo_inv_def GetRegion_known)
  have ids: "j \<in> Region_Id ` set ov \<longleftrightarrow> j \<noteq> Region_Id ?m \<and> (\<exists>y. RegionsInfo_GetRegion r j = Some y \<and> ?E j)" for j
  proof
    assume "j \<in> Region_Id ` set ov"
    then show "j \<noteq> Region_Id ?m \<and> (\<exists>y. RegionsInfo_GetRegion r j = Some y \<and> ?E j)"
      using r'(3) tree_iff by fastforce
  next
    assume "j \<noteq> Region_Id ?m \<and> (\<exists>y. RegionsInfo_GetRegion r j = Some y \<and> ?E j)"
    then obtain y where y: "j \<noteq> Region_Id ?m" "RegionsInfo_GetRegion r j = Some y" "overlaps ?m (ri_meta y)" by auto
    then have "ri_meta y \<in> set ov" using r'(3) tree_iff kid by auto
    with kid y(2) show "j \<in> Region_Id ` set ov" by (metis image_eqI)
  qed
  have "loaded pb orig (insert (Region_Id ?m) P) (map_of (view s')) r'"
    unfolding s'(3)
    using assms(5) p(1) by (intro loaded_step [OF assms(3,6) _ p(2) _ ids]) (auto simp: r'(4) split: option.splits)
  with r'(1,2) s'(1,2) p(2) show ?thesis by (auto simp: Let_def region_of_def)
qed

lemma page_loaded:
  assumes "regionsInfo_inv bt r" "inv s" "loaded pb orig P (map_of (view s)) r"
    and "list_all (record_ok pb) xs" "\<And>p. p \<in> set xs \<Longrightarrow> orig (fst p) = Some (snd p)"
    and "distinct (record_ids pb xs)" "set (record_ids pb xs) \<inter> P = {}"
  shows "\<exists>s' r'. loadRegions_page kv pb bt (map snd xs) next' s r =
      Some (if xs = [] then next' else last (record_ids pb xs) + 1, s', r', None) \<and>
    SetRegions bt (map (\<lambda>p. region_of (record_msg pb p)) xs) r = Some r' \<and>
    regionsInfo_inv bt r' \<and> inv s' \<and> loaded pb orig (P \<union> set (record_ids pb xs)) (map_of (view s')) r'"
  using assms
proof (induction xs arbitrary: r s P next')
  case Nil
  then show ?case by (simp add: record_ids_def)
next
  case (Cons p xs)
  let ?i = "Region_Id (record_msg pb p)"
  have nw: "?i \<notin> P" "?i \<notin> set (record_ids pb xs)" using Cons.prems(6,7) by (auto simp: record_ids_def)
  have ok: "record_ok pb p" "orig (fst p) = Some (snd p)" using Cons.prems(4,5) by auto
  from page_step [OF Cons.prems(1-3) ok nw(1), of "map snd xs" next'] obtain s1 r1 ov where s1:
    "loadRegions_page kv pb bt (snd p # map snd xs) next' s r = loadRegions_page kv pb bt (map snd xs) (?i + 1) s1 r1"
    "RegionsInfo_SetRegion bt r (region_of (record_msg pb p)) = Some (r1, ov)"
    "regionsInfo_inv bt r1" "inv s1" "loaded pb orig (insert ?i P) (map_of (view s1)) r1" by blast
  have "\<exists>s' r'. loadRegions_page kv pb bt (map snd xs) (?i + 1) s1 r1 =
      Some (if xs = [] then ?i + 1 else last (record_ids pb xs) + 1, s', r', None) \<and>
    SetRegions bt (map (\<lambda>p. region_of (record_msg pb p)) xs) r1 = Some r' \<and>
    regionsInfo_inv bt r' \<and> inv s' \<and> loaded pb orig (insert ?i P \<union> set (record_ids pb xs)) (map_of (view s')) r'"
    using Cons.prems(4-7) nw by (intro Cons.IH s1(3-5)) (auto simp: record_ids_def)
  then show ?case using s1(1,2) by (auto simp: record_ids_def simp del: loadRegions_page.simps(2))
qed

lemma records_sorted: "inv s \<Longrightarrow> sorted_wrt (\<lambda>p q. fst p < fst q) (region_records lo (view s))"
  by (simp add: region_records_def sorted_wrt_filter view_sorted)

lemma records_mem:
  "inv s \<Longrightarrow> p \<in> set (region_records lo (view s)) \<longleftrightarrow>
     map_of (view s) (fst p) = Some (snd p) \<and> regionPath lo \<le> fst p \<and> fst p < regionPath (- 1)"
  using view_distinct [of s] by (cases p) (auto simp: region_records_def)

lemma rest_records:
  assumes "inv s" "inv s'" "list_all (record_ok pb) (region_records lo (view s))"
    and "take n (region_records lo (view s)) = xs @ [p]"
    and same: "\<And>k. regionPath (Region_Id (record_msg pb p) + 1) \<le> k \<Longrightarrow> map_of (view s') k = map_of (view s) k"
  shows "region_records (Region_Id (record_msg pb p) + 1) (view s') = drop n (region_records lo (view s))"
proof (rule sorted_pairs_unique [OF records_sorted [OF assms(2)]])
  let ?L = "region_records lo (view s)" and ?i = "Region_Id (record_msg pb p)"
  have L: "?L = (xs @ [p]) @ drop n ?L" using assms(4) by (metis append_take_drop_id)
  have srt: "sorted_wrt (\<lambda>p q. fst p < fst q) ((xs @ [p]) @ drop n ?L)"
    using records_sorted [OF assms(1), of lo] L by simp
  then show "sorted_wrt (\<lambda>p q. fst p < fst q) (drop n ?L)" by (simp add: sorted_wrt_append)
  have pin: "p \<in> set ?L" by (subst L) simp
  then have fp: "fst p = regionPath ?i" "fst p < regionPath (- 1)" "regionPath lo \<le> fst p"
    using assms(1,3) record_okD(1) [of pb p] by (auto simp: list_all_iff records_mem)
  have imax: "?i < - 1" using fp by (simp add: regionPath_less)
  have key: "regionPath (?i + 1) \<le> fst q \<longleftrightarrow> fst p < fst q" if "q \<in> set ?L" for q
  proof -
    have fq: "fst q = regionPath (Region_Id (record_msg pb q))"
      using that assms(3) record_okD(1) by (auto simp: list_all_iff)
    show ?thesis unfolding fq fp(1) regionPath_less
      using region_keys.key_next [OF imax] region_keys.next_key by blast
  qed
  have rest: "q \<in> set (drop n ?L) \<longleftrightarrow> q \<in> set ?L \<and> fst p < fst q" for q
  proof -
    have "q \<in> set ?L \<longleftrightarrow> q \<in> set xs \<or> q = p \<or> q \<in> set (drop n ?L)" by (subst L) auto
    moreover have "q \<in> set xs \<Longrightarrow> fst q < fst p" "q \<in> set (drop n ?L) \<Longrightarrow> fst p < fst q"
      using srt by (auto simp: sorted_wrt_append)
    ultimately show ?thesis by auto
  qed
  have lo: "regionPath lo \<le> k" if "regionPath (?i + 1) \<le> k" for k
    using fp(1,3) that region_keys.key_next [OF imax, of "?i + 1"] by (simp add: regionPath_less [symmetric])
  show "set (region_records (?i + 1) (view s')) = set (drop n ?L)"
  proof (rule set_eqI)
    fix q
    show "q \<in> set (region_records (?i + 1) (view s')) \<longleftrightarrow> q \<in> set (drop n ?L)"
      unfolding rest
      using key [of q] same [of "fst q"] lo [of "fst q"]
      by (auto simp: records_mem [OF assms(1)] records_mem [OF assms(2)])
  qed
qed

lemma fresh_records:
  assumes "inv s" "loaded pb orig P (map_of (view s)) r" "P \<subseteq> {..< lo}"
    and "list_all (record_ok pb) (region_records lo (view s))" "p \<in> set (region_records lo (view s))"
  shows "orig (fst p) = Some (snd p)" "lo \<le> Region_Id (record_msg pb p)"
proof -
  let ?i = "Region_Id (record_msg pb p)"
  have fp: "fst p = regionPath ?i" using assms(4,5) record_okD(1) by (auto simp: list_all_iff)
  have m: "map_of (view s) (fst p) = Some (snd p)" "regionPath lo \<le> fst p"
    using assms(1,5) by (simp_all add: records_mem)
  then show lo: "lo \<le> ?i" by (simp add: fp regionPath_le)
  then have "?i \<notin> P" using assms(3) by auto
  then have "fst p \<notin> regionPath ` P" by (auto simp: fp)
  with assms(2) m(1) show "orig (fst p) = Some (snd p)" by (simp add: loaded_def)
qed

lemma records_distinct:
  assumes "inv s" "list_all (record_ok pb) (region_records lo (view s))"
  shows "distinct (record_ids pb (region_records lo (view s)))"
proof -
  let ?L = "region_records lo (view s)"
  have "map regionPath (record_ids pb ?L) = map fst ?L"
    using assms(2) by (simp add: record_ids_def list_all_iff record_okD(1) [symmetric])
  moreover have "distinct (map fst ?L)"
    using records_sorted [OF assms(1), of lo] sorted_wrt_distinct [of "(<)" "map fst ?L"] by (simp add: sorted_wrt_map)
  ultimately show ?thesis by (metis distinct_map)
qed

lemma LoadRange_page:
  assumes "inv s" "kv_LoadRange kv s (regionPath lo) (regionPath (- 1)) n = Inr (ks, vs)" "0 < n"
  shows "vs = map snd (take n (region_records lo (view s)))"
  using range_view [OF assms] by (metis map_snd_zip region_records_def)

lemma page_of_records:
  assumes "regionsInfo_inv bt r" "inv s" "loaded pb orig P (map_of (view s)) r" "P \<subseteq> {..< lo}"
    and "list_all (record_ok pb) (region_records lo (view s))"
  shows "\<exists>s' r'. loadRegions_page kv pb bt (map snd (take n (region_records lo (view s)))) lo s r =
      Some (if take n (region_records lo (view s)) = [] then lo
            else last (record_ids pb (take n (region_records lo (view s)))) + 1, s', r', None) \<and>
    SetRegions bt (map (\<lambda>p. region_of (record_msg pb p)) (take n (region_records lo (view s)))) r = Some r' \<and>
    regionsInfo_inv bt r' \<and> inv s' \<and>
    loaded pb orig (P \<union> set (record_ids pb (take n (region_records lo (view s))))) (map_of (view s')) r'"
proof (rule page_loaded [OF assms(1-3)])
  let ?L = "region_records lo (view s)"
  note fresh = fresh_records [OF assms(2-5)]
  show "list_all (record_ok pb) (take n ?L)" using assms(5) by (auto simp: list_all_iff dest: in_set_takeD)
  show "distinct (record_ids pb (take n ?L))"
    using records_distinct [OF assms(2,5)] by (simp add: record_ids_def take_map [symmetric] distinct_take)
  show "set (record_ids pb (take n ?L)) \<inter> P = {}"
    using fresh(2) assms(4) by (force simp: record_ids_def dest: in_set_takeD)
  show "orig (fst p) = Some (snd p)" if "p \<in> set (take n ?L)" for p
    using fresh(1) that by (auto dest: in_set_takeD)
qed

lemma full_page:
  assumes "inv s" "inv s'" "loaded pb orig P (map_of (view s)) r" "P \<subseteq> {..< lo}"
    and "list_all (record_ok pb) (region_records lo (view s))"
    and "loaded pb orig (P \<union> set (record_ids pb (take n (region_records lo (view s))))) (map_of (view s')) r'"
    and xs: "take n (region_records lo (view s)) = xs @ [p]"
  defines "i \<equiv> Region_Id (record_msg pb p)"
  shows "P \<union> set (record_ids pb (take n (region_records lo (view s)))) \<subseteq> {..< i + 1}"
    and "region_records (i + 1) (view s') = drop n (region_records lo (view s))"
proof -
  let ?L = "region_records lo (view s)"
  have sub: "set (xs @ [p]) \<subseteq> set ?L" using set_take_subset [of n ?L] unfolding xs .
  have pL: "p \<in> set ?L" using sub by simp
  have key: "fst q = regionPath (Region_Id (record_msg pb q))" if "q \<in> set ?L" for q
    using that assms(5) record_okD(1) by (auto simp: list_all_iff)
  have imax: "i < - 1" using pL key [OF pL] by (simp add: records_mem [OF assms(1)] regionPath_less i_def)
  have lo: "lo \<le> i" using fresh_records(2) [OF assms(1,3-5) pL] by (simp add: i_def)
  have up: "j \<le> i \<Longrightarrow> j < i + 1" for j
    using region_keys.key_next [OF imax, of "i + 1"] by simp
  have "sorted_wrt (\<lambda>p q. fst p < fst q) (xs @ [p])"
    using records_sorted [OF assms(1), of lo] by (metis xs sorted_wrt_take)
  then have ids: "Region_Id (record_msg pb q) \<le> i" if "q \<in> set (xs @ [p])" for q
  proof -
    have "fst q \<le> fst p" using \<open>sorted_wrt _ _\<close> that by (auto simp: sorted_wrt_append)
    moreover have "q \<in> set ?L" using that sub by blast
    ultimately show ?thesis unfolding key [OF \<open>q \<in> set ?L\<close>] key [OF pL] regionPath_le i_def by blast
  qed
  show P: "P \<union> set (record_ids pb (take n ?L)) \<subseteq> {..< i + 1}"
  proof -
    have "set (record_ids pb (xs @ [p])) \<subseteq> {..i}" using ids by (auto simp: record_ids_def)
    moreover have "P \<subseteq> {..i}" using assms(4) lo by auto
    moreover have "{..i} \<subseteq> {..< i + 1}" using up by auto
    ultimately show ?thesis unfolding xs by blast
  qed
  have "map_of (view s') k = map_of (view s) k" if "regionPath (i + 1) \<le> k" for k
  proof -
    have "k \<notin> regionPath ` (P \<union> set (record_ids pb (take n ?L)))"
    proof
      assume "k \<in> regionPath ` (P \<union> set (record_ids pb (take n ?L)))"
      then obtain j where "k = regionPath j" "j < i + 1" using P by blast
      with that show False by (simp add: regionPath_le)
    qed
    then have "k \<notin> regionPath ` P" "k \<notin> regionPath ` (P \<union> set (record_ids pb (take n ?L)))" by blast+
    with assms(3,6) show ?thesis unfolding loaded_def by metis
  qed
  from rest_records [OF assms(1,2,5) xs this [unfolded i_def]]
  show "region_records (i + 1) (view s') = drop n ?L" by (simp add: i_def)
qed

lemma loop_loaded:
  assumes "regionsInfo_inv bt r" "inv s" "loaded pb orig P (map_of (view s)) r" "P \<subseteq> {..< lo}"
    and "list_all (record_ok pb) (region_records lo (view s))" "n \<in> page_limits"
  shows "\<exists>s' r'. loadRegions_loop kv pb bt n lo s r = Some (s', r', None) \<and>
    SetRegions bt (map (\<lambda>p. region_of (record_msg pb p)) (region_records lo (view s))) r = Some r' \<and>
    regionsInfo_inv bt r' \<and> inv s' \<and>
    loaded pb orig (P \<union> set (record_ids pb (region_records lo (view s)))) (map_of (view s')) r'"
  using assms
proof (induction "length (region_records lo (view s)) + n" arbitrary: r s P lo n rule: less_induct)
  case less
  let ?L = "region_records lo (view s)"
  note n = page_limits [OF less.prems(6)]
  show ?case
  proof (cases "kv_LoadRange kv s (regionPath lo) (regionPath (- 1)) n")
    case (Inl e)
    then have "n div 2 \<in> page_limits" "100 \<le> n div 2"
      using n page_ok [OF less.prems(2), of n "regionPath lo" "regionPath (- 1)"] by auto
    moreover from this n have "length ?L + n div 2 < length ?L + n" by simp
    ultimately show ?thesis
      using less.hyps [of lo s "n div 2" r P] less.prems(1-5) Inl
      by (subst loadRegions_loop.simps) (simp add: minKVRangeLimit_def)
  next
    case (Inr res)
    obtain ks vs where "res = (ks, vs)" by (cases res)
    with Inr have Inr: "kv_LoadRange kv s (regionPath lo) (regionPath (- 1)) n = Inr (ks, vs)" by simp
    then have vs: "vs = map snd (take n ?L)" using LoadRange_page [OF less.prems(2)] n by blast
    obtain s1 r1 where s1: "loadRegions_page kv pb bt vs lo s r =
        Some (if take n ?L = [] then lo else last (record_ids pb (take n ?L)) + 1, s1, r1, None)"
      "SetRegions bt (map (\<lambda>p. region_of (record_msg pb p)) (take n ?L)) r = Some r1"
      "regionsInfo_inv bt r1" "inv s1" "loaded pb orig (P \<union> set (record_ids pb (take n ?L))) (map_of (view s1)) r1"
      using page_of_records [OF less.prems(1-5), of n] unfolding vs by blast
    show ?thesis
    proof (cases "length ?L < n")
      case True
      then show ?thesis using s1 Inr vs by (subst loadRegions_loop.simps) simp
    next
      case False
      then obtain xs p where xs: "take n ?L = xs @ [p]"
        using n by (metis append_butlast_last_id length_greater_0_conv length_take min.absorb2 not_less)
      let ?i = "Region_Id (record_msg pb p)" and ?P = "P \<union> set (record_ids pb (take n ?L))"
      note full = full_page [OF less.prems(2) s1(4) less.prems(3-5) s1(5) xs]
      have next': "(if take n ?L = [] then lo else last (record_ids pb (take n ?L)) + 1) = ?i + 1"
        by (simp add: xs record_ids_def)
      have L: "take n ?L @ drop n ?L = ?L" by (rule append_take_drop_id)
      have "length (drop n ?L) + n < length ?L + n" using n False by simp
      moreover have "list_all (record_ok pb) (drop n ?L)"
        using less.prems(5) by (auto simp: list_all_iff dest: in_set_dropD)
      ultimately obtain s' r' where s': "loadRegions_loop kv pb bt n (?i + 1) s1 r1 = Some (s', r', None)"
        "SetRegions bt (map (\<lambda>p. region_of (record_msg pb p)) (drop n ?L)) r1 = Some r'"
        "regionsInfo_inv bt r'" "inv s'" "loaded pb orig (?P \<union> set (record_ids pb (drop n ?L))) (map_of (view s')) r'"
        using less.hyps [of "?i + 1" s1 n r1 ?P] s1(3-5) full less.prems(6) by auto
      have "SetRegions bt (map (\<lambda>p. region_of (record_msg pb p)) ?L) r = Some r'"
        by (subst L [symmetric]) (simp add: SetRegions_append s1(2) s'(2) del: append_take_drop_id)
      moreover have "?P \<union> set (record_ids pb (drop n ?L)) = P \<union> set (record_ids pb ?L)"
        by (subst L [symmetric]) (simp add: record_ids_def image_Un Un_assoc del: append_take_drop_id)
      moreover have "loadRegions_loop kv pb bt n lo s r = Some (s', r', None)"
        using s1(1) [unfolded next'] s'(1) Inr vs False by (subst loadRegions_loop.simps) simp
      ultimately show ?thesis using s'(3-5) by auto
    qed
  qed
qed

end

interpretation mem_load: region_load "memoryKV (list_btree memoryKVItem_Less)"
    "bt_ordered (list_btree memoryKVItem_Less) memoryKVItem_Less" "kv_items (list_btree memoryKVItem_Less)"
    pb "list_btree regionItem_Less" for pb
  by unfold_locales
    (simp_all add: list_region_contract memoryKV_def memoryKV_LoadRange_def memoryKV_Remove_def)

subsection \<open>Properties\<close>

text \<open>
  (C35) Loading the regions. When scans of up to 156 records and removals do not fail, and every
  record in the key range of the regions decodes to a well-formed region filed under its id,
  \<open>loadRegions\<close> ends without error. The cache is what \<open>SetRegion\<close> gives for the stored regions in
  the order of their ids. A region is cached exactly when its record is still in the store, with
  the message it had; the records of evicted regions are gone, all other keys are untouched.
\<close>
theorem loadRegions_correct:
  assumes "btree_contract bt regionItem_Less" "kv_contract kv I view" "I s"
    and "\<And>s k e n. I s \<Longrightarrow> n \<le> 156 \<Longrightarrow> \<exists>res. kv_LoadRange kv s k e n = Inr res"
    and "\<And>s k. I s \<Longrightarrow> snd (kv_Remove kv s k) = None"
    and "list_all (record_ok pb) (region_records 0 (view s))"
  shows "\<exists>s' r. loadRegions kv pb bt s (NewRegionsInfo bt) = Some (s', r, None) \<and>
    regionsInfo_inv bt r \<and> I s' \<and>
    SetRegions bt (map (\<lambda>p. region_of (record_msg pb p)) (region_records 0 (view s))) (NewRegionsInfo bt) = Some r \<and>
    loaded pb (map_of (view s)) (set (record_ids pb (region_records 0 (view s)))) (map_of (view s')) r"
proof -
  have load: "region_load kv I view bt"
    using assms(1,2,4,5) by (simp add: region_load_def region_load_axioms_def)
  have new: "RegionsInfo_GetRegion (NewRegionsInfo bt) i = None" for i
    by (simp add: RegionsInfo_GetRegion_def NewRegionsInfo_def)
  show ?thesis
    using region_load.loop_loaded [OF load region_index.New_inv [OF region_tree_index [OF assms(1)]] assms(3)
        loaded_start [OF new] _ assms(6), of 10000]
    by (auto simp: loadRegions_def maxKVRangeLimit_def page_limits_def)
qed

definition sample_pb :: protos where
  "sample_pb = \<lparr>
     pb_MarshalRegion = (\<lambda>m. Inr (replicate (unat (Region_Id m)) (CHR ''x''))),
     pb_UnmarshalRegion = (\<lambda>v. Inr (ri_meta (sample_info (of_nat (length v)) [] []))),
     pb_MarshalStore = (\<lambda>m. Inr (Store_Address (fst m))), pb_UnmarshalStore = (\<lambda>v. Inl (KVError v)),
     pb_MarshalCluster = (\<lambda>m. Inr ''cluster''), pb_UnmarshalCluster = (\<lambda>v. Inl (KVError v))\<rparr>"

lemma record_ok_iff:
  "record_ok pb p \<longleftrightarrow> (case pb_UnmarshalRegion pb (snd p) of Inl _ \<Rightarrow> False
     | Inr msg \<Rightarrow> fst p = regionPath (Region_Id msg) \<and> region_ok (region_of msg))"
  by (auto simp: record_ok_def split: sum.splits)

theorem loadRegions_correct_witness:
  "\<exists>s' r. loadRegions (memoryKV (list_btree memoryKVItem_Less)) sample_pb (list_btree regionItem_Less)
      [MemoryKVItem ''raft'' ''c'', MemoryKVItem (regionPath 3) ''xxx'', MemoryKVItem (regionPath 4) ''xxxx'']
      (NewRegionsInfo (list_btree regionItem_Less)) = Some (s', r, None) \<and>
    RegionsInfo_GetRegion r 3 = None \<and> RegionsInfo_GetRegion r 4 \<noteq> None"
proof -
  let ?s = "[MemoryKVItem ''raft'' ''c'', MemoryKVItem (regionPath 3) ''xxx'', MemoryKVItem (regionPath 4) ''xxxx'']"
  let ?view = "kv_items (list_btree memoryKVItem_Less)" and ?I = "bt_ordered (list_btree memoryKVItem_Less) memoryKVItem_Less"
  let ?rs = "[(regionPath 3, ''xxx''), (regionPath 4, ''xxxx'')]"
  have raft: "\<not> regionPath 0 \<le> ''raft''" "''raft'' < regionPath i" for i by (simp_all add: regionPath_eq)
  have view: "?view ?s = (''raft'', ''c'') # ?rs" by (simp add: kv_items_def list_btree_def)
  have recs: "region_records 0 (?view ?s) = ?rs"
    unfolding view by (simp add: region_records_def raft(1) regionPath_le regionPath_less)
  have "region_ok (region_of (ri_meta (sample_info 3 [] [])))" "region_ok (region_of (ri_meta (sample_info 4 [] [])))"
    "Region_Id (ri_meta (sample_info 3 [] [])) = 3" "Region_Id (ri_meta (sample_info 4 [] [])) = 4" by code_simp+
  then have "list_all (record_ok sample_pb) ?rs" by (simp add: record_ok_iff sample_pb_def)
  then have ok: "list_all (record_ok sample_pb) (region_records 0 (?view ?s))" unfolding recs .
  have I: "?I ?s" by (simp add: bt_ordered_def list_btree_def memoryKVItem_Less_def raft(2) regionPath_less)
  let ?kv = "memoryKV (list_btree memoryKVItem_Less)"
  have kv: "?I s \<Longrightarrow> n \<le> 156 \<Longrightarrow> \<exists>res. kv_LoadRange ?kv s k e n = Inr res"
    "?I s \<Longrightarrow> snd (kv_Remove ?kv s k) = None" for s k e n
    by (simp_all add: memoryKV_def memoryKV_LoadRange_def memoryKV_Remove_def)
  note load = loadRegions_correct [where kv = ?kv and I = ?I and view = ?view and s = ?s and pb = sample_pb,
      OF list_region_contract mem_list.mem.kv_contract_axioms I]
  have load: "P" if "\<And>s' r. loadRegions ?kv sample_pb (list_btree regionItem_Less) ?s
      (NewRegionsInfo (list_btree regionItem_Less)) = Some (s', r, None) \<Longrightarrow>
      SetRegions (list_btree regionItem_Less) (map (\<lambda>p. region_of (record_msg sample_pb p)) (region_records 0 (?view ?s)))
      (NewRegionsInfo (list_btree regionItem_Less)) = Some r \<Longrightarrow> P" for P
    by (rule load [OF kv ok, THEN exE], assumption, assumption, assumption) (erule exE, elim conjE, rule that)
  obtain s' r where r: "loadRegions (memoryKV (list_btree memoryKVItem_Less)) sample_pb (list_btree regionItem_Less) ?s
      (NewRegionsInfo (list_btree regionItem_Less)) = Some (s', r, None)"
    "SetRegions (list_btree regionItem_Less) (map (\<lambda>p. region_of (record_msg sample_pb p)) ?rs)
      (NewRegionsInfo (list_btree regionItem_Less)) = Some r"
    by (rule load) (rule that, assumption, unfold recs)
  have "map (\<lambda>p. region_of (record_msg sample_pb p)) ?rs =
      [region_of (ri_meta (sample_info 3 [] [])), region_of (ri_meta (sample_info 4 [] []))]"
    by (simp add: record_msg_def sample_pb_def)
  moreover have "map_option (\<lambda>r. (RegionsInfo_GetRegion r 3 = None, RegionsInfo_GetRegion r 4 = None))
      (SetRegions (list_btree regionItem_Less)
        [region_of (ri_meta (sample_info 3 [] [])), region_of (ri_meta (sample_info 4 [] []))]
        (NewRegionsInfo (list_btree regionItem_Less))) = Some (True, False)" by code_simp
  ultimately show ?thesis using r by simp
qed

end
