(* ===== verification/StorageBatch.thy ===== *)
theory StorageBatch
  imports StorageLoad
begin

text \<open>
  The region storage (\<open>server/core/region_storage.go\<close> over \<open>server/kv/levedb_kv.go\<close>): what LevelDB is
  relied on for, that the wrapper is a \<open>kv.Base\<close>, and what becomes of regions saved in batches.
\<close>

subsection \<open>LevelDB as a store\<close>

text \<open>
  A read of a missing key is an error, a batch is written as a whole or not at all, and the
  iterator runs over the half-open range in key order.
\<close>

locale leveldb_contract =
  fixes ld :: "'d leveldb" and ldinv :: "'d \<Rightarrow> bool" and ldview :: "'d \<Rightarrow> (string \<times> string) list"
  assumes ld_sorted: "ldinv d \<Longrightarrow> sorted_wrt (\<lambda>p q. fst p < fst q) (ldview d)"
    and ld_get: "ldinv d \<Longrightarrow> ld_Get ld d k = Inr v \<longleftrightarrow> map_of (ldview d) k = Some v"
    and ld_iterate: "ldinv d \<Longrightarrow> ld_Iterate ld d k e = filter (\<lambda>p. k \<le> fst p \<and> fst p < e) (ldview d)"
    and ld_put: "ldinv d \<Longrightarrow> ld_Put ld d k v = (d', err) \<Longrightarrow>
      ldinv d' \<and> map_of (ldview d') = (if err = None then (map_of (ldview d))(k \<mapsto> v) else map_of (ldview d))"
    and ld_delete: "ldinv d \<Longrightarrow> ld_Delete ld d k = (d', err) \<Longrightarrow>
      ldinv d' \<and> map_of (ldview d') = (if err = None then (map_of (ldview d))(k := None) else map_of (ldview d))"
    and ld_write: "ldinv d \<Longrightarrow> ld_Write ld d batch = (d', err) \<Longrightarrow>
      ldinv d' \<and> map_of (ldview d') = (if err = None then fold (\<lambda>(k, v) m. m(k \<mapsto> v)) batch (map_of (ldview d))
        else map_of (ldview d))"
begin

lemma ld_distinct: "ldinv d \<Longrightarrow> distinct (map fst (ldview d))"
  using ld_sorted [of d] sorted_wrt_distinct [of "(<)" "map fst (ldview d)"] by (simp add: sorted_wrt_map)

end

lemma LeveldbKV_loop_eq:
  "count = length keys \<Longrightarrow> length keys = length values \<Longrightarrow>
   LeveldbKV_loop limit count keys values iter =
     (keys @ map fst (take (limit - count) iter), values @ map snd (take (limit - count) iter))"
proof (induction iter arbitrary: count keys "values")
  case (Cons p iter)
  then show ?case
    using Cons.IH [of "Suc count" "keys @ [fst p]" "values @ [snd p]"]
    by (cases p) (simp add: take_Cons')
qed simp

sublocale leveldb_contract \<subseteq> kvl: kv_contract "LeveldbKV ld" ldinv ldview
proof unfold_locales
  fix s k v s' err e n ks vs
  assume inv: "ldinv s"
  show "sorted_wrt (\<lambda>p q. fst p < fst q) (ldview s)" by (rule ld_sorted [OF inv])
  show "v = (case map_of (ldview s) k of None \<Rightarrow> [] | Some v \<Rightarrow> v)" if "kv_Load (LeveldbKV ld) s k = Inr v"
    using that ld_get [OF inv] by (simp add: LeveldbKV_def LeveldbKV_Load_def)
  show "ldinv s' \<and> (map_of (ldview s') = (map_of (ldview s))(k \<mapsto> v) \<or> err \<noteq> None \<and> map_of (ldview s') = map_of (ldview s))"
    if "kv_Save (LeveldbKV ld) s k v = (s', err)"
    using that ld_put [OF inv, of k v s' err] by (simp add: LeveldbKV_def LeveldbKV_Save_def split: if_splits)
  show "ldinv s' \<and> (map_of (ldview s') = (map_of (ldview s))(k := None) \<or> err \<noteq> None \<and> map_of (ldview s') = map_of (ldview s))"
    if "kv_Remove (LeveldbKV ld) s k = (s', err)"
    using that ld_delete [OF inv, of k s' err] by (simp add: LeveldbKV_def LeveldbKV_Remove_def split: if_splits)
  show "zip ks vs = take n (filter (\<lambda>p. k \<le> fst p \<and> fst p < e) (ldview s)) \<and> length ks = length vs"
    if "kv_LoadRange (LeveldbKV ld) s k e n = Inr (ks, vs)" "0 < n"
    using that by (auto simp: LeveldbKV_def LeveldbKV_LoadRange_def LeveldbKV_loop_eq ld_iterate [OF inv] zip_map_fst_snd)
qed

subsection \<open>The batch\<close>

definition batch_ok :: "'d RegionStorage \<Rightarrow> bool" where
  "batch_ok s \<longleftrightarrow> (\<forall>k m. fmlookup (rs_batchRegions s) k = Some m \<longrightarrow> k = regionPath (Region_Id m)) \<and>
     int (fmlen (rs_batchRegions s)) \<le> rs_cacheSize s \<and> rs_cacheSize s < rs_batchSize s"

lemma SaveRegions_batch_eq:
  "list_all (\<lambda>(k, r). pb_MarshalRegion pb r = Inr (f r)) prs \<Longrightarrow>
     SaveRegions_batch pb prs acc = Inr (acc @ map (\<lambda>(k, r). (k, f r)) prs)"
  by (induction prs arbitrary: acc) auto

lemma fold_upd_pairs:
  "distinct (map fst prs) \<Longrightarrow> fold (\<lambda>(k, v) m. m(k \<mapsto> v)) prs m k = (case map_of prs k of None \<Rightarrow> m k | Some v \<Rightarrow> Some v)"
proof (induction prs arbitrary: m)
  case (Cons p prs)
  then have "fst p \<notin> fst ` set prs" by simp
  then have "map_of prs (fst p) = None" by (simp add: map_of_eq_None_iff)
  with Cons show ?case by (cases p) (auto split: option.splits)
qed simp

lemma range_pairs_map:
  assumes "map_order ks m"
  shows "distinct (map fst (range_pairs ks m))" "map_of (range_pairs ks m) k = fmlookup m k"
    "(k, r) \<in> set (range_pairs ks m) \<Longrightarrow> fmlookup m k = Some r"
proof -
  have ks: "distinct ks" "\<And>k. k \<in> set ks \<longleftrightarrow> fmlookup m k \<noteq> None" using assms by (auto simp: map_order_iff)
  show d: "distinct (map fst (range_pairs ks m))" using ks(1) by (simp add: range_pairs_def comp_def)
  have mem: "(k, r) \<in> set (range_pairs ks m) \<longleftrightarrow> fmlookup m k = Some r" for k r
    using ks(2) by (auto simp: range_pairs_def fmhas_def)
  show "(k, r) \<in> set (range_pairs ks m) \<Longrightarrow> fmlookup m k = Some r" by (simp add: mem)
  show "map_of (range_pairs ks m) k = fmlookup m k"
    by (rule option_ext) (simp add: map_of_eq_Some_iff [OF d] mem)
qed

lemma fmlen_fmupd_le: "fmlen (fmupd k v m) \<le> Suc (fmlen m)"
  by (simp add: fmlen_fmupd)

text \<open>
  The assumptions under which saved regions reach the disk: the messages with \<open>msg_ok\<close> encode and
  decode, batches are written without error; \<open>ord m\<close> is the order in which Go ranges over the map \<open>m\<close>.
\<close>

locale region_batches = leveldb_contract ld ldinv ldview
  for ld :: "'d leveldb" and ldinv :: "'d \<Rightarrow> bool" and ldview :: "'d \<Rightarrow> (string \<times> string) list" +
  fixes pb :: protos and msg_ok :: "metapb_Region \<Rightarrow> bool" and enc :: "metapb_Region \<Rightarrow> string"
    and ord :: "(string, metapb_Region) fmap \<Rightarrow> string list"
  assumes marshal: "msg_ok r \<Longrightarrow> pb_MarshalRegion pb r = Inr (enc r)"
    and unmarshal: "msg_ok r \<Longrightarrow> pb_UnmarshalRegion pb (enc r) = Inr r"
    and enc_nonempty: "msg_ok r \<Longrightarrow> enc r \<noteq> []"
    and write_ok: "ldinv d \<Longrightarrow> snd (ld_Write ld d batch) = None"
    and ord: "map_order (ord m) m"
begin

definition msgs_ok :: "'d RegionStorage \<Rightarrow> bool" where
  "msgs_ok s \<longleftrightarrow> (\<forall>k m. fmlookup (rs_batchRegions s) k = Some m \<longrightarrow> msg_ok m)"

definition content :: "'d RegionStorage \<Rightarrow> string \<Rightarrow> string option" where
  "content s k = (case fmlookup (rs_batchRegions s) k of
     Some r \<Rightarrow> Some (enc r) | None \<Rightarrow> map_of (ldview (rs_LeveldbKV s)) k)"

lemma content_cong:
  "rs_batchRegions s = rs_batchRegions t \<Longrightarrow> rs_LeveldbKV s = rs_LeveldbKV t \<Longrightarrow> content s = content t"
  by (simp add: content_def fun_eq_iff split: option.split)

lemma flush_ok:
  assumes "ldinv (rs_LeveldbKV s)" "msgs_ok s"
  shows "\<exists>d. RegionStorage_flush ld pb (ord (rs_batchRegions s)) s =
      (s\<lparr>rs_LeveldbKV := d, rs_cacheSize := 0, rs_batchRegions := fmempty\<rparr>, None) \<and>
    ldinv d \<and> map_of (ldview d) = content s"
proof -
  let ?m = "rs_batchRegions s" and ?d = "rs_LeveldbKV s"
  let ?b = "map (\<lambda>(k, r). (k, enc r)) (range_pairs (ord ?m) ?m)"
  obtain d where d: "ld_Write ld ?d ?b = (d, None)" using write_ok [OF assms(1), of ?b] by (metis prod.collapse)
  have keys: "distinct (map fst ?b)"
    using range_pairs_map(1) [OF ord, of ?m] by (simp add: comp_def case_prod_beta)
  have val: "map_of ?b k = map_option enc (fmlookup ?m k)" for k
    unfolding range_pairs_map(2) [OF ord, of ?m k, symmetric] by (simp add: map_of_map comp_def)
  have "map_of (ldview d) k = content s k" for k
    using ld_write [OF assms(1) d] by (simp add: fold_upd_pairs [OF keys] val content_def split: option.splits)
  then have "map_of (ldview d) = content s" by (rule ext)
  moreover have "list_all (\<lambda>(k, r). pb_MarshalRegion pb r = Inr (enc r)) (range_pairs (ord ?m) ?m)"
    using range_pairs_map(3) [OF ord, of _ _ ?m] assms(2)
    by (fastforce simp: list_all_iff msgs_ok_def intro: marshal)
  ultimately show ?thesis
    using d ld_write [OF assms(1) d]
    by (intro exI [of _ d]) (simp add: RegionStorage_flush_def LeveldbKV_SaveRegions_def SaveRegions_batch_eq)
qed

lemma save_ok:
  assumes "ldinv (rs_LeveldbKV s)" "batch_ok s" "msgs_ok s" "msg_ok r"
  shows "\<exists>s'. RegionStorage_SaveRegion ld pb (ord (fmupd (regionPath (Region_Id r)) r (rs_batchRegions s))) now s r =
      (s', None) \<and> ldinv (rs_LeveldbKV s') \<and> batch_ok s' \<and> msgs_ok s' \<and> rs_batchSize s' = rs_batchSize s \<and>
    content s' = (content s)(regionPath (Region_Id r) \<mapsto> enc r)"
proof -
  let ?k = "regionPath (Region_Id r)"
  let ?m = "fmupd ?k r (rs_batchRegions s)"
  have c: "content (s\<lparr>rs_batchRegions := ?m\<rparr>) = (content s)(?k \<mapsto> enc r)"
    by (auto simp: content_def fun_eq_iff split: option.split)
  have ok: "msgs_ok (s\<lparr>rs_batchRegions := ?m\<rparr>)" using assms(3,4) by (auto simp: msgs_ok_def)
  show ?thesis
  proof (cases "rs_cacheSize s < rs_batchSize s - 1")
    case True
    let ?s = "s\<lparr>rs_batchRegions := ?m, rs_cacheSize := rs_cacheSize s + 1, rs_flushTime := now + rs_flushRate s\<rparr>"
    have "batch_ok ?s"
      using assms(2) True fmlen_fmupd_le [of ?k r "rs_batchRegions s"] by (auto simp: batch_ok_def)
    moreover have "content ?s = (content s)(?k \<mapsto> enc r)"
      unfolding c [symmetric] by (rule content_cong) simp_all
    moreover have "msgs_ok ?s" using ok by (simp add: msgs_ok_def)
    ultimately show ?thesis using True assms(1) by (simp add: RegionStorage_SaveRegion_def Let_def)
  next
    case False
    obtain d where d: "RegionStorage_flush ld pb (ord ?m) (s\<lparr>rs_batchRegions := ?m\<rparr>) =
        (s\<lparr>rs_LeveldbKV := d, rs_cacheSize := 0, rs_batchRegions := fmempty\<rparr>, None)" "ldinv d"
      "map_of (ldview d) = content (s\<lparr>rs_batchRegions := ?m\<rparr>)"
      using flush_ok [of "s\<lparr>rs_batchRegions := ?m\<rparr>"] assms(1) ok by auto
    have "content (s\<lparr>rs_LeveldbKV := d, rs_cacheSize := 0, rs_batchRegions := fmempty\<rparr>) = map_of (ldview d)"
      by (simp add: content_def fun_eq_iff)
    with d c False assms(2) show ?thesis
      by (simp add: RegionStorage_SaveRegion_def Let_def batch_ok_def msgs_ok_def)
  qed
qed

lemma load_content:
  assumes "ldinv d" "map_of (ldview d) (regionPath i) = Some (enc r)" "msg_ok r"
  shows "loadProto (LeveldbKV ld) (pb_UnmarshalRegion pb) d (regionPath i) = Inr (Some r)"
  using ld_get [OF assms(1), of "regionPath i" "enc r"] assms(2) enc_nonempty [OF assms(3)] unmarshal [OF assms(3)]
  by (simp add: loadProto_def LeveldbKV_def LeveldbKV_Load_def)

end

text \<open>A sequence of saves, each with its clock reading; it stops at the first error.\<close>

fun RegionStorage_saves ::
    "'d leveldb \<Rightarrow> protos \<Rightarrow> ((string, metapb_Region) fmap \<Rightarrow> string list) \<Rightarrow> (time \<times> metapb_Region) list
      \<Rightarrow> 'd RegionStorage \<Rightarrow> 'd RegionStorage \<times> kv_error option" where
  "RegionStorage_saves ld pb ord [] s = (s, None)"
| "RegionStorage_saves ld pb ord ((now, r) # rs) s =
     (case RegionStorage_SaveRegion ld pb (ord (fmupd (regionPath (Region_Id r)) r (rs_batchRegions s))) now s r of
        (s, Some e) \<Rightarrow> (s, Some e)
      | (s, None) \<Rightarrow> RegionStorage_saves ld pb ord rs s)"

text \<open>The last saved region with an id.\<close>

definition last_saved :: "(time \<times> metapb_Region) list \<Rightarrow> u64 \<Rightarrow> metapb_Region option" where
  "last_saved rs = map_of (rev (map (\<lambda>(now, r). (Region_Id r, r)) rs))"

context region_batches
begin

lemma saves_ok:
  assumes "ldinv (rs_LeveldbKV s)" "batch_ok s" "msgs_ok s" "list_all (\<lambda>(now, r). msg_ok r) rs"
  shows "\<exists>s'. RegionStorage_saves ld pb ord rs s = (s', None) \<and> ldinv (rs_LeveldbKV s') \<and> batch_ok s' \<and> msgs_ok s' \<and>
    rs_batchSize s' = rs_batchSize s \<and>
    (\<forall>i. content s' (regionPath i) =
       (case last_saved rs i of Some r \<Rightarrow> Some (enc r) | None \<Rightarrow> content s (regionPath i)))"
  using assms
proof (induction rs arbitrary: s)
  case Nil
  then show ?case by (simp add: last_saved_def)
next
  case (Cons p rs)
  obtain now r where p: "p = (now, r)" by (cases p)
  obtain s1 where s1: "RegionStorage_SaveRegion ld pb (ord (fmupd (regionPath (Region_Id r)) r (rs_batchRegions s))) now s r =
      (s1, None)" "ldinv (rs_LeveldbKV s1)" "batch_ok s1" "msgs_ok s1" "rs_batchSize s1 = rs_batchSize s"
    "content s1 = (content s)(regionPath (Region_Id r) \<mapsto> enc r)"
    using save_ok [OF Cons.prems(1-3), of r now] Cons.prems(4) by (auto simp: p)
  have "list_all (\<lambda>(now, r). msg_ok r) rs" using Cons.prems(4) by simp
  from Cons.IH [OF s1(2-4) this] obtain s' where s': "RegionStorage_saves ld pb ord rs s1 = (s', None)"
    "ldinv (rs_LeveldbKV s')" "batch_ok s'" "msgs_ok s'" "rs_batchSize s' = rs_batchSize s1"
    "\<And>i. content s' (regionPath i) =
       (case last_saved rs i of Some r \<Rightarrow> Some (enc r) | None \<Rightarrow> content s1 (regionPath i))" by blast
  have "last_saved ((now, r) # rs) i = (case last_saved rs i of None \<Rightarrow> if i = Region_Id r then Some r else None | Some x \<Rightarrow> Some x)" for i
    by (simp add: last_saved_def map_add_def split: option.splits)
  then show ?case using s1 s' by (simp add: p split: option.splits)
qed

end

lemma last_saved_set: "last_saved rs i = Some r \<Longrightarrow> r \<in> snd ` set rs"
  by (auto simp: last_saved_def dest!: map_of_SomeD split: prod.splits) (metis image_eqI snd_conv)

subsection \<open>An in-memory LevelDB\<close>

definition list_leveldb :: "memoryKVItem list leveldb" where
  "list_leveldb = (let bt = list_btree memoryKVItem_Less in
     \<lparr>ld_Get = (\<lambda>d k. case map_of (kv_items bt d) k of None \<Rightarrow> Inl (KVError ''leveldb: not found'') | Some v \<Rightarrow> Inr v),
      ld_Iterate = (\<lambda>d k e. filter (\<lambda>p. k \<le> fst p \<and> fst p < e) (kv_items bt d)),
      ld_Put = (\<lambda>d k v. (bt_ReplaceOrInsert bt d (MemoryKVItem k v), None)),
      ld_Delete = (\<lambda>d k. (bt_Delete bt d (MemoryKVItem k []), None)),
      ld_Write = (\<lambda>d batch. (fold (\<lambda>(k, v) d. bt_ReplaceOrInsert bt d (MemoryKVItem k v)) batch d, None)),
      ld_Close = (\<lambda>d. (d, None))\<rparr>)"

lemma list_write:
  fixes bt defines "bt \<equiv> list_btree memoryKVItem_Less"
  assumes "bt_ordered bt memoryKVItem_Less d"
  shows "bt_ordered bt memoryKVItem_Less (fold (\<lambda>(k, v) d. bt_ReplaceOrInsert bt d (MemoryKVItem k v)) batch d) \<and>
    map_of (kv_items bt (fold (\<lambda>(k, v) d. bt_ReplaceOrInsert bt d (MemoryKVItem k v)) batch d)) =
      fold (\<lambda>(k, v) m. m(k \<mapsto> v)) batch (map_of (kv_items bt d))"
  using assms(2) unfolding bt_def
proof (induction batch arbitrary: d)
  case (Cons p batch)
  then show ?case
    using mem_list.Save_items [of d "fst p" "snd p"] mem_list.ordered_ReplaceOrInsert [of d "MemoryKVItem (fst p) (snd p)"]
    by (cases p) simp
qed simp

interpretation ldl: leveldb_contract list_leveldb "bt_ordered (list_btree memoryKVItem_Less) memoryKVItem_Less"
    "kv_items (list_btree memoryKVItem_Less)"
  by unfold_locales
    (auto simp: list_leveldb_def Let_def mem_list.items_sorted mem_list.Save_items mem_list.Remove_items
      mem_list.ordered_ReplaceOrInsert mem_list.ordered_Delete list_write split: option.splits)

abbreviation sample_region_msg :: metapb_Region where
  "sample_region_msg \<equiv> ri_meta (sample_info 3 [] [])"

abbreviation key_order :: "(string, 'v) fmap \<Rightarrow> string list" where
  "key_order m \<equiv> sorted_list_of_set (fset (fmdom m))"

lemma sample_msg: "Region_Id sample_region_msg = 3" "pb_MarshalRegion sample_pb sample_region_msg = Inr ''xxx''"
  "pb_UnmarshalRegion sample_pb ''xxx'' = Inr sample_region_msg"
proof -
  show i: "Region_Id sample_region_msg = 3" by code_simp
  show "pb_MarshalRegion sample_pb sample_region_msg = Inr ''xxx''"
    by (simp add: sample_pb_def i) (simp add: numeral_3_eq_3)
  show "pb_UnmarshalRegion sample_pb ''xxx'' = Inr sample_region_msg" by (simp add: sample_pb_def)
qed

interpretation sample_batches: region_batches list_leveldb "bt_ordered (list_btree memoryKVItem_Less) memoryKVItem_Less"
    "kv_items (list_btree memoryKVItem_Less)" sample_pb "\<lambda>r. r = sample_region_msg" "\<lambda>r. ''xxx''" key_order
  by unfold_locales (simp_all add: sample_msg list_leveldb_def Let_def map_order_iff fmlookup_dom_iff)

subsection \<open>Properties\<close>



text \<open>
  (C37) A deleted region can come back. When a region is saved to a region storage whose batch is
  not full and then deleted, the deletion does not reach the batch: after the next flush the
  region is in the store again.
\<close>
theorem deleted_region_returns:
  assumes "region_batches ld ldinv ldview pb msg_ok enc ord" "ldinv (rs_LeveldbKV rs)" "msg_ok r"
    and "region_batches.msgs_ok msg_ok rs"
    and "st_useRegionStorage st" "st_regionStorage st = Some rs" "rs_cacheSize rs < rs_batchSize rs - 1"
    and "\<And>d k. ldinv d \<Longrightarrow> snd (ld_Delete ld d k) = None"
  shows "\<exists>st1 st2 rs2 st3. Storage_SaveRegion kv ld pb order now st r = Some (st1, None) \<and>
    Storage_DeleteRegion kv ld st1 r = Some (st2, None) \<and> st_regionStorage st2 = Some rs2 \<and>
    Storage_Flush ld pb (ord (rs_batchRegions rs2)) st2 = (st3, None) \<and>
    Storage_LoadRegion kv ld pb st3 (Region_Id r) = Some (Inr (Some r))"
proof -
  let ?k = "regionPath (Region_Id r)"
  define rs1 where "rs1 = rs\<lparr>rs_batchRegions := fmupd ?k r (rs_batchRegions rs),
    rs_cacheSize := rs_cacheSize rs + 1, rs_flushTime := now + rs_flushRate rs\<rparr>"
  have save: "RegionStorage_SaveRegion ld pb order now rs r = (rs1, None)"
    using assms(7) by (simp add: RegionStorage_SaveRegion_def Let_def rs1_def)
  have rs1: "rs_LeveldbKV rs1 = rs_LeveldbKV rs" "rs_batchRegions rs1 = fmupd ?k r (rs_batchRegions rs)"
    by (simp_all add: rs1_def)
  obtain d where d: "ld_Delete ld (rs_LeveldbKV rs) ?k = (d, None)"
    using assms(8) [OF assms(2), of ?k] by (metis prod.collapse)
  have inv: "ldinv d"
    using leveldb_contract.ld_delete [OF region_batches.axioms(1) [OF assms(1)] assms(2) d] by simp
  define rs2 where "rs2 = rs1\<lparr>rs_LeveldbKV := d\<rparr>"
  have rs2: "rs_LeveldbKV rs2 = d" "rs_batchRegions rs2 = fmupd ?k r (rs_batchRegions rs)"
    by (simp_all add: rs2_def rs1)
  have ok: "region_batches.msgs_ok msg_ok rs2"
    using assms(3,4) by (auto simp: region_batches.msgs_ok_def [OF assms(1)] rs2)
  obtain d' where d': "RegionStorage_flush ld pb (ord (rs_batchRegions rs2)) rs2 =
      (rs2\<lparr>rs_LeveldbKV := d', rs_cacheSize := 0, rs_batchRegions := fmempty\<rparr>, None)"
    "ldinv d'" "map_of (ldview d') = region_batches.content ldview enc rs2"
    using region_batches.flush_ok [OF assms(1) _ ok] inv rs2(1) by blast
  have "map_of (ldview d') ?k = Some (enc r)"
    using d'(3) by (simp add: region_batches.content_def [OF assms(1)] rs2)
  from region_batches.load_content [OF assms(1) d'(2) this assms(3)]
  have load: "loadProto (LeveldbKV ld) (pb_UnmarshalRegion pb) d' ?k = Inr (Some r)" .
  let ?st1 = "st\<lparr>st_regionStorage := Some rs1\<rparr>" and ?st2 = "st\<lparr>st_regionStorage := Some rs2\<rparr>"
  have "Storage_SaveRegion kv ld pb order now st r = Some (?st1, None)"
    using assms(5,6) save by (simp add: Storage_SaveRegion_def)
  moreover have "Storage_DeleteRegion kv ld ?st1 r = Some (?st2, None)"
    using assms(5) d by (simp add: Storage_DeleteRegion_def deleteRegion_def LeveldbKV_def LeveldbKV_Remove_def rs2_def rs1)
  ultimately show ?thesis
    using assms(5) d'(1) load by (force simp: Storage_Flush_def RegionStorage_FlushRegion_def Storage_LoadRegion_def)
qed

theorem deleted_region_returns_witness:
  "\<exists>st1 st2 rs2 st3.
    Storage_SaveRegion list_kv list_leveldb sample_pb [] 5
      \<lparr>st_Base = [], st_regionStorage = Some (NewRegionStorage 0 []), st_useRegionStorage = True\<rparr>
      sample_region_msg = Some (st1, None) \<and>
    Storage_DeleteRegion list_kv list_leveldb st1 sample_region_msg = Some (st2, None) \<and>
    st_regionStorage st2 = Some rs2 \<and>
    Storage_Flush list_leveldb sample_pb (key_order (rs_batchRegions rs2)) st2 = (st3, None) \<and>
    Storage_LoadRegion list_kv list_leveldb sample_pb st3 (Region_Id sample_region_msg) =
      Some (Inr (Some sample_region_msg))"
proof (rule deleted_region_returns [OF sample_batches.region_batches_axioms])
  show "bt_ordered (list_btree memoryKVItem_Less) memoryKVItem_Less (rs_LeveldbKV (NewRegionStorage 0 []))"
    by (simp add: NewRegionStorage_def bt_ordered_def list_btree_def)
  show "sample_batches.msgs_ok (NewRegionStorage 0 [])" by (simp add: NewRegionStorage_def sample_batches.msgs_ok_def)
  show "rs_cacheSize (NewRegionStorage 0 []) < rs_batchSize (NewRegionStorage 0 []) - 1"
    by (simp add: NewRegionStorage_def defaultBatchSize_def)
qed (simp_all add: list_leveldb_def Let_def)

end
