(* ===== verification/Spec2Isabelle.thy ===== *)
theory Spec2Isabelle
  imports TwoQueue BasicCluster HistoryBuffer TsoUnique IdAlloc OperatorScatter OperatorReach StorageBatch
begin

text \<open>Placement driver.\<close>

end
